(* ===== verification/Py_Prelude.thy ===== *)
theory Py_Prelude
  imports Main "HOL-Library.Sublist"
begin

section \<open>Python values, exceptions and string operations\<close>

text \<open>
  What \<^verbatim>\<open>src/cpplint.py\<close> uses of Python 2.7 itself: exceptions as values of a sum
  type, indexing, and the methods of strings.  A Python string is a HOL \<open>string\<close>; one \<open>char\<close>
  stands for one code point below 256.  Every operation is executable.

  The collections \<open>res_simps\<close> (unfolding of the exception plumbing) and \<open>keeps_intros\<close>
  (rules that carry a state invariant through a handler) are shared by all components.
\<close>

named_theorems res_simps
named_theorems keeps_intros

subsection \<open>Exceptions\<close>

datatype py_error =
    IndexError
  | KeyError
  | AssertionError
  | AttributeError
  | ValueError string
  | SystemExit string
  | Hangs

text \<open>\<open>Hangs\<close> is no exception: it is the outcome of a computation that never returns.\<close>

type_synonym 'a res = "py_error + 'a"

definition rbind :: "'a res \<Rightarrow> ('a \<Rightarrow> 'b res) \<Rightarrow> 'b res" where
  "rbind m f = (case m of Inl e \<Rightarrow> Inl e | Inr x \<Rightarrow> f x)"

lemma rbind_simps [simp, res_simps]:
  "rbind (Inl e) f = Inl e"
  "rbind (Inr x) f = f x"
  by (simp_all add: rbind_def)

lemma rbind_Inr_iff: "rbind m f = Inr y \<longleftrightarrow> (\<exists>x. m = Inr x \<and> f x = Inr y)"
  by (cases m) auto

lemma rbind_Inr_right [simp]: "rbind m Inr = m"
  by (cases m) auto

lemma rbind_assoc: "rbind (rbind m f) g = rbind m (\<lambda>x. rbind (f x) g)"
  by (cases m) auto

lemma rbind_fundef_cong [fundef_cong]:
  "m = m' \<Longrightarrow> (\<And>x. m' = Inr x \<Longrightarrow> f x = g x) \<Longrightarrow> rbind m f = rbind m' g"
  by (cases m') auto

lemma rbind_split:
  "P (rbind m f) \<longleftrightarrow> (\<forall>e. m = Inl e \<longrightarrow> P (Inl e)) \<and> (\<forall>x. m = Inr x \<longrightarrow> P (f x))"
  by (cases m) auto

definition returns :: "'a res \<Rightarrow> bool" where
  "returns m \<longleftrightarrow> (\<exists>x. m = Inr x)"

lemma returns_simps [simp]: "returns (Inr x)" "\<not> returns (Inl e)"
  by (auto simp: returns_def)

text \<open>A loop whose body may raise stops at the first exception.\<close>

primrec rfold :: "('x \<Rightarrow> 's \<Rightarrow> 's res) \<Rightarrow> 'x list \<Rightarrow> 's \<Rightarrow> 's res" where
  "rfold f [] s = Inr s"
| "rfold f (x # xs) s = rbind (f x s) (rfold f xs)"

lemma rfold_Nil [simp]: "rfold f [] = Inr"
  by (rule ext) simp

lemma rfold_append: "rfold f (xs @ ys) s = rbind (rfold f xs s) (rfold f ys)"
  by (induction xs arbitrary: s) (auto simp: rbind_def split: sum.splits)

primrec rmap :: "('x \<Rightarrow> 'y res) \<Rightarrow> 'x list \<Rightarrow> 'y list res" where
  "rmap f [] = Inr []"
| "rmap f (x # xs) = rbind (f x) (\<lambda>y. rbind (rmap f xs) (\<lambda>ys. Inr (y # ys)))"

lemma rmap_length: "rmap f xs = Inr ys \<Longrightarrow> length ys = length xs"
  by (induction xs arbitrary: ys) (auto simp: rbind_Inr_iff)

lemma rmap_returns: "(\<And>x. x \<in> set xs \<Longrightarrow> returns (f x)) \<Longrightarrow> returns (rmap f xs)"
  by (induction xs) (fastforce simp: returns_def rbind_Inr_iff)+

lemma rmap_nth: "rmap f xs = Inr ys \<Longrightarrow> i < length xs \<Longrightarrow> f (xs ! i) = Inr (ys ! i)"
  by (induction xs arbitrary: ys i) (auto simp: rbind_Inr_iff nth_Cons split: nat.splits)

text \<open>Sequencing and conditional execution of state transformers that may raise.\<close>

definition andthen :: "('s \<Rightarrow> 's res) \<Rightarrow> ('s \<Rightarrow> 's res) \<Rightarrow> 's \<Rightarrow> 's res" where
  "andthen a b s = rbind (a s) b"

definition whenever :: "bool \<Rightarrow> ('s \<Rightarrow> 's res) \<Rightarrow> 's \<Rightarrow> 's res" where
  "whenever c a s = (if c then a s else Inr s)"

lemma whenever_simps [simp, res_simps]:
  "whenever True a = a"
  "whenever False a = Inr"
  by (auto simp: whenever_def)

text \<open>
  \<open>keeps I a\<close>: from every state that satisfies \<open>I\<close> the handler \<open>a\<close> returns normally, in a
  state that satisfies \<open>I\<close> again.
\<close>

definition keeps :: "('s \<Rightarrow> bool) \<Rightarrow> ('s \<Rightarrow> 's res) \<Rightarrow> bool" where
  "keeps I a \<longleftrightarrow> (\<forall>s. I s \<longrightarrow> (\<exists>s'. a s = Inr s' \<and> I s'))"

lemma keepsD: "keeps I a \<Longrightarrow> I s \<Longrightarrow> \<exists>s'. a s = Inr s' \<and> I s'"
  by (auto simp: keeps_def)

lemma keeps_Inr [keeps_intros]: "keeps I Inr"
  by (auto simp: keeps_def)

lemma keeps_lambda_Inr [keeps_intros]: "keeps I (\<lambda>s. Inr s)"
  by (auto simp: keeps_def)

lemma keeps_andthen [keeps_intros]: "keeps I a \<Longrightarrow> keeps I b \<Longrightarrow> keeps I (andthen a b)"
  by (fastforce simp: keeps_def andthen_def)

lemma keeps_whenever [keeps_intros]: "(c \<Longrightarrow> keeps I a) \<Longrightarrow> keeps I (whenever c a)"
  by (auto simp: keeps_def whenever_def)

lemma keeps_if [keeps_intros]:
  "(c \<Longrightarrow> keeps I a) \<Longrightarrow> (\<not> c \<Longrightarrow> keeps I b) \<Longrightarrow> keeps I (if c then a else b)"
  by simp

lemma keeps_rfold [keeps_intros]:
  assumes "\<And>x. x \<in> set xs \<Longrightarrow> keeps I (f x)"
  shows "keeps I (rfold f xs)"
  using assms
proof (induction xs)
  case Nil
  then show ?case by (auto simp: keeps_def)
next
  case (Cons x xs)
  then have x: "keeps I (f x)" and xs: "keeps I (rfold f xs)" by auto
  show ?case
    using keeps_andthen [OF x xs] by (simp add: keeps_def andthen_def)
qed

text \<open>\<open>lands P m\<close>: the computation \<open>m\<close> returns normally with a value that satisfies \<open>P\<close>.\<close>

definition lands :: "('a \<Rightarrow> bool) \<Rightarrow> 'a res \<Rightarrow> bool" where
  "lands P m \<longleftrightarrow> (\<exists>x. m = Inr x \<and> P x)"

lemma lands_Inr [simp]: "lands P (Inr x) \<longleftrightarrow> P x"
  and lands_Inl [simp]: "\<not> lands P (Inl e)"
  by (simp_all add: lands_def)

lemma lands_bind: "lands Q m \<Longrightarrow> (\<And>x. Q x \<Longrightarrow> lands P (f x)) \<Longrightarrow> lands P (rbind m f)"
  by (auto simp: lands_def)

lemma lands_mono: "lands Q m \<Longrightarrow> (\<And>x. Q x \<Longrightarrow> P x) \<Longrightarrow> lands P m"
  by (auto simp: lands_def)

lemma lands_if: "(c \<Longrightarrow> lands P a) \<Longrightarrow> (\<not> c \<Longrightarrow> lands P b) \<Longrightarrow> lands P (if c then a else b)"
  by simp

lemma keeps_iff_lands: "keeps I a \<longleftrightarrow> (\<forall>s. I s \<longrightarrow> lands I (a s))"
  by (simp add: keeps_def lands_def)

lemma keeps_lands: "keeps I a \<Longrightarrow> I s \<Longrightarrow> lands I (a s)"
  by (simp add: keeps_iff_lands)

lemma keepsI: "(\<And>s. I s \<Longrightarrow> lands I (a s)) \<Longrightarrow> keeps I a"
  by (simp add: keeps_iff_lands)

lemma lands_whenever: "(c \<Longrightarrow> lands P (a s)) \<Longrightarrow> (\<not> c \<Longrightarrow> P s) \<Longrightarrow> lands P (whenever c a s)"
  by (simp add: whenever_def)

text \<open>
  \<open>permits E I a\<close>: from a state that satisfies \<open>I\<close> the handler \<open>a\<close> ends in such a state again, or raises
  one of the exceptions in \<open>E\<close>.
\<close>

definition permits :: "py_error set \<Rightarrow> ('s \<Rightarrow> bool) \<Rightarrow> ('s \<Rightarrow> 's res) \<Rightarrow> bool" where
  "permits E I a \<longleftrightarrow> (\<forall>s. I s \<longrightarrow> (case a s of Inl e \<Rightarrow> e \<in> E | Inr s' \<Rightarrow> I s'))"

lemma permits_iff:
  "permits E I a \<longleftrightarrow> (\<forall>s. I s \<longrightarrow> (\<forall>e. a s = Inl e \<longrightarrow> e \<in> E) \<and> (\<forall>s'. a s = Inr s' \<longrightarrow> I s'))"
  unfolding permits_def by (intro all_cong1 imp_cong refl) (simp split: sum.split)

lemma rbind_Inl_iff: "rbind m f = Inl e \<longleftrightarrow> m = Inl e \<or> (\<exists>x. m = Inr x \<and> f x = Inl e)"
  by (cases m) auto

lemma keeps_permits: "keeps I a \<Longrightarrow> permits E I a"
  by (auto simp: keeps_def permits_def split: sum.split)

lemma permits_andthen: "permits E I a \<Longrightarrow> permits E I b \<Longrightarrow> permits E I (andthen a b)"
  unfolding permits_iff andthen_def rbind_Inr_iff rbind_Inl_iff by blast

subsection \<open>Indexing\<close>

text \<open>\<^verbatim>\<open>xs[i]\<close>: a negative index counts from the end; out of range raises.\<close>

definition py_idx :: "'a list \<Rightarrow> int \<Rightarrow> 'a res" where
  "py_idx xs i =
     (if i < - int (length xs) \<or> int (length xs) \<le> i then Inl IndexError
      else if i < 0 then Inr (xs ! nat (int (length xs) + i))
      else Inr (xs ! nat i))"

lemma py_idx_nat [simp, res_simps]: "i < length xs \<Longrightarrow> py_idx xs (int i) = Inr (xs ! i)"
  by (simp add: py_idx_def Let_def)

lemma py_idx_out [simp]: "length xs \<le> i \<Longrightarrow> py_idx xs (int i) = Inl IndexError"
  by (simp add: py_idx_def Let_def)

lemma py_idx_returns:
  "- int (length xs) \<le> i \<Longrightarrow> i < int (length xs) \<Longrightarrow> returns (py_idx xs i)"
  by (auto simp: py_idx_def Let_def)

text \<open>\<^verbatim>\<open>xs[i:]\<close> and \<^verbatim>\<open>xs[:i]\<close>, where a negative index counts from the end.\<close>

definition py_from :: "'a list \<Rightarrow> int \<Rightarrow> 'a list" where
  "py_from xs i = drop (nat (if i < 0 then int (length xs) + i else i)) xs"

definition py_upto :: "'a list \<Rightarrow> int \<Rightarrow> 'a list" where
  "py_upto xs i = take (nat (if i < 0 then int (length xs) + i else i)) xs"

lemma py_slices [simp]: "py_from xs (int i) = drop i xs" "py_upto xs (int i) = take i xs"
  by (simp_all add: py_from_def py_upto_def)

subsection \<open>Characters\<close>

abbreviation backslash :: char where "backslash \<equiv> CHR 0x5C"
abbreviation dquote :: char where "dquote \<equiv> CHR 0x22"
abbreviation squote :: char where "squote \<equiv> CHR 0x27"
abbreviation newline :: char where "newline \<equiv> CHR 0x0A"

definition ord :: "char \<Rightarrow> nat" where
  "ord c = of_char c"

definition char_between :: "char \<Rightarrow> char \<Rightarrow> char \<Rightarrow> bool" where
  "char_between lo hi c \<longleftrightarrow> ord lo \<le> ord c \<and> ord c \<le> ord hi"

text \<open>\<^verbatim>\<open>unicode.isspace\<close> of one code point, which \<open>strip\<close> and \<open>split\<close> use.\<close>

definition py_space :: "char \<Rightarrow> bool" where
  "py_space c \<longleftrightarrow> c \<in> set [CHR 0x20, CHR 0x09, CHR 0x0A, CHR 0x0B, CHR 0x0C, CHR 0x0D,
                         CHR 0x1C, CHR 0x1D, CHR 0x1E, CHR 0x1F, CHR 0x85, CHR 0xA0]"

text \<open>The ASCII white space: what \<open>\s\<close> matches and what byte strings strip.\<close>

definition ascii_space :: "char \<Rightarrow> bool" where
  "ascii_space c \<longleftrightarrow> c \<in> set [CHR 0x20, CHR 0x09, CHR 0x0A, CHR 0x0B, CHR 0x0C, CHR 0x0D]"

definition py_lower_char :: "char \<Rightarrow> char" where
  "py_lower_char c =
     (if char_between CHR ''A'' CHR ''Z'' c \<or> (char_between CHR 0xC0 CHR 0xDE c \<and> c \<noteq> CHR 0xD7)
      then char_of (ord c + 32) else c)"

definition ascii_upper_char :: "char \<Rightarrow> char" where
  "ascii_upper_char c = (if char_between CHR ''a'' CHR ''z'' c then char_of (ord c - 32) else c)"

subsection \<open>String methods\<close>

text \<open>
  \<open>py_find sub s\<close> is \<^verbatim>\<open>s.find(sub)\<close>: the first position, with \<open>None\<close> for Python's \<open>-1\<close>.
\<close>

primrec py_find :: "string \<Rightarrow> string \<Rightarrow> nat option" where
  "py_find sub [] = (if sub = [] then Some 0 else None)"
| "py_find sub (c # cs) =
     (if prefix sub (c # cs) then Some 0 else map_option Suc (py_find sub cs))"

definition py_find_from :: "string \<Rightarrow> string \<Rightarrow> nat \<Rightarrow> nat option" where
  "py_find_from sub s k =
     (if k \<le> length s then map_option (\<lambda>i. i + k) (py_find sub (drop k s)) else None)"

text \<open>\<^verbatim>\<open>s.rfind(c)\<close> for one character: the last position.\<close>

definition py_rfind :: "char \<Rightarrow> string \<Rightarrow> nat option" where
  "py_rfind c s = map_option (\<lambda>i. length s - 1 - i) (py_find [c] (rev s))"

definition py_in :: "string \<Rightarrow> string \<Rightarrow> bool" where
  "py_in sub s \<longleftrightarrow> py_find sub s \<noteq> None"

definition py_startswith :: "string \<Rightarrow> string \<Rightarrow> bool" where
  "py_startswith s p \<longleftrightarrow> prefix p s"

definition py_endswith :: "string \<Rightarrow> string \<Rightarrow> bool" where
  "py_endswith s p \<longleftrightarrow> prefix (rev p) (rev s)"

text \<open>\<^verbatim>\<open>s.count(sub)\<close> and \<^verbatim>\<open>s.replace(old, new)\<close> scan left to right without overlap.\<close>

function py_count :: "string \<Rightarrow> string \<Rightarrow> nat" where
  "py_count sub s =
     (if sub = [] then Suc (length s)
      else case s of
        [] \<Rightarrow> 0
      | c # cs \<Rightarrow> if prefix sub s then Suc (py_count sub (drop (length sub) s)) else py_count sub cs)"
  by pat_completeness auto
termination
  by (relation "measure (\<lambda>(sub, s). length s)") auto

declare py_count.simps [simp del]

function py_replace :: "string \<Rightarrow> string \<Rightarrow> string \<Rightarrow> string" where
  "py_replace old new s =
     (if old = [] then new @ concat (map (\<lambda>c. c # new) s)
      else case s of
        [] \<Rightarrow> []
      | c # cs \<Rightarrow> if prefix old s then new @ py_replace old new (drop (length old) s)
                  else c # py_replace old new cs)"
  by pat_completeness auto
termination
  by (relation "measure (\<lambda>(old, new, s). length s)") auto

declare py_replace.simps [simp del]

definition py_lstrip :: "string \<Rightarrow> string" where
  "py_lstrip s = dropWhile py_space s"

definition py_rstrip :: "string \<Rightarrow> string" where
  "py_rstrip s = rev (dropWhile py_space (rev s))"

definition py_strip :: "string \<Rightarrow> string" where
  "py_strip s = py_rstrip (py_lstrip s)"

definition bytes_strip :: "string \<Rightarrow> string" where
  "bytes_strip s = rev (dropWhile ascii_space (rev (dropWhile ascii_space s)))"

definition py_isspace :: "string \<Rightarrow> bool" where
  "py_isspace s \<longleftrightarrow> s \<noteq> [] \<and> list_all py_space s"

text \<open>\<^verbatim>\<open>unicode.isdigit\<close>, for which the three superscripts below 256 are digits too.\<close>

definition py_isdigit :: "string \<Rightarrow> bool" where
  "py_isdigit s \<longleftrightarrow> s \<noteq> [] \<and> list_all (\<lambda>c. char_between CHR ''0'' CHR ''9'' c \<or> c \<in> set [CHR 0xB2, CHR 0xB3, CHR 0xB9]) s"

definition py_lower :: "string \<Rightarrow> string" where
  "py_lower s = map py_lower_char s"

definition ascii_upper :: "string \<Rightarrow> string" where
  "ascii_upper s = map ascii_upper_char s"

text \<open>\<^verbatim>\<open>s.split(c)\<close> for one separator character: always at least one piece.\<close>

primrec py_split_on :: "char \<Rightarrow> string \<Rightarrow> string list" where
  "py_split_on d [] = [[]]"
| "py_split_on d (c # cs) =
     (if c = d then [] # py_split_on d cs
      else case py_split_on d cs of [] \<Rightarrow> [[c]] | w # ws \<Rightarrow> (c # w) # ws)"

text \<open>\<^verbatim>\<open>s.split(sep)\<close> for a separator of any length but zero.\<close>

function py_split_str :: "string \<Rightarrow> string \<Rightarrow> string list" where
  "py_split_str sep s =
     (if sep = [] then [s]
      else case s of
        [] \<Rightarrow> [[]]
      | c # cs \<Rightarrow>
          if prefix sep s then [] # py_split_str sep (drop (length sep) s)
          else case py_split_str sep cs of [] \<Rightarrow> [[c]] | w # ws \<Rightarrow> (c # w) # ws)"
  by pat_completeness auto
termination
  by (relation "measure (\<lambda>(sep, s). length s)") auto

declare py_split_str.simps [simp del]

text \<open>\<^verbatim>\<open>s.split()\<close>: the maximal runs of characters that are not white space.\<close>

function py_split :: "string \<Rightarrow> string list" where
  "py_split s =
     (case dropWhile py_space s of
        [] \<Rightarrow> []
      | c # cs \<Rightarrow> (c # takeWhile (\<lambda>x. \<not> py_space x) cs) # py_split (dropWhile (\<lambda>x. \<not> py_space x) cs))"
  by pat_completeness auto
termination
proof (relation "measure length")
  fix s c cs
  assume "dropWhile py_space s = c # cs"
  then have "length (c # cs) \<le> length s"
    by (metis length_dropWhile_le)
  moreover have "length (dropWhile (\<lambda>x. \<not> py_space x) cs) \<le> length cs"
    by (rule length_dropWhile_le)
  ultimately show "(dropWhile (\<lambda>x. \<not> py_space x) cs, s) \<in> measure length" by simp
qed simp

declare py_split.simps [simp del]

primrec py_join :: "string \<Rightarrow> string list \<Rightarrow> string" where
  "py_join sep [] = []"
| "py_join sep (w # ws) = (if ws = [] then w else w @ sep @ py_join sep ws)"

text \<open>The decimal numeral of \<^verbatim>\<open>'%d' % n\<close> and \<^verbatim>\<open>'%s' % n\<close>.\<close>

definition digit_char :: "nat \<Rightarrow> char" where
  "digit_char d = char_of (48 + d)"

fun nat_str :: "nat \<Rightarrow> string" where
  "nat_str n = (if n < 10 then [digit_char n] else nat_str (n div 10) @ [digit_char (n mod 10)])"

declare nat_str.simps [simp del]

definition int_str :: "int \<Rightarrow> string" where
  "int_str i = (if i < 0 then ''-'' @ nat_str (nat (- i)) else nat_str (nat i))"

subsection \<open>Facts about the string methods\<close>

lemma py_find_Some:
  "py_find sub s = Some i \<Longrightarrow> s = take i s @ sub @ drop (i + length sub) s"
proof (induction s arbitrary: i)
  case Nil
  then show ?case by (auto split: if_splits)
next
  case (Cons c cs)
  show ?case
  proof (cases "prefix sub (c # cs)")
    case True
    with Cons.prems show ?thesis by (auto elim!: prefixE)
  next
    case False
    with Cons.prems obtain j where "i = Suc j" "py_find sub cs = Some j" by auto
    with Cons.IH show ?thesis by auto
  qed
qed

lemma py_find_bound: "py_find sub s = Some i \<Longrightarrow> i + length sub \<le> length s"
proof (induction s arbitrary: i)
  case Nil
  then show ?case by (auto split: if_splits)
next
  case (Cons c cs)
  then show ?case
    by (cases "prefix sub (c # cs)") (auto dest: prefix_length_le)
qed

lemma py_find_None_iff: "py_find sub s = None \<longleftrightarrow> \<not> sublist sub s"
proof (induction s)
  case Nil
  then show ?case by auto
next
  case (Cons c cs)
  have "sublist sub (c # cs) \<longleftrightarrow> prefix sub (c # cs) \<or> sublist sub cs"
    by (rule sublist_Cons_right)
  with Cons show ?case by simp
qed

lemma py_find_append: "py_find sub (a @ sub @ b) \<noteq> None"
  by (auto simp: py_find_None_iff sublist_def)

text \<open>The reported position is the first one.\<close>

lemma py_find_least: "py_find sub s = Some i \<Longrightarrow> j < i \<Longrightarrow> \<not> prefix sub (drop j s)"
proof (induction s arbitrary: i j)
  case Nil
  then show ?case by (auto split: if_splits)
next
  case (Cons c cs)
  from Cons.prems have np: "\<not> prefix sub (c # cs)" by (auto split: if_splits)
  with Cons.prems obtain k where k: "i = Suc k" "py_find sub cs = Some k" by auto
  show ?case
  proof (cases j)
    case 0
    with np show ?thesis by simp
  next
    case (Suc m)
    with k Cons.prems(2) Cons.IH show ?thesis by auto
  qed
qed

lemma py_count_Nil [simp]: "sub \<noteq> [] \<Longrightarrow> py_count sub [] = 0"
  by (simp add: py_count.simps)

lemma py_count_single: "py_count [c] s = count_list s c"
  by (induction s) (simp_all add: py_count.simps)

lemma py_replace_Nil [simp]: "old \<noteq> [] \<Longrightarrow> py_replace old new [] = []"
  by (simp add: py_replace.simps)

lemma py_replace_absent: "old \<noteq> [] \<Longrightarrow> \<not> sublist old s \<Longrightarrow> py_replace old new s = s"
  by (induction s) (auto simp: py_replace.simps sublist_Cons_right)

lemma py_count_absent: "sub \<noteq> [] \<Longrightarrow> \<not> sublist sub s \<Longrightarrow> py_count sub s = 0"
  by (induction s) (auto simp: py_count.simps sublist_Cons_right)

lemma sublist_absent_char: "c \<in> set sub \<Longrightarrow> c \<notin> set s \<Longrightarrow> \<not> sublist sub s"
  using set_mono_sublist by blast

lemma set_py_replace: "old \<noteq> [] \<Longrightarrow> set (py_replace old new s) \<subseteq> set s \<union> set new"
proof (induction s rule: length_induct)
  case (1 s)
  show ?case
  proof (cases s)
    case (Cons c cs)
    have "length (drop (length old) s) < length s" using 1(2) Cons by simp
    with 1 have "set (py_replace old new (drop (length old) s)) \<subseteq> set (drop (length old) s) \<union> set new" by blast
    moreover have "set (py_replace old new cs) \<subseteq> set cs \<union> set new" using 1 Cons by simp
    ultimately show ?thesis
      using Cons 1(2) set_drop_subset [of "length old" s]
      by (subst py_replace.simps) auto
  qed (use 1 in simp)
qed

lemma py_split_on_nonempty [simp]: "py_split_on d s \<noteq> []"
  by (induction s) (auto split: list.splits)

lemma py_split_on_join: "py_join [d] (py_split_on d s) = s"
  by (induction s) (auto split: list.splits if_splits)

lemma py_split_on_no_sep: "w \<in> set (py_split_on d s) \<Longrightarrow> d \<notin> set w"
  by (induction s arbitrary: w) (fastforce split: list.splits if_splits)+

lemma py_split_nonempty_words: "w \<in> set (py_split s) \<Longrightarrow> w \<noteq> [] \<and> list_all (\<lambda>x. \<not> py_space x) w"
proof (induction s rule: py_split.induct)
  case (1 s)
  show ?case
  proof (cases "dropWhile py_space s")
    case Nil
    with "1.prems" show ?thesis by (simp add: py_split.simps)
  next
    case (Cons c cs)
    then have c: "\<not> py_space c" using hd_dropWhile [of py_space s] by simp
    have tw: "list_all (\<lambda>x. \<not> py_space x) (takeWhile (\<lambda>x. \<not> py_space x) cs)"
      by (auto simp: list_all_iff dest: set_takeWhileD)
    from "1.prems" Cons
    consider "w = c # takeWhile (\<lambda>x. \<not> py_space x) cs"
      | "w \<in> set (py_split (dropWhile (\<lambda>x. \<not> py_space x) cs))"
      by (subst (asm) py_split.simps) auto
    then show ?thesis
    proof cases
      case 1
      with c tw show ?thesis by simp
    next
      case 2
      with "1.IH" [OF Cons] show ?thesis by simp
    qed
  qed
qed

lemma py_strip_Nil [simp]: "py_strip [] = []"
  by (simp add: py_strip_def py_rstrip_def py_lstrip_def)

lemma set_py_strip: "set (py_strip s) \<subseteq> set s"
  by (auto simp: py_strip_def py_rstrip_def py_lstrip_def dest!: set_dropWhileD)

lemma py_endswith_iff: "py_endswith s p \<longleftrightarrow> suffix p s"
  by (simp add: py_endswith_def suffix_to_prefix)

end
