(* ===== verification/Py_Regex.thy ===== *)
theory Py_Regex
  imports Py_Prelude
begin

section \<open>Python regular expressions\<close>

text \<open>
  The patterns of \<^verbatim>\<open>src/cpplint.py\<close> are run by Python's backtracking matcher
  (\<^verbatim>\<open>sre\<close>).  Here a pattern is a value of the datatype \<open>rx\<close>, one constructor per
  construct that the patterns use, and \<open>mt r st\<close> lists every way \<open>r\<close> can match from the
  matcher state \<open>st\<close>, in the order in which the backtracking matcher tries them.  The first
  element of the list is therefore the match that Python reports.

  The matcher state holds the text before the current position (reversed), the text after it and
  the groups captured so far (the newest first, so that the last capture of a group wins).
  Patterns compiled without flags are matched as in Python 2.7: \<open>\s\<close>, \<open>\w\<close> and \<open>\d\<close>
  are the ASCII classes, a dot does not match a newline, and \<open>$\<close> matches at the end or before
  a final newline.
\<close>

subsection \<open>Patterns\<close>

datatype citem =
    Ch string          \<comment> \<open>any of these characters\<close>
  | Rg char char       \<comment> \<open>a range\<close>
  | Wd                 \<comment> \<open>\<open>\w\<close>\<close>
  | NWd                \<comment> \<open>\<open>\W\<close>\<close>
  | Sp                 \<comment> \<open>\<open>\s\<close>\<close>
  | NSp                \<comment> \<open>\<open>\S\<close>\<close>
  | Dg                 \<comment> \<open>\<open>\d\<close>\<close>

datatype rx =
    Eps
  | Lit string
  | Set "citem list"              \<comment> \<open>\<open>[...]\<close>\<close>
  | NSet "citem list"             \<comment> \<open>\<open>[^...]\<close>\<close>
  | Dot
  | Cat rx rx
  | Alt rx rx
  | Rep bool nat "nat option" rx  \<comment> \<open>greedy?, least and greatest count\<close>
  | Grp nat rx
  | Back nat
  | Bol
  | Eol
  | WordB
  | Look bool rx                  \<comment> \<open>\<open>(?=...)\<close> and \<open>(?!...)\<close>\<close>

abbreviation star :: "rx \<Rightarrow> rx" where "star r \<equiv> Rep True 0 None r"
abbreviation plus1 :: "rx \<Rightarrow> rx" where "plus1 r \<equiv> Rep True 1 None r"
abbreviation opt :: "rx \<Rightarrow> rx" where "opt r \<equiv> Rep True 0 (Some 1) r"
abbreviation lazy_star :: "rx \<Rightarrow> rx" where "lazy_star r \<equiv> Rep False 0 None r"
abbreviation lazy_plus :: "rx \<Rightarrow> rx" where "lazy_plus r \<equiv> Rep False 1 None r"
abbreviation sp0 :: rx where "sp0 \<equiv> star (Set [Sp])"        \<comment> \<open>\<open>\s*\<close>\<close>
abbreviation sp1 :: rx where "sp1 \<equiv> plus1 (Set [Sp])"       \<comment> \<open>\<open>\s+\<close>\<close>
abbreviation wd0 :: rx where "wd0 \<equiv> star (Set [Wd])"        \<comment> \<open>\<open>\w*\<close>\<close>
abbreviation wd1 :: rx where "wd1 \<equiv> plus1 (Set [Wd])"       \<comment> \<open>\<open>\w+\<close>\<close>
abbreviation any0 :: rx where "any0 \<equiv> star Dot"             \<comment> \<open>\<open>.*\<close>\<close>

primrec cats :: "rx list \<Rightarrow> rx" where
  "cats [] = Eps"
| "cats (r # rs) = (if rs = [] then r else Cat r (cats rs))"

primrec alts :: "rx list \<Rightarrow> rx" where
  "alts [] = Eps"
| "alts (r # rs) = (if rs = [] then r else Alt r (alts rs))"

definition word_char :: "char \<Rightarrow> bool" where
  "word_char c \<longleftrightarrow> char_between CHR ''a'' CHR ''z'' c \<or> char_between CHR ''A'' CHR ''Z'' c \<or>
                  char_between CHR ''0'' CHR ''9'' c \<or> c = CHR ''_''"

primrec citem_mem :: "citem \<Rightarrow> char \<Rightarrow> bool" where
  "citem_mem (Ch s) c = (c \<in> set s)"
| "citem_mem (Rg lo hi) c = char_between lo hi c"
| "citem_mem Wd c = word_char c"
| "citem_mem NWd c = (\<not> word_char c)"
| "citem_mem Sp c = ascii_space c"
| "citem_mem NSp c = (\<not> ascii_space c)"
| "citem_mem Dg c = char_between CHR ''0'' CHR ''9'' c"

definition cset :: "citem list \<Rightarrow> char \<Rightarrow> bool" where
  "cset items c = list_ex (\<lambda>i. citem_mem i c) items"

subsection \<open>The matcher\<close>

datatype mstate = MS (mprev: string) (mrest: string) (mcaps: "(nat \<times> string) list")

fun mone :: "(char \<Rightarrow> bool) \<Rightarrow> mstate \<Rightarrow> mstate list" where
  "mone P (MS p [] c) = []"
| "mone P (MS p (x # xs) c) = (if P x then [MS (x # p) xs c] else [])"

fun mlit :: "string \<Rightarrow> mstate \<Rightarrow> mstate list" where
  "mlit [] st = [st]"
| "mlit (w # ws) (MS p [] c) = []"
| "mlit (w # ws) (MS p (x # xs) c) = (if x = w then mlit ws (MS (x # p) xs c) else [])"

text \<open>The mandatory iterations of a repetition.\<close>

fun mtimes :: "(mstate \<Rightarrow> mstate list) \<Rightarrow> nat \<Rightarrow> mstate \<Rightarrow> mstate list" where
  "mtimes f 0 st = [st]"
| "mtimes f (Suc n) st = concat (map (mtimes f n) (f st))"

text \<open>
  The optional iterations, at most \<open>n\<close>.  An iteration that consumed nothing is the last one
  (\<^verbatim>\<open>sre\<close> refuses to iterate again at the same position).
\<close>

fun mopt :: "(mstate \<Rightarrow> mstate list) \<Rightarrow> bool \<Rightarrow> nat \<Rightarrow> mstate \<Rightarrow> mstate list" where
  "mopt f greedy 0 st = [st]"
| "mopt f greedy (Suc n) st =
     (let more = concat (map (\<lambda>st'. if mrest st' = mrest st then [st'] else mopt f greedy n st') (f st))
      in if greedy then more @ [st] else st # more)"

definition at_word_boundary :: "mstate \<Rightarrow> bool" where
  "at_word_boundary st \<longleftrightarrow>
     (case mprev st of [] \<Rightarrow> False | x # _ \<Rightarrow> word_char x) \<noteq>
     (case mrest st of [] \<Rightarrow> False | x # _ \<Rightarrow> word_char x)"

definition capture :: "nat \<Rightarrow> mstate \<Rightarrow> mstate \<Rightarrow> mstate" where
  "capture k st st' =
     MS (mprev st') (mrest st')
        ((k, take (length (mrest st) - length (mrest st')) (mrest st)) # mcaps st')"

primrec mt :: "rx \<Rightarrow> mstate \<Rightarrow> mstate list" where
  "mt Eps st = [st]"
| "mt (Lit w) st = mlit w st"
| "mt (Set is) st = mone (cset is) st"
| "mt (NSet is) st = mone (\<lambda>x. \<not> cset is x) st"
| "mt Dot st = mone (\<lambda>x. x \<noteq> newline) st"
| "mt (Cat a b) st = concat (map (mt b) (mt a st))"
| "mt (Alt a b) st = mt a st @ mt b st"
| "mt (Rep greedy lo hi a) st =
     concat (map (\<lambda>st'. mopt (mt a) greedy
                          (case hi of None \<Rightarrow> Suc (length (mrest st')) | Some h \<Rightarrow> h - lo) st')
                 (mtimes (mt a) lo st))"
| "mt (Grp k a) st = map (capture k st) (mt a st)"
| "mt (Back k) st = (case map_of (mcaps st) k of None \<Rightarrow> [] | Some w \<Rightarrow> mlit w st)"
| "mt Bol st = (if mprev st = [] then [st] else [])"
| "mt Eol st = (if mrest st = [] \<or> mrest st = [newline] then [st] else [])"
| "mt WordB st = (if at_word_boundary st then [st] else [])"
| "mt (Look ahead a) st =
     (case mt a st of
        [] \<Rightarrow> if ahead then [] else [st]
      | st' # _ \<Rightarrow> if ahead then [MS (mprev st) (mrest st) (mcaps st')] else [])"

subsection \<open>Match objects, \<open>Match\<close>, \<open>Search\<close>, \<open>ReplaceAll\<close>\<close>

record pmatch =
  m_start :: nat
  m_text :: string
  m_caps :: "(nat \<times> string) list"

definition mk_match :: "mstate \<Rightarrow> mstate \<Rightarrow> pmatch" where
  "mk_match st st' =
     \<lparr>m_start = length (mprev st),
      m_text = take (length (mrest st) - length (mrest st')) (mrest st),
      m_caps = mcaps st'\<rparr>"

text \<open>\<open>grp m k\<close> is \<^verbatim>\<open>m.group(k)\<close>, with \<open>None\<close> for a group that took no part.\<close>

definition grp :: "pmatch \<Rightarrow> nat \<Rightarrow> string option" where
  "grp m k = (if k = 0 then Some (m_text m) else map_of (m_caps m) k)"

definition m_end :: "pmatch \<Rightarrow> nat" where
  "m_end m = m_start m + length (m_text m)"

definition match_at :: "rx \<Rightarrow> string \<Rightarrow> string \<Rightarrow> pmatch option" where
  "match_at r prev rest =
     (case mt r (MS prev rest []) of [] \<Rightarrow> None | st # _ \<Rightarrow> Some (mk_match (MS prev rest []) st))"

definition Match :: "rx \<Rightarrow> string \<Rightarrow> pmatch option" where
  "Match r s = match_at r [] s"

fun search_from :: "rx \<Rightarrow> string \<Rightarrow> string \<Rightarrow> pmatch option" where
  "search_from r prev [] = match_at r prev []"
| "search_from r prev (c # cs) =
     (case match_at r prev (c # cs) of Some m \<Rightarrow> Some m | None \<Rightarrow> search_from r (c # prev) cs)"

definition Search :: "rx \<Rightarrow> string \<Rightarrow> pmatch option" where
  "Search r s = search_from r [] s"

definition Matches :: "rx \<Rightarrow> string \<Rightarrow> bool" where
  "Matches r s \<longleftrightarrow> Match r s \<noteq> None"

definition Searches :: "rx \<Rightarrow> string \<Rightarrow> bool" where
  "Searches r s \<longleftrightarrow> Search r s \<noteq> None"

text \<open>
  \<^verbatim>\<open>pattern.sub(rep, s)\<close>.  \<open>after\<close> says that the previous replacement ended at this
  position, where Python 2.7 ignores an empty match.
\<close>

function sub_from :: "rx \<Rightarrow> (pmatch \<Rightarrow> string) \<Rightarrow> bool \<Rightarrow> string \<Rightarrow> string \<Rightarrow> string" where
  "sub_from r rep after prev rest =
     (case mt r (MS prev rest []) of
        st # _ \<Rightarrow>
          if length (mrest st) < length rest
          then rep (mk_match (MS prev rest []) st) @ sub_from r rep True (mprev st) (mrest st)
          else (if after then [] else rep (mk_match (MS prev rest []) st)) @
               (case rest of [] \<Rightarrow> [] | c # cs \<Rightarrow> c # sub_from r rep False (c # prev) cs)
      | [] \<Rightarrow> (case rest of [] \<Rightarrow> [] | c # cs \<Rightarrow> c # sub_from r rep False (c # prev) cs))"
  by pat_completeness auto
termination
  by (relation "measure (\<lambda>(r, rep, after, prev, rest). length rest)") auto

declare sub_from.simps [simp del]

definition sub_with :: "rx \<Rightarrow> (pmatch \<Rightarrow> string) \<Rightarrow> string \<Rightarrow> string" where
  "sub_with r rep s = sub_from r rep False [] s"

definition ReplaceAll :: "rx \<Rightarrow> string \<Rightarrow> string \<Rightarrow> string" where
  "ReplaceAll r rep s = sub_with r (\<lambda>_. rep) s"

subsection \<open>A match consumes a stretch of the text\<close>

text \<open>\<open>advances st st'\<close>: \<open>st'\<close> is \<open>st\<close> moved forward over some characters.\<close>

definition advances :: "mstate \<Rightarrow> mstate \<Rightarrow> bool" where
  "advances st st' \<longleftrightarrow> (\<exists>w. mrest st = w @ mrest st' \<and> mprev st' = rev w @ mprev st)"

definition advancing :: "(mstate \<Rightarrow> mstate list) \<Rightarrow> bool" where
  "advancing f \<longleftrightarrow> (\<forall>st. \<forall>st' \<in> set (f st). advances st st')"

lemma advances_refl [simp, intro]: "advances st st"
  by (auto simp: advances_def)

lemma advances_trans: "advances a b \<Longrightarrow> advances b c \<Longrightarrow> advances a c"
  by (fastforce simp: advances_def)

lemma advances_caps [simp]: "advances st (MS (mprev st) (mrest st) c)"
  by (auto simp: advances_def)

lemma advances_length: "advances st st' \<Longrightarrow> length (mrest st') \<le> length (mrest st)"
  by (auto simp: advances_def)

lemma advances_strict:
  "advances st st' \<Longrightarrow> mrest st' \<noteq> mrest st \<Longrightarrow> length (mrest st') < length (mrest st)"
  by (auto simp: advances_def)

lemma advances_text: "advances st st' \<Longrightarrow> rev (mprev st') @ mrest st' = rev (mprev st) @ mrest st"
  by (auto simp: advances_def)

lemma advancingI: "(\<And>st st'. st' \<in> set (f st) \<Longrightarrow> advances st st') \<Longrightarrow> advancing f"
  by (auto simp: advancing_def)

lemma advancingD: "advancing f \<Longrightarrow> st' \<in> set (f st) \<Longrightarrow> advances st st'"
  by (auto simp: advancing_def)

lemma mone_advances: "st' \<in> set (mone P st) \<Longrightarrow> advances st st'"
  by (cases "(P, st)" rule: mone.cases) (auto simp: advances_def split: if_splits)

lemma mlit_advances: "st' \<in> set (mlit w st) \<Longrightarrow> advances st st'"
proof (induction w st rule: mlit.induct)
  case (3 w ws p x xs c)
  then have "advances (MS (x # p) xs c) st'" by (auto split: if_splits)
  moreover have "advances (MS p (x # xs) c) (MS (x # p) xs c)" by (auto simp: advances_def)
  ultimately show ?case using advances_trans by blast
qed auto

lemma mtimes_advances: "advancing f \<Longrightarrow> st' \<in> set (mtimes f n st) \<Longrightarrow> advances st st'"
  by (induction n arbitrary: st) (auto dest: advancingD intro: advances_trans)

lemma mopt_advances: "advancing f \<Longrightarrow> st' \<in> set (mopt f g n st) \<Longrightarrow> advances st st'"
proof (induction n arbitrary: st)
  case (Suc n)
  from Suc.prems(2) consider "st' = st"
    | st1 where "st1 \<in> set (f st)" "st' = st1 \<or> st' \<in> set (mopt f g n st1)"
    by (auto simp: Let_def split: if_splits)
  then show ?case
  proof cases
    case 2
    with Suc show ?thesis by (metis advances_trans advancingD)
  qed simp
qed auto

lemma capture_advances: "advances st st' \<Longrightarrow> advances st (capture k st st')"
  by (auto simp: advances_def capture_def)

lemma advancing_mt: "advancing (mt r)"
proof (induction r)
  case (Cat a b)
  show ?case
  proof (rule advancingI)
    fix st st'
    assume "st' \<in> set (mt (Cat a b) st)"
    then obtain st1 where "st1 \<in> set (mt a st)" "st' \<in> set (mt b st1)" by auto
    with Cat show "advances st st'" by (meson advances_trans advancingD)
  qed
next
  case (Rep g lo hi a)
  show ?case
  proof (rule advancingI)
    fix st st'
    assume "st' \<in> set (mt (Rep g lo hi a) st)"
    then obtain st1 n where "st1 \<in> set (mtimes (mt a) lo st)" "st' \<in> set (mopt (mt a) g n st1)"
      by auto
    with Rep show "advances st st'" by (meson advances_trans mopt_advances mtimes_advances)
  qed
next
  case (Look b a)
  show ?case by (auto simp: advancing_def split: list.splits if_splits)
next
  case (Back k)
  show ?case by (auto simp: advancing_def mlit_advances split: option.splits)
qed (auto simp: advancing_def mone_advances mlit_advances capture_advances split: if_splits)

lemmas mt_advances = advancingD [OF advancing_mt]

text \<open>The text of a match is the stretch between its start and its end.\<close>

lemma mk_match_text:
  "advances st st' \<Longrightarrow> mrest st = m_text (mk_match st st') @ mrest st'"
  by (auto simp: advances_def mk_match_def)

lemma match_at_SomeE:
  assumes "match_at r prev rest = Some m"
  obtains st where "st \<in> set (mt r (MS prev rest []))" and "m = mk_match (MS prev rest []) st"
  using assms by (force simp: match_at_def split: list.splits)

lemma Match_SomeE:
  assumes "Match r s = Some m"
  obtains st where "st \<in> set (mt r (MS [] s []))" and "m = mk_match (MS [] s []) st"
  using assms by (auto simp: Match_def elim: match_at_SomeE)

lemma m_caps_mk_match [simp]: "m_caps (mk_match st st') = mcaps st'"
  by (simp add: mk_match_def)

lemma search_from_Some:
  "search_from r prev s = Some m \<Longrightarrow>
     \<exists>a b. s = a @ b \<and> match_at r (rev a @ prev) b = Some m"
proof (induction r prev s rule: search_from.induct)
  case (2 r prev c cs)
  show ?case
  proof (cases "match_at r prev (c # cs)")
    case None
    with 2 obtain a b where "cs = a @ b" "match_at r (rev a @ c # prev) b = Some m" by auto
    then show ?thesis by (intro exI [of _ "c # a"] exI [of _ b]) simp
  next
    case (Some m')
    with "2.prems" show ?thesis by (intro exI [of _ "[]"] exI [of _ "c # cs"]) simp
  qed
qed simp

lemma Search_SomeE:
  assumes "Search r s = Some m"
  obtains a b st where "s = a @ b" and "st \<in> set (mt r (MS (rev a) b []))"
    and "m = mk_match (MS (rev a) b []) st"
proof -
  from assms obtain a b where "s = a @ b" "match_at r (rev a) b = Some m"
    using search_from_Some [of r "[]" s m] by (auto simp: Search_def)
  then show thesis using that by (auto elim: match_at_SomeE)
qed

lemma match_at_prefix:
  assumes "match_at r prev rest = Some m"
  shows "m_start m = length prev" and "prefix (m_text m) rest"
proof -
  from assms obtain st where st: "st \<in> set (mt r (MS prev rest []))"
    and m: "m = mk_match (MS prev rest []) st"
    by (auto simp: match_at_def split: list.splits)
  from m show "m_start m = length prev" by (simp add: mk_match_def)
  from mk_match_text [OF mt_advances [OF st]] m have "rest = m_text m @ mrest st" by simp
  then show "prefix (m_text m) rest" by (rule prefixI)
qed

lemma Match_prefix: "Match r s = Some m \<Longrightarrow> m_start m = 0 \<and> prefix (m_text m) s"
  using match_at_prefix [of r "[]" s m] by (simp add: Match_def)

lemma search_from_text:
  "search_from r prev s = Some m \<Longrightarrow>
     length prev \<le> m_start m \<and> m_end m \<le> length prev + length s \<and>
     m_text m = take (length (m_text m)) (drop (m_start m - length prev) s)"
proof (induction r prev s rule: search_from.induct)
  case (1 r prev)
  then show ?case using match_at_prefix [of r prev "[]" m] by (simp add: m_end_def)
next
  case (2 r prev c cs)
  show ?case
  proof (cases "match_at r prev (c # cs)")
    case None
    with 2 have "length (c # prev) \<le> m_start m \<and> m_end m \<le> length (c # prev) + length cs \<and>
      m_text m = take (length (m_text m)) (drop (m_start m - length (c # prev)) cs)" by simp
    moreover from this have "drop (m_start m - length (c # prev)) cs = drop (m_start m - length prev) (c # cs)"
      by (simp add: Suc_diff_le [symmetric] drop_Cons' Suc_le_eq)
    ultimately show ?thesis by simp
  next
    case (Some m')
    with "2.prems" have m: "match_at r prev (c # cs) = Some m" by simp
    note p = match_at_prefix [OF m]
    from p(2) have "length (m_text m) \<le> length (c # cs)" by (rule prefix_length_le)
    moreover from p(2) have "m_text m = take (length (m_text m)) (c # cs)"
      by (metis append_eq_conv_conj prefixE)
    ultimately show ?thesis using p(1) by (simp add: m_end_def)
  qed
qed

lemma Search_text:
  "Search r s = Some m \<Longrightarrow>
     m_end m \<le> length s \<and> m_text m = take (length (m_text m)) (drop (m_start m) s)"
  using search_from_text [of r "[]" s m] by (simp add: Search_def)

subsection \<open>Taking a match apart\<close>

lemma mt_Cat_iff [simp]:
  "st' \<in> set (mt (Cat a b) st) \<longleftrightarrow> (\<exists>st1. st1 \<in> set (mt a st) \<and> st' \<in> set (mt b st1))"
  by auto

lemma mt_Alt_iff [simp]: "st' \<in> set (mt (Alt a b) st) \<longleftrightarrow> st' \<in> set (mt a st) \<or> st' \<in> set (mt b st)"
  by simp

lemma mlit_iff:
  "st' \<in> set (mlit w st) \<longleftrightarrow>
     mrest st = w @ mrest st' \<and> mprev st' = rev w @ mprev st \<and> mcaps st' = mcaps st"
proof (induction w st rule: mlit.induct)
  case (1 st)
  then show ?case by (cases st; cases st') auto
qed auto

lemma mt_Lit_iff:
  "st' \<in> set (mt (Lit w) st) \<longleftrightarrow>
     mrest st = w @ mrest st' \<and> mprev st' = rev w @ mprev st \<and> mcaps st' = mcaps st"
  by (simp add: mlit_iff)

lemma mone_iff:
  "st' \<in> set (mone P st) \<longleftrightarrow>
     (\<exists>x. P x \<and> mrest st = x # mrest st' \<and> mprev st' = x # mprev st \<and> mcaps st' = mcaps st)"
  by (cases "(P, st)" rule: mone.cases; cases st') auto

lemma mt_Grp_iff:
  "st' \<in> set (mt (Grp k a) st) \<longleftrightarrow>
     (\<exists>st1 w. st1 \<in> set (mt a st) \<and> mrest st = w @ mrest st1 \<and> mprev st1 = rev w @ mprev st \<and>
        st' = MS (mprev st1) (mrest st1) ((k, w) # mcaps st1))"
proof
  assume "st' \<in> set (mt (Grp k a) st)"
  then obtain st1 where s: "st1 \<in> set (mt a st)" "st' = capture k st st1" by auto
  from mt_advances [OF s(1)] obtain w where "mrest st = w @ mrest st1" "mprev st1 = rev w @ mprev st"
    by (auto simp: advances_def)
  with s show "\<exists>st1 w. st1 \<in> set (mt a st) \<and> mrest st = w @ mrest st1 \<and> mprev st1 = rev w @ mprev st \<and>
        st' = MS (mprev st1) (mrest st1) ((k, w) # mcaps st1)"
    by (intro exI [of _ st1] exI [of _ w]) (simp add: capture_def)
next
  assume "\<exists>st1 w. st1 \<in> set (mt a st) \<and> mrest st = w @ mrest st1 \<and> mprev st1 = rev w @ mprev st \<and>
        st' = MS (mprev st1) (mrest st1) ((k, w) # mcaps st1)"
  then obtain st1 w where s: "st1 \<in> set (mt a st)" and w: "mrest st = w @ mrest st1"
    and st': "st' = MS (mprev st1) (mrest st1) ((k, w) # mcaps st1)" by blast
  from w st' have "st' = capture k st st1" by (simp add: capture_def)
  with s show "st' \<in> set (mt (Grp k a) st)" by simp
qed

text \<open>A repetition may always stop at once.\<close>

lemma mopt_self: "st \<in> set (mopt f g n st)"
  by (cases n) (auto simp: Let_def)

lemma mt_star_self: "st \<in> set (mt (Rep g 0 hi r) st)"
  by (simp add: mopt_self)

text \<open>A pattern without groups leaves the captures alone.\<close>

primrec capfree :: "rx \<Rightarrow> bool" where
  "capfree Eps = True"
| "capfree (Lit w) = True"
| "capfree (Set is) = True"
| "capfree (NSet is) = True"
| "capfree Dot = True"
| "capfree (Cat a b) = (capfree a \<and> capfree b)"
| "capfree (Alt a b) = (capfree a \<and> capfree b)"
| "capfree (Rep g lo hi a) = capfree a"
| "capfree (Grp k a) = False"
| "capfree (Back k) = True"
| "capfree Bol = True"
| "capfree Eol = True"
| "capfree WordB = True"
| "capfree (Look b a) = capfree a"

lemma mtimes_pres:
  assumes "\<And>st st'. st' \<in> set (f st) \<Longrightarrow> g st' = g st"
  shows "st' \<in> set (mtimes f n st) \<Longrightarrow> g st' = g st"
  by (induction n arbitrary: st) (use assms in fastforce)+

lemma mopt_pres:
  assumes "\<And>st st'. st' \<in> set (f st) \<Longrightarrow> g st' = g st"
  shows "st' \<in> set (mopt f gr n st) \<Longrightarrow> g st' = g st"
proof (induction n arbitrary: st)
  case (Suc n)
  then consider "st' = st" | st1 where "st1 \<in> set (f st)" "st' = st1 \<or> st' \<in> set (mopt f gr n st1)"
    by (auto simp: Let_def split: if_splits)
  then show ?case
  proof cases
    case 2
    with assms [of st1 st] Suc.IH [of st1] show ?thesis by auto
  qed simp
qed simp

lemma capfree_caps: "capfree r \<Longrightarrow> st' \<in> set (mt r st) \<Longrightarrow> mcaps st' = mcaps st"
proof (induction r arbitrary: st st')
  case (Cat a b)
  then show ?case by (metis capfree.simps(6) mt_Cat_iff)
next
  case (Rep g lo hi a)
  then have a: "\<And>st st'. st' \<in> set (mt a st) \<Longrightarrow> mcaps st' = mcaps st" by simp
  from Rep.prems(2) obtain st1 n where "st1 \<in> set (mtimes (mt a) lo st)" "st' \<in> set (mopt (mt a) g n st1)"
    by auto
  with mtimes_pres [of "mt a" mcaps, OF a] mopt_pres [of "mt a" mcaps, OF a] show ?case by metis
next
  case (Look b a)
  then show ?case by (auto split: list.splits if_splits)
qed (auto simp: mone_iff mlit_iff split: if_splits option.splits)

subsection \<open>The layout of a match\<close>

text \<open>
  A pattern that is a sequence of pieces, each without groups or one group around a piece without
  groups, splits the matched text into one stretch per piece; the captures are the stretches of
  the grouped pieces.  \<open>consumes r w\<close> says that \<open>r\<close> can match \<open>w\<close> in some context.
\<close>

definition consumes :: "rx \<Rightarrow> string \<Rightarrow> bool" where
  "consumes r w \<longleftrightarrow> (\<exists>st st'. st' \<in> set (mt r st) \<and> mrest st = w @ mrest st')"

lemma consumesI: "st' \<in> set (mt r st) \<Longrightarrow> mrest st = w @ mrest st' \<Longrightarrow> consumes r w"
  by (auto simp: consumes_def)

fun flat :: "rx \<Rightarrow> bool" where
  "flat (Grp k a) = capfree a"
| "flat r = capfree r"

fun caps_of :: "rx list \<Rightarrow> string list \<Rightarrow> (nat \<times> string) list" where
  "caps_of (Grp k a # rs) (w # ws) = caps_of rs ws @ [(k, w)]"
| "caps_of (r # rs) (w # ws) = caps_of rs ws"
| "caps_of _ _ = []"

lemma mt_cats_Cons:
  "st' \<in> set (mt (cats (r # rs)) st) \<longleftrightarrow> (\<exists>st1. st1 \<in> set (mt r st) \<and> st' \<in> set (mt (cats rs) st1))"
  by (cases "rs = []") auto

lemma mt_cats_two:
  "st' \<in> set (mt (cats [a, b]) st) \<longleftrightarrow> (\<exists>st1. st1 \<in> set (mt a st) \<and> st' \<in> set (mt b st1))"
  by auto

lemma mt_piece:
  assumes "flat r" and "st' \<in> set (mt r st)"
  shows "\<exists>w. mrest st = w @ mrest st' \<and> consumes r w \<and>
     (\<forall>rs ws. caps_of (r # rs) (w # ws) @ mcaps st = caps_of rs ws @ mcaps st')"
proof -
  from mt_advances [OF assms(2)] obtain w where w: "mrest st = w @ mrest st'"
    by (auto simp: advances_def)
  with assms(2) have c: "consumes r w" by (auto simp: consumes_def)
  show ?thesis
  proof (cases "\<exists>k a. r = Grp k a")
    case True
    then obtain k a where r: "r = Grp k a" by blast
    from assms(2) r obtain st1 w1 where s: "st1 \<in> set (mt a st)" "mrest st = w1 @ mrest st1"
      "st' = MS (mprev st1) (mrest st1) ((k, w1) # mcaps st1)"
      by (auto simp: mt_Grp_iff simp del: mt.simps(9))
    from assms(1) r s(1) have "mcaps st1 = mcaps st" by (auto dest: capfree_caps)
    with s w r c show ?thesis by (intro exI [of _ w]) simp
  next
    case False
    then have "capfree r" using assms(1) by (cases r) auto
    then have "mcaps st' = mcaps st" using assms(2) by (rule capfree_caps)
    with w c False show ?thesis by (intro exI [of _ w]) (cases r; simp)
  qed
qed

lemma mt_layout:
  "list_all flat rs \<Longrightarrow> st' \<in> set (mt (cats rs) st) \<Longrightarrow>
   \<exists>ws. list_all2 consumes rs ws \<and> mrest st = concat ws @ mrest st' \<and>
        mcaps st' = caps_of rs ws @ mcaps st"
proof (induction rs arbitrary: st)
  case Nil
  then show ?case by (intro exI [of _ "[]"]) simp
next
  case (Cons r rs)
  from Cons.prems(2) obtain st1 where s: "st1 \<in> set (mt r st)" "st' \<in> set (mt (cats rs) st1)"
    unfolding mt_cats_Cons by blast
  from Cons.IH [OF _ s(2)] Cons.prems(1) obtain ws where ws: "list_all2 consumes rs ws"
    "mrest st1 = concat ws @ mrest st'" "mcaps st' = caps_of rs ws @ mcaps st1" by auto
  from mt_piece [OF _ s(1)] Cons.prems(1) obtain w where "mrest st = w @ mrest st1" "consumes r w"
    "\<forall>rs ws. caps_of (r # rs) (w # ws) @ mcaps st = caps_of rs ws @ mcaps st1" by auto
  with ws show ?case by (intro exI [of _ "w # ws"]) simp
qed

lemma Match_layout:
  assumes "Match (cats rs) s = Some m" and "list_all flat rs"
  shows "\<exists>ws t. list_all2 consumes rs ws \<and> s = concat ws @ t \<and> m_text m = concat ws \<and> m_caps m = caps_of rs ws"
proof -
  from assms(1) obtain st where st: "st \<in> set (mt (cats rs) (MS [] s []))"
    and m: "m = mk_match (MS [] s []) st" by (rule Match_SomeE)
  from mt_layout [OF assms(2) st] obtain ws where "list_all2 consumes rs ws" "s = concat ws @ mrest st"
    "mcaps st = caps_of rs ws" by auto
  moreover from this have "m_text m = concat ws" by (simp add: m mk_match_def)
  ultimately show ?thesis using m by auto
qed

lemma cats_snoc_Eol:
  "st' \<in> set (mt (cats (rs @ [Eol])) st) \<Longrightarrow> mrest st' = [] \<or> mrest st' = [newline]"
proof (induction rs arbitrary: st)
  case Nil
  then show ?case by (auto split: if_splits)
next
  case (Cons r rs)
  then show ?case using mt_cats_Cons [of st' r "rs @ [Eol]" st] by auto
qed

lemma caps_of_snoc_Eol: "list_all2 consumes rs ws \<Longrightarrow> caps_of (rs @ [Eol]) (ws @ [w]) = caps_of rs ws"
proof (induction rs ws rule: list_all2_induct)
  case (Cons r rs v ws)
  then show ?case by (cases r) simp_all
qed simp

lemma Match_layout_Eol:
  assumes "Match (cats (rs @ [Eol])) s = Some m" and "list_all flat rs"
  shows "\<exists>ws t. list_all2 consumes rs ws \<and> s = concat ws @ t \<and> m_caps m = caps_of rs ws \<and> (t = [] \<or> t = [newline])"
proof -
  from assms(1) obtain st where st: "st \<in> set (mt (cats (rs @ [Eol])) (MS [] s []))"
    and m: "m = mk_match (MS [] s []) st" by (rule Match_SomeE)
  have "list_all flat (rs @ [Eol])" using assms(2) by simp
  from mt_layout [OF this st] obtain ws' where
    ws': "list_all2 consumes (rs @ [Eol]) ws'" "s = concat ws' @ mrest st" "mcaps st = caps_of (rs @ [Eol]) ws'" by auto
  then obtain ws w where ws: "ws' = ws @ [w]" "list_all2 consumes rs ws" "consumes Eol w"
    by (auto simp: list_all2_append1 list_all2_Cons1)
  from ws(3) have "w = []" unfolding consumes_def by (auto split: if_splits)
  with ws' ws cats_snoc_Eol [OF st] m caps_of_snoc_Eol [OF ws(2), of w] show ?thesis
    by (intro exI [of _ ws] exI [of _ "mrest st"]) simp
qed

lemma consumes_simps [simp]:
  "consumes (Lit v) w \<longleftrightarrow> w = v"
  "consumes (Set is) w \<longleftrightarrow> (\<exists>x. w = [x] \<and> cset is x)"
  "consumes (NSet is) w \<longleftrightarrow> (\<exists>x. w = [x] \<and> \<not> cset is x)"
  "consumes Bol w \<longleftrightarrow> w = []"
  "consumes Eol w \<longleftrightarrow> w = []"
  "consumes WordB w \<longleftrightarrow> w = []"
  "consumes (Grp k a) w \<longleftrightarrow> consumes a w"
  "consumes (Alt a b) w \<longleftrightarrow> consumes a w \<or> consumes b w"
proof -
  show "consumes (Lit v) w \<longleftrightarrow> w = v"
    unfolding consumes_def mt_Lit_iff
  proof
    assume "w = v"
    then have "mrest (MS [] v []) = v @ mrest (MS (rev v) [] []) \<and>
        mprev (MS (rev v) [] []) = rev v @ mprev (MS [] v []) \<and>
        mcaps (MS (rev v) [] []) = mcaps (MS [] v [])" by simp
    with \<open>w = v\<close> show "\<exists>st st'. (mrest st = v @ mrest st' \<and> mprev st' = rev v @ mprev st \<and>
        mcaps st' = mcaps st) \<and> mrest st = w @ mrest st'" by blast
  qed auto
  have one: "(\<exists>st st'. st' \<in> set (mone P st) \<and> mrest st = w @ mrest st') \<longleftrightarrow> (\<exists>x. w = [x] \<and> P x)" for P
  proof
    assume "\<exists>x. w = [x] \<and> P x"
    then obtain x where x: "w = [x]" "P x" by blast
    then have "MS [x] [] [] \<in> set (mone P (MS [] [x] []))" by simp
    moreover from x have "mrest (MS [] [x] []) = w @ mrest (MS [x] [] [])" by simp
    ultimately show "\<exists>st st'. st' \<in> set (mone P st) \<and> mrest st = w @ mrest st'" by blast
  qed (auto simp: mone_iff)
  show "consumes (Set is) w \<longleftrightarrow> (\<exists>x. w = [x] \<and> cset is x)"
    and "consumes (NSet is) w \<longleftrightarrow> (\<exists>x. w = [x] \<and> \<not> cset is x)"
    by (simp_all add: consumes_def one)
  have empty: "(\<exists>st. C st \<and> mrest st = w @ mrest st) \<longleftrightarrow> w = []" if "C st0" for C and st0 :: mstate
    using that by auto
  show "consumes Bol w \<longleftrightarrow> w = []"
    using empty [of "\<lambda>st. mprev st = []" "MS [] [] []"] by (auto simp: consumes_def)
  show "consumes Eol w \<longleftrightarrow> w = []"
    using empty [of "\<lambda>st. mrest st = [] \<or> mrest st = [newline]" "MS [] [] []"] by (auto simp: consumes_def)
  show "consumes WordB w \<longleftrightarrow> w = []"
    using empty [of at_word_boundary "MS [] ''a'' []"]
    by (auto simp: consumes_def at_word_boundary_def word_char_def char_between_def ord_def)
  show "consumes (Grp k a) w \<longleftrightarrow> consumes a w"
    unfolding consumes_def
  proof
    assume "\<exists>st st'. st' \<in> set (mt a st) \<and> mrest st = w @ mrest st'"
    then obtain st st' where "st' \<in> set (mt a st)" "mrest st = w @ mrest st'" by blast
    then have "capture k st st' \<in> set (mt (Grp k a) st)" "mrest st = w @ mrest (capture k st st')"
      by (auto simp: capture_def)
    then show "\<exists>st st'. st' \<in> set (mt (Grp k a) st) \<and> mrest st = w @ mrest st'" by blast
  next
    assume "\<exists>st st'. st' \<in> set (mt (Grp k a) st) \<and> mrest st = w @ mrest st'"
    then obtain st st1 where "st1 \<in> set (mt a st)" "mrest st = w @ mrest st1"
      unfolding mt_Grp_iff by auto
    then show "\<exists>st st'. st' \<in> set (mt a st) \<and> mrest st = w @ mrest st'" by blast
  qed
  show "consumes (Alt a b) w \<longleftrightarrow> consumes a w \<or> consumes b w"
    unfolding consumes_def by auto
qed

subsection \<open>Literals a match cannot do without\<close>

text \<open>
  \<open>needs w r\<close>: every match of \<open>r\<close> consumes a stretch that contains \<open>w\<close>.  A line without
  \<open>w\<close> therefore has no match of \<open>r\<close> anywhere.
\<close>

primrec needs :: "string \<Rightarrow> rx \<Rightarrow> bool" where
  "needs w Eps = False"
| "needs w (Lit v) = sublist w v"
| "needs w (Set is) = False"
| "needs w (NSet is) = False"
| "needs w Dot = False"
| "needs w (Cat a b) = (needs w a \<or> needs w b)"
| "needs w (Alt a b) = (needs w a \<and> needs w b)"
| "needs w (Rep g lo hi a) = (0 < lo \<and> needs w a)"
| "needs w (Grp k a) = needs w a"
| "needs w (Back k) = False"
| "needs w Bol = False"
| "needs w Eol = False"
| "needs w WordB = False"
| "needs w (Look b a) = False"

lemma mt_needs:
  "needs w r \<Longrightarrow> st' \<in> set (mt r st) \<Longrightarrow> \<exists>u. mrest st = u @ mrest st' \<and> sublist w u"
proof (induction r arbitrary: st st')
  case (Cat a b)
  from Cat.prems obtain st1 where s: "st1 \<in> set (mt a st)" "st' \<in> set (mt b st1)" by auto
  from mt_advances [OF s(1)] mt_advances [OF s(2)] obtain u1 u2
    where u: "mrest st = u1 @ mrest st1" "mrest st1 = u2 @ mrest st'" by (auto simp: advances_def)
  from Cat.prems(1) Cat.IH s u have "sublist w u1 \<or> sublist w u2" by fastforce
  then have "sublist w (u1 @ u2)" by (auto simp: sublist_append)
  with u show ?case by (intro exI [of _ "u1 @ u2"]) simp
next
  case (Rep g lo hi a)
  then obtain k where lo: "lo = Suc k" by (cases lo) auto
  from Rep.prems(2) lo obtain st1 st2 n where s: "st1 \<in> set (mt a st)"
    "st2 \<in> set (mtimes (mt a) k st1)" "st' \<in> set (mopt (mt a) g n st2)" by auto
  from Rep s(1) obtain u where u: "mrest st = u @ mrest st1" "sublist w u" by fastforce
  have "advances st1 st'"
    using mtimes_advances [OF advancing_mt s(2)] mopt_advances [OF advancing_mt s(3)]
    by (rule advances_trans)
  then obtain v where "mrest st1 = v @ mrest st'" by (auto simp: advances_def)
  moreover from u(2) have "sublist w (u @ v)" by (auto simp: sublist_append)
  ultimately show ?case using u(1) by (intro exI [of _ "u @ v"]) simp
next
  case (Grp k a)
  then show ?case by (fastforce simp: mt_Grp_iff simp del: mt.simps(9))
qed (auto simp: mlit_iff)

lemma needs_no_match:
  assumes "needs w r" and "\<not> sublist w s"
  shows "mt r (MS p s c) = []"
proof (rule ccontr)
  assume "mt r (MS p s c) \<noteq> []"
  then obtain st where "st \<in> set (mt r (MS p s c))" by (meson list.set_sel(1))
  from mt_needs [OF assms(1) this] obtain u t where "s = u @ t" "sublist w u" by auto
  with assms(2) show False by (auto simp: sublist_append)
qed

lemma sublist_Cons_tail: "\<not> sublist w (c # cs) \<Longrightarrow> \<not> sublist w cs"
  by (simp add: sublist_Cons_right)

lemma needs_no_search: "needs w r \<Longrightarrow> \<not> sublist w s \<Longrightarrow> search_from r p s = None"
proof (induction s arbitrary: p)
  case Nil
  then show ?case by (simp add: match_at_def needs_no_match)
next
  case (Cons c cs)
  then show ?case by (simp add: match_at_def needs_no_match sublist_Cons_tail)
qed

lemma needs_no_Search: "needs w r \<Longrightarrow> \<not> sublist w s \<Longrightarrow> \<not> Searches r s"
  by (simp add: Searches_def Search_def needs_no_search)

lemma needs_no_Match: "needs w r \<Longrightarrow> \<not> sublist w s \<Longrightarrow> \<not> Matches r s"
  by (simp add: Matches_def Match_def match_at_def needs_no_match)

lemma needs_no_sub: "needs w r \<Longrightarrow> \<not> sublist w s \<Longrightarrow> sub_from r rep a p s = s"
proof (induction s arbitrary: a p)
  case Nil
  then show ?case by (simp add: sub_from.simps [of r rep a p "[]"] needs_no_match)
next
  case (Cons c cs)
  then show ?case by (simp add: sub_from.simps [of r rep a p "c # cs"] needs_no_match sublist_Cons_tail)
qed

subsection \<open>The bound on optional iterations is never reached\<close>

text \<open>
  An unbounded repetition is given one iteration more than there are characters left.  Every
  iteration but the last consumes at least one character, so a larger bound changes nothing: the
  bound models \<open>*\<close> and \<open>+\<close> exactly.
\<close>

lemma mopt_enough:
  assumes "advancing f"
  shows "length (mrest st) < n \<Longrightarrow> length (mrest st) < m \<Longrightarrow> mopt f g n st = mopt f g m st"
proof (induction n arbitrary: m st)
  case (Suc n)
  then obtain k where m: "m = Suc k" by (cases m) auto
  have "(if mrest st' = mrest st then [st'] else mopt f g n st') =
        (if mrest st' = mrest st then [st'] else mopt f g k st')" if "st' \<in> set (f st)" for st'
  proof (cases "mrest st' = mrest st")
    case False
    from advancingD [OF assms that] False have "length (mrest st') < length (mrest st)"
      by (rule advances_strict)
    with Suc.prems m have "length (mrest st') < n" "length (mrest st') < k" by auto
    then have "mopt f g n st' = mopt f g k st'" by (rule Suc.IH)
    with False show ?thesis by simp
  qed simp
  then have "map (\<lambda>st'. if mrest st' = mrest st then [st'] else mopt f g n st') (f st) =
             map (\<lambda>st'. if mrest st' = mrest st then [st'] else mopt f g k st') (f st)"
    by (rule map_cong [OF refl])
  then show ?case by (simp only: m mopt.simps)
qed simp

subsection \<open>Repetition of one character class\<close>

text \<open>
  \<open>span P p s c\<close>: all the ways to consume a run of \<open>P\<close> characters, the longest first.
\<close>

fun span :: "(char \<Rightarrow> bool) \<Rightarrow> string \<Rightarrow> string \<Rightarrow> (nat \<times> string) list \<Rightarrow> mstate list" where
  "span P p [] c = [MS p [] c]"
| "span P p (x # xs) c = (if P x then span P (x # p) xs c else []) @ [MS p (x # xs) c]"

lemma mopt_one_greedy: "length s < n \<Longrightarrow> mopt (mone P) True n (MS p s c) = span P p s c"
proof (induction s arbitrary: n p)
  case Nil
  then obtain k where "n = Suc k" by (cases n) auto
  then show ?case by simp
next
  case (Cons x xs)
  then obtain k where "n = Suc k" "length xs < k" by (cases n) auto
  with Cons.IH show ?case by simp
qed

lemma mt_one_fun [simp]:
  "mt (Set is) = mone (cset is)"
  "mt (NSet is) = mone (\<lambda>x. \<not> cset is x)"
  "mt Dot = mone (\<lambda>x. x \<noteq> newline)"
  by auto

lemma mt_star_one:
  assumes "mt r = mone P"
  shows "mt (star r) (MS p s c) = span P p s c"
  using mopt_one_greedy [of s "Suc (length s)" P p c] by (simp add: assms del: mopt.simps)

lemma span_first:
  "\<exists>more. span P p s c = MS (rev (takeWhile P s) @ p) (dropWhile P s) c # more"
proof (induction s arbitrary: p)
  case (Cons x xs)
  then obtain more where "span P (x # p) xs c =
      MS (rev (takeWhile P xs) @ x # p) (dropWhile P xs) c # more" by blast
  then show ?case by simp
qed simp

lemma span_set:
  "st \<in> set (span P p s c) \<longleftrightarrow>
     (\<exists>w. list_all P w \<and> s = w @ mrest st \<and> mprev st = rev w @ p \<and> mcaps st = c)"
proof (induction s arbitrary: p)
  case Nil
  then show ?case by (cases st) auto
next
  case (Cons x xs)
  have here: "st = MS p (x # xs) c \<longleftrightarrow> mrest st = x # xs \<and> mprev st = p \<and> mcaps st = c"
    by (cases st) auto
  have "(\<exists>w. list_all P w \<and> x # xs = w @ mrest st \<and> mprev st = rev w @ p \<and> mcaps st = c) \<longleftrightarrow>
        st = MS p (x # xs) c \<or>
        (P x \<and> (\<exists>w. list_all P w \<and> xs = w @ mrest st \<and> mprev st = rev w @ x # p \<and> mcaps st = c))"
    unfolding here by (auto simp: Cons_eq_append_conv)
  with Cons.IH show ?case by auto
qed

text \<open>\<open>Exists\<close>: some way to match; it is all that \<open>Matches\<close> asks.\<close>

lemma Matches_iff: "Matches r s \<longleftrightarrow> (\<exists>st. st \<in> set (mt r (MS [] s [])))"
  by (fastforce simp: Matches_def Match_def match_at_def split: list.splits)

lemma search_fromI: "st \<in> set (mt r (MS (rev a @ p) b [])) \<Longrightarrow> search_from r p (a @ b) \<noteq> None"
proof (induction a arbitrary: p)
  case Nil
  then have "match_at r p b \<noteq> None" by (auto simp: match_at_def split: list.splits)
  then show ?case by (cases b) (auto split: option.splits)
next
  case (Cons x a)
  then show ?case by (auto split: option.splits)
qed

lemma SearchesI: "st \<in> set (mt r (MS (rev a) b [])) \<Longrightarrow> Searches r (a @ b)"
  using search_fromI [of st r a "[]" b] by (simp add: Searches_def Search_def)

lemma cset_Sp [simp]: "cset [Sp] = ascii_space"
  by (auto simp: cset_def fun_eq_iff)

lemma cset_Wd [simp]: "cset [Wd] = word_char"
  by (auto simp: cset_def fun_eq_iff)

lemma cset_Ch [simp]: "cset [Ch s] c \<longleftrightarrow> c \<in> set s"
  by (simp add: cset_def)

lemma ascii_space_newline [simp]: "ascii_space newline"
  by (simp add: ascii_space_def)

lemma ascii_space_py_space: "ascii_space c \<Longrightarrow> py_space c"
  by (auto simp: ascii_space_def py_space_def)

lemma not_ascii_space_word: "word_char c \<Longrightarrow> \<not> ascii_space c"
  by (auto simp: ascii_space_def word_char_def char_between_def ord_def)

lemma consumes_star_one:
  assumes "mt r = mone P"
  shows "consumes (star r) w \<longleftrightarrow> list_all P w"
proof
  assume "consumes (star r) w"
  then obtain st st' where "st' \<in> set (mt (star r) st)" "mrest st = w @ mrest st'"
    unfolding consumes_def by blast
  then show "list_all P w"
    by (cases st) (auto simp: mt_star_one [OF assms] span_set simp del: mt.simps(8))
next
  assume "list_all P w"
  then have "MS (rev w) [] [] \<in> set (mt (star r) (MS [] w []))"
    by (simp add: mt_star_one [OF assms] span_set del: mt.simps(8))
  then show "consumes (star r) w" by (rule consumesI) simp
qed

lemma mt_starI:
  assumes "mt r = mone P" and "list_all P w"
  shows "MS (rev w @ p) t c \<in> set (mt (star r) (MS p (w @ t) c))"
  using assms(2) by (simp add: mt_star_one [OF assms(1)] span_set del: mt.simps(8))

lemma mt_plus1_iff:
  "st' \<in> set (mt (plus1 r) st) \<longleftrightarrow> (\<exists>st1. st1 \<in> set (mt r st) \<and> st' \<in> set (mt (star r) st1))"
  by auto

lemma consumes_plus_one:
  assumes "mt r = mone P"
  shows "consumes (plus1 r) w \<longleftrightarrow> w \<noteq> [] \<and> list_all P w"
proof
  assume "consumes (plus1 r) w"
  then obtain st st' st1 where s: "st1 \<in> set (mone P st)" "st' \<in> set (mt (star r) st1)" "mrest st = w @ mrest st'"
    unfolding consumes_def mt_plus1_iff assms by blast
  from mt_advances [OF s(2)] obtain u where u: "mrest st1 = u @ mrest st'" by (auto simp: advances_def)
  with consumesI [OF s(2)] consumes_star_one [OF assms] have "list_all P u" by blast
  moreover from s(1) obtain x where "mrest st = x # mrest st1" "P x" by (auto simp: mone_iff)
  ultimately show "w \<noteq> [] \<and> list_all P w" using u s(3) by auto
next
  assume w: "w \<noteq> [] \<and> list_all P w"
  then obtain x u where x: "w = x # u" "P x" "list_all P u" by (cases w) auto
  have "MS (rev u @ [x]) [] [] \<in> set (mt (star r) (MS [x] (u @ []) []))" by (rule mt_starI [OF assms x(3)])
  then have "MS (rev u @ [x]) [] [] \<in> set (mt (plus1 r) (MS [] w []))"
    unfolding mt_plus1_iff assms using x by (intro exI [of _ "MS [x] u []"]) simp
  then show "consumes (plus1 r) w" by (rule consumesI) simp
qed

lemma consumes_Cat: "consumes (Cat a b) w \<Longrightarrow> \<exists>u v. w = u @ v \<and> consumes a u \<and> consumes b v"
proof -
  assume "consumes (Cat a b) w"
  then obtain st st1 st' where s: "st1 \<in> set (mt a st)" "st' \<in> set (mt b st1)" "mrest st = w @ mrest st'"
    unfolding consumes_def mt_Cat_iff by blast
  from mt_advances [OF s(1)] mt_advances [OF s(2)] obtain u v where
    uv: "mrest st = u @ mrest st1" "mrest st1 = v @ mrest st'" by (auto simp: advances_def)
  with s have "consumes a u" "consumes b v" by (auto intro: consumesI)
  with uv s(3) show ?thesis by (intro exI [of _ u] exI [of _ v]) simp
qed

text \<open>Building a match piece by piece.\<close>

lemma mt_GrpI:
  assumes "MS (rev w @ p) t c' \<in> set (mt a (MS p (w @ t) c))"
  shows "MS (rev w @ p) t ((k, w) # c') \<in> set (mt (Grp k a) (MS p (w @ t) c))"
proof -
  have "capture k (MS p (w @ t) c) (MS (rev w @ p) t c') = MS (rev w @ p) t ((k, w) # c')"
    by (simp add: capture_def)
  with assms show ?thesis by force
qed

lemma mt_catsI:
  "st1 \<in> set (mt r st) \<Longrightarrow> st' \<in> set (mt (cats rs) st1) \<Longrightarrow> st' \<in> set (mt (cats (r # rs)) st)"
  unfolding mt_cats_Cons by blast

lemma mt_cats_nil: "st \<in> set (mt (cats []) st)"
  by simp

lemma MatchesI: "st \<in> set (mt r (MS [] s [])) \<Longrightarrow> Matches r s"
  by (auto simp: Matches_iff)

lemmas consumes_class_stars [simp] =
  consumes_star_one [OF mt_one_fun(1)] consumes_star_one [OF mt_one_fun(2)] consumes_star_one [OF mt_one_fun(3)]
  consumes_plus_one [OF mt_one_fun(1), unfolded One_nat_def] consumes_plus_one [OF mt_one_fun(2), unfolded One_nat_def]
  consumes_plus_one [OF mt_one_fun(3), unfolded One_nat_def]

subsection \<open>The match that is reported\<close>

text \<open>
  \<open>leads r st st'\<close>: \<open>st'\<close> is the first way in which \<open>r\<close> matches from \<open>st\<close>.  When the first
  choice of every piece of a sequence succeeds, these choices together are the reported match.
\<close>

definition leads :: "rx \<Rightarrow> mstate \<Rightarrow> mstate \<Rightarrow> bool" where
  "leads r st st' \<longleftrightarrow> (\<exists>more. mt r st = st' # more)"

lemma leads_cats_nil: "leads (cats []) st st"
  by (simp add: leads_def)

lemma leads_cats: "leads r st st1 \<Longrightarrow> leads (cats rs) st1 st' \<Longrightarrow> leads (cats (r # rs)) st st'"
  by (cases "rs = []") (auto simp: leads_def)

lemma leads_Grp:
  assumes "leads a (MS p (w @ t) c) (MS (rev w @ p) t c')"
  shows "leads (Grp k a) (MS p (w @ t) c) (MS (rev w @ p) t ((k, w) # c'))"
  using assms by (auto simp: leads_def capture_def)

lemma leads_star:
  assumes "mt r = mone P" and "list_all P w" and "t = [] \<or> \<not> P (hd t)"
  shows "leads (star r) (MS p (w @ t) c) (MS (rev w @ p) t c)"
proof -
  have "takeWhile P (w @ t) = w" "dropWhile P (w @ t) = t"
    using assms(2,3) by (cases t; auto simp: list_all_iff takeWhile_eq_all_conv dropWhile_append)+
  with span_first [of P p "w @ t" c] show ?thesis
    by (simp add: leads_def mt_star_one [OF assms(1)] del: mt.simps(8))
qed

lemma leads_simps [simp]:
  "leads Bol st st' \<longleftrightarrow> mprev st = [] \<and> st' = st"
  "leads Eol st st' \<longleftrightarrow> (mrest st = [] \<or> mrest st = [newline]) \<and> st' = st"
  "leads (Set is) (MS p (x # xs) c) st' \<longleftrightarrow> cset is x \<and> st' = MS (x # p) xs c"
  "leads (NSet is) (MS p (x # xs) c) st' \<longleftrightarrow> \<not> cset is x \<and> st' = MS (x # p) xs c"
  by (auto simp: leads_def)

lemma mlit_append: "mlit w (MS p (w @ t) c) = [MS (rev w @ p) t c]"
  by (induction w arbitrary: p) auto

lemma leads_Lit: "leads (Lit w) (MS p (w @ t) c) (MS (rev w @ p) t c)"
  by (simp add: leads_def mlit_append)

lemma Match_leads:
  "leads r (MS [] s []) st \<Longrightarrow> Match r s = Some (mk_match (MS [] s []) st)"
  by (auto simp: leads_def Match_def match_at_def)

subsection \<open>The patterns \<open>^\s*$\<close> and \<open>^( *)\S\<close>\<close>

definition rx_blank :: rx where
  "rx_blank = cats [Bol, sp0, Eol]"

text \<open>A line matches \<open>^\s*$\<close> exactly when all its characters are white space.\<close>

lemma Matches_blank: "Matches rx_blank s \<longleftrightarrow> list_all ascii_space s"
proof -
  have "Matches rx_blank s \<longleftrightarrow> (\<exists>st \<in> set (span ascii_space [] s []). mrest st = [] \<or> mrest st = [newline])"
    unfolding Matches_iff rx_blank_def
    by (auto simp: mt_star_one [OF mt_one_fun(1)] simp del: mt.simps(8) split: if_splits)
  also have "\<dots> \<longleftrightarrow> (\<exists>w t. list_all ascii_space w \<and> s = w @ t \<and> (t = [] \<or> t = [newline]))"
    unfolding Bex_def span_set by (metis append_Nil2 mstate.sel)
  also have "\<dots> \<longleftrightarrow> list_all ascii_space s"
  proof
    assume "list_all ascii_space s"
    then show "\<exists>w t. list_all ascii_space w \<and> s = w @ t \<and> (t = [] \<or> t = [newline])"
      by (intro exI [of _ s] exI [of _ "[]"]) simp
  qed auto
  finally show ?thesis .
qed

subsection \<open>Captures are pieces of the text\<close>

text \<open>
  \<open>caps_hold Q st\<close>: the rest of the text and all captures satisfy \<open>Q\<close>.  When all pieces of a text with
  \<open>Q\<close> have it too, matching keeps this.
\<close>

definition piecewise :: "(string \<Rightarrow> bool) \<Rightarrow> bool" where
  "piecewise Q \<longleftrightarrow> (\<forall>u v w. Q (u @ v @ w) \<longrightarrow> Q v)"

definition caps_hold :: "(string \<Rightarrow> bool) \<Rightarrow> mstate \<Rightarrow> bool" where
  "caps_hold Q st \<longleftrightarrow> Q (mrest st) \<and> (\<forall>(k, w) \<in> set (mcaps st). Q w)"

definition keeps_caps :: "(string \<Rightarrow> bool) \<Rightarrow> (mstate \<Rightarrow> mstate list) \<Rightarrow> bool" where
  "keeps_caps Q f \<longleftrightarrow> (\<forall>st st'. caps_hold Q st \<longrightarrow> st' \<in> set (f st) \<longrightarrow> caps_hold Q st')"

lemma keeps_capsD: "keeps_caps Q f \<Longrightarrow> caps_hold Q st \<Longrightarrow> st' \<in> set (f st) \<Longrightarrow> caps_hold Q st'"
  unfolding keeps_caps_def by blast

lemma piecewiseD: "piecewise Q \<Longrightarrow> Q (u @ v @ w) \<Longrightarrow> Q v"
  unfolding piecewise_def by blast

lemma piecewise_take: "piecewise Q \<Longrightarrow> Q w \<Longrightarrow> Q (take n w)"
  using piecewiseD [of Q "[]" "take n w" "drop n w"] by simp

lemma mtimes_caps: "keeps_caps Q f \<Longrightarrow> caps_hold Q st \<Longrightarrow> st' \<in> set (mtimes f k st) \<Longrightarrow> caps_hold Q st'"
  by (induction k arbitrary: st) (auto dest: keeps_capsD)

lemma mopt_caps: "keeps_caps Q f \<Longrightarrow> caps_hold Q st \<Longrightarrow> st' \<in> set (mopt f g k st) \<Longrightarrow> caps_hold Q st'"
proof (induction k arbitrary: st)
  case (Suc k)
  then show ?case by (auto simp: Let_def dest: keeps_capsD split: if_splits)
qed simp

lemma caps_hold_advance:
  assumes "piecewise Q" "caps_hold Q st" "advances st st'" "mcaps st' = mcaps st"
  shows "caps_hold Q st'"
proof -
  from assms(3) obtain w where "mrest st = w @ mrest st' @ []" by (auto simp: advances_def)
  with assms(2) have "Q (w @ mrest st' @ [])" by (simp add: caps_hold_def)
  then have "Q (mrest st')" by (rule piecewiseD [OF assms(1)])
  with assms(2,4) show ?thesis by (simp add: caps_hold_def)
qed

lemma keeps_caps_plain:
  "piecewise Q \<Longrightarrow> (\<And>st st'. st' \<in> set (f st) \<Longrightarrow> advances st st' \<and> mcaps st' = mcaps st) \<Longrightarrow> keeps_caps Q f"
  unfolding keeps_caps_def by (blast intro: caps_hold_advance)

lemma keeps_caps_capfree: "piecewise Q \<Longrightarrow> capfree r \<Longrightarrow> keeps_caps Q (mt r)"
  by (intro keeps_caps_plain conjI mt_advances capfree_caps)

lemma capture_caps: "piecewise Q \<Longrightarrow> caps_hold Q st \<Longrightarrow> caps_hold Q st' \<Longrightarrow> caps_hold Q (capture k st st')"
  by (auto simp: caps_hold_def capture_def piecewise_take)

lemma keeps_caps_mt:
  assumes Q: "piecewise Q"
  shows "keeps_caps Q (mt r)"
proof (induction r)
  case (Rep greedy lo hi r)
  show ?case
    unfolding keeps_caps_def
  proof (intro allI impI)
    fix st st'
    assume s: "caps_hold Q st" and m: "st' \<in> set (mt (Rep greedy lo hi r) st)"
    from m obtain st1 k where "st1 \<in> set (mtimes (mt r) lo st)" "st' \<in> set (mopt (mt r) greedy k st1)" by auto
    with mtimes_caps [OF Rep s] mopt_caps [OF Rep] show "caps_hold Q st'" by blast
  qed
next
  case (Grp k r)
  show ?case
    unfolding keeps_caps_def
  proof (intro allI impI)
    fix st st'
    assume s: "caps_hold Q st" and m: "st' \<in> set (mt (Grp k r) st)"
    from m obtain st1 where "st1 \<in> set (mt r st)" "st' = capture k st st1" by auto
    with keeps_capsD [OF Grp s] s Q show "caps_hold Q st'" by (simp add: capture_caps)
  qed
next
  case (Cat a b)
  show ?case
    unfolding keeps_caps_def mt_Cat_iff using keeps_capsD [OF Cat(1)] keeps_capsD [OF Cat(2)] by blast
next
  case (Alt a b)
  show ?case
    unfolding keeps_caps_def mt_Alt_iff using keeps_capsD [OF Alt(1)] keeps_capsD [OF Alt(2)] by blast
next
  case (Look ahead r)
  show ?case
    unfolding keeps_caps_def
  proof (intro allI impI)
    fix st st'
    assume s: "caps_hold Q st" and m: "st' \<in> set (mt (Look ahead r) st)"
    show "caps_hold Q st'"
    proof (cases "mt r st")
      case Nil
      with m s show ?thesis by (simp split: if_splits)
    next
      case (Cons st1 more)
      then have "caps_hold Q st1" using keeps_capsD [OF Look s] by simp
      with m s Cons show ?thesis by (auto simp: caps_hold_def split: if_splits)
    qed
  qed
next
  case (Back k)
  show ?case by (rule keeps_caps_plain [OF Q]) (auto simp: mlit_advances mlit_iff split: option.splits)
qed (rule keeps_caps_capfree [OF Q], simp)+

lemma grp_holds:
  "piecewise Q \<Longrightarrow> st' \<in> set (mt r st) \<Longrightarrow> caps_hold Q st \<Longrightarrow> map_of (mcaps st') k = Some w \<Longrightarrow> Q w"
  using keeps_capsD [OF keeps_caps_mt, of Q st st' r] by (auto simp: caps_hold_def dest!: map_of_SomeD)

text \<open>Captures are no longer than the text, and hold no character that the text does not hold.\<close>

definition short_caps :: "nat \<Rightarrow> mstate \<Rightarrow> bool" where
  "short_caps n = caps_hold (\<lambda>w. length w \<le> n)"

lemma grp_short: "st' \<in> set (mt r st) \<Longrightarrow> short_caps n st \<Longrightarrow> map_of (mcaps st') k = Some w \<Longrightarrow> length w \<le> n"
  unfolding short_caps_def by (rule grp_holds) (auto simp: piecewise_def)

lemma Match_grp_chars: "Match r s = Some m \<Longrightarrow> set s \<subseteq> A \<Longrightarrow> grp m k = Some w \<Longrightarrow> set w \<subseteq> A"
proof -
  assume m: "Match r s = Some m" and s: "set s \<subseteq> A" and w: "grp m k = Some w"
  show "set w \<subseteq> A"
  proof (cases "k = 0")
    case True
    with Match_prefix [OF m] w s show ?thesis by (auto simp: grp_def dest: set_mono_prefix)
  next
    case False
    from m obtain st where st: "st \<in> set (mt r (MS [] s []))" "m = mk_match (MS [] s []) st" by (rule Match_SomeE)
    have "map_of (mcaps st) k = Some w" using w False st(2) by (simp add: grp_def)
    with st(1) show ?thesis
      by (rule_tac grp_holds [where Q = "\<lambda>w. set w \<subseteq> A"]) (use s in \<open>auto simp: piecewise_def caps_hold_def\<close>)
  qed
qed

lemma sub_from_chars: "set (sub_from r (\<lambda>_. w) a p s) \<subseteq> set s \<union> set w"
proof (induction "length s" arbitrary: a p s rule: less_induct)
  case less
  have tail: "set (case s of [] \<Rightarrow> [] | c # cs \<Rightarrow> c # sub_from r (\<lambda>_. w) False (c # p) cs) \<subseteq> set s \<union> set w"
    using less by (cases s) fastforce+
  show ?case
  proof (cases "mt r (MS p s [])")
    case Nil
    with tail show ?thesis by (subst sub_from.simps) simp
  next
    case (Cons st more)
    then have "advances (MS p s []) st" using mt_advances [of st r "MS p s []"] by simp
    then have "set (mrest st) \<subseteq> set s" by (auto simp: advances_def)
    moreover have "length (mrest st) < length s \<Longrightarrow> set (sub_from r (\<lambda>_. w) True (mprev st) (mrest st)) \<subseteq> set (mrest st) \<union> set w"
      by (rule less)
    ultimately show ?thesis using tail Cons by (subst sub_from.simps) auto
  qed
qed

lemma ReplaceAll_chars: "set (ReplaceAll r w s) \<subseteq> set s \<union> set w"
  by (simp add: ReplaceAll_def sub_with_def sub_from_chars)

subsection \<open>Replacing single characters\<close>

lemma sub_from_one:
  assumes "mt r = mone P"
  shows "sub_from r (\<lambda>_. w) a p s = concat (map (\<lambda>c. if P c then w else [c]) s)"
proof (induction s arbitrary: a p)
  case Nil
  show ?case by (subst sub_from.simps) (simp add: assms)
next
  case (Cons c cs)
  then show ?case by (subst sub_from.simps) (simp add: assms)
qed

lemma ReplaceAll_one:
  "mt r = mone P \<Longrightarrow> ReplaceAll r [d] s = map (\<lambda>c. if P c then d else c) s"
  by (simp add: ReplaceAll_def sub_with_def sub_from_one) (induction s, simp_all)

subsection \<open>All matches\<close>

text \<open>\<^verbatim>\<open>pattern.finditer(s)\<close>: the matches from left to right, none overlapping the one before.\<close>

lemma prefix_shorter: "prefix w s \<Longrightarrow> w \<noteq> [] \<Longrightarrow> length s - length w < length s"
  by (cases s) (auto intro!: diff_less)

function finditer :: "rx \<Rightarrow> string \<Rightarrow> string \<Rightarrow> pmatch list" where
  "finditer r prev rest =
     (case match_at r prev rest of
        Some m \<Rightarrow>
          if m_text m \<noteq> []
          then m # finditer r (rev (take (length (m_text m)) rest) @ prev) (drop (length (m_text m)) rest)
          else (case rest of [] \<Rightarrow> [m] | c # cs \<Rightarrow> m # finditer r (c # prev) cs)
      | None \<Rightarrow> (case rest of [] \<Rightarrow> [] | c # cs \<Rightarrow> finditer r (c # prev) cs))"
  by pat_completeness auto
termination
  by (relation "measure (\<lambda>(r, prev, rest). length rest)") (auto dest!: match_at_prefix(2) intro: prefix_shorter)

declare finditer.simps [simp del]

lemma finditer_matches: "m \<in> set (finditer r prev rest) \<Longrightarrow> \<exists>p t. match_at r p t = Some m"
proof (induction r prev rest rule: finditer.induct)
  case (1 r prev rest)
  then show ?case
    by (subst (asm) finditer.simps) (auto split: option.splits if_splits list.splits)
qed

text \<open>\<^verbatim>\<open>re.split(pattern, s)\<close>, for a pattern without groups that matches no empty text.\<close>

primrec between :: "string \<Rightarrow> nat \<Rightarrow> pmatch list \<Rightarrow> string list" where
  "between s k [] = [drop k s]"
| "between s k (m # ms) = take (m_start m - k) (drop k s) # between s (m_end m) ms"

definition re_split :: "rx \<Rightarrow> string \<Rightarrow> string list" where
  "re_split r s = between s 0 (finditer r [] s)"

subsection \<open>Captures do not matter to a pattern without groups\<close>

definition recap :: "(nat \<times> string) list \<Rightarrow> mstate \<Rightarrow> mstate" where
  "recap c st = MS (mprev st) (mrest st) c"

lemma recap_simps [simp]: "mprev (recap c st) = mprev st" "mrest (recap c st) = mrest st" "mcaps (recap c st) = c"
  by (simp_all add: recap_def)

lemma recap_recap [simp]: "recap c (recap d st) = recap c st"
  by (simp add: recap_def)

primrec backless :: "rx \<Rightarrow> bool" where
  "backless Eps = True"
| "backless (Lit w) = True"
| "backless (Set is) = True"
| "backless (NSet is) = True"
| "backless Dot = True"
| "backless (Cat a b) = (backless a \<and> backless b)"
| "backless (Alt a b) = (backless a \<and> backless b)"
| "backless (Rep g lo hi a) = backless a"
| "backless (Grp k a) = backless a"
| "backless (Back k) = False"
| "backless Bol = True"
| "backless Eol = True"
| "backless WordB = True"
| "backless (Look b a) = backless a"

lemma mlit_recap: "mlit w (recap c st) = map (recap c) (mlit w st)"
  by (induction w st rule: mlit.induct) (simp_all add: recap_def)

lemma mone_recap: "mone P (recap c st) = map (recap c) (mone P st)"
  by (cases "(P, st)" rule: mone.cases) (simp_all add: recap_def)

lemma mtimes_recap:
  "(\<And>st. f (recap c st) = map (recap c) (f st)) \<Longrightarrow> mtimes f n (recap c st) = map (recap c) (mtimes f n st)"
  by (induction n arbitrary: st) (simp_all add: map_concat o_def)

lemma mopt_recap:
  assumes "\<And>st. f (recap c st) = map (recap c) (f st)"
  shows "mopt f g n (recap c st) = map (recap c) (mopt f g n st)"
proof (induction n arbitrary: st)
  case (Suc n)
  have "(\<lambda>st'. if mrest (recap c st') = mrest st then [recap c st'] else mopt f g n (recap c st')) =
      (\<lambda>st'. map (recap c) (if mrest st' = mrest st then [st'] else mopt f g n st'))"
    using Suc by auto
  then show ?case by (simp add: Let_def assms map_concat o_def)
qed simp

lemma mt_recap: "capfree r \<Longrightarrow> backless r \<Longrightarrow> mt r (recap c st) = map (recap c) (mt r st)"
proof (induction r arbitrary: st)
  case (Rep g lo hi a)
  then have a: "\<And>st. mt a (recap c st) = map (recap c) (mt a st)" by simp
  show ?case by (cases hi) (simp_all add: mtimes_recap [where f = "mt a", OF a] mopt_recap [where f = "mt a", OF a] map_concat o_def del: mopt.simps)
next
  case (Look b a)
  then have a: "mt a (recap c st) = map (recap c) (mt a st)" by simp
  show ?case
  proof (cases "mt a st")
    case Nil
    then show ?thesis by (simp add: a)
  next
    case (Cons st1 more)
    then show ?thesis by (simp add: a) (simp add: recap_def)
  qed
qed (simp_all add: mlit_recap mone_recap map_concat o_def at_word_boundary_def)

lemma mt_recapI:
  "st' \<in> set (mt r st) \<Longrightarrow> capfree r \<Longrightarrow> backless r \<Longrightarrow> recap c st' \<in> set (mt r (recap c st))"
  by (simp add: mt_recap)

lemma mt_cats_last: "rs \<noteq> [] \<Longrightarrow> st' \<in> set (mt (cats (rs @ [r])) st) \<Longrightarrow> \<exists>st1. advances st st1 \<and> st' \<in> set (mt r st1)"
proof (induction rs arbitrary: st)
  case (Cons q rs)
  then obtain st1 where s: "st1 \<in> set (mt q st)" "st' \<in> set (mt (cats (rs @ [r])) st1)"
    unfolding append_Cons mt_cats_Cons by blast
  show ?case
  proof (cases "rs = []")
    case True
    with s mt_advances show ?thesis by fastforce
  next
    case False
    from Cons.IH [OF this s(2)] mt_advances [OF s(1)] show ?thesis by (blast intro: advances_trans)
  qed
qed simp

text \<open>A pattern that ends in a literal character is found in front of this character.\<close>

lemma Search_last_char:
  assumes "Search (cats (rs @ [Lit [c]])) s = Some m" and "rs \<noteq> []"
  shows "0 < m_end m \<and> m_end m \<le> length s \<and> s ! (m_end m - 1) = c"
proof -
  from assms(1) obtain a b st where s: "s = a @ b" "st \<in> set (mt (cats (rs @ [Lit [c]])) (MS (rev a) b []))"
    and m: "m = mk_match (MS (rev a) b []) st" by (rule Search_SomeE)
  from mt_cats_last [OF assms(2) s(2)] obtain st1 where
    st1: "advances (MS (rev a) b []) st1" "st \<in> set (mt (Lit [c]) st1)" by blast
  from st1(1) obtain w where "b = w @ mrest st1" by (auto simp: advances_def)
  moreover from st1(2) have "mrest st1 = [c] @ mrest st" by (simp add: mt_Lit_iff del: mt.simps)
  ultimately have b: "b = w @ c # mrest st" by simp
  then have "m_end m = length a + length w + 1" by (simp add: m m_end_def mk_match_def)
  with s(1) b show ?thesis by (simp add: nth_append)
qed

lemma mt_opt_iff: "st' \<in> set (mt (opt r) st) \<longleftrightarrow> st' = st \<or> st' \<in> set (mt r st)"
  by auto

end
