(* ===== verification/Lint_Tables.thy ===== *)
theory Lint_Tables
  imports Py_Regex
begin

section \<open>The constant tables of cpplint\<close>

text \<open>
  The module-level constants of \<^verbatim>\<open>src/cpplint.py\<close>: the error categories, the default
  filters and suppressions, the C++ header names, the replacements that the \<open>CHECK\<close> and
  alternative-token checks propose, and the type-name pattern.  The \<open>CHECK\<close> table is filled by
  two loops over operator pairs, and so it is here.
\<close>

subsection \<open>Error categories and filters\<close>

definition ERROR_CATEGORIES :: "string list" where
  "ERROR_CATEGORIES = [
    ''build/class'', ''build/c++11'', ''build/c++14'', ''build/c++tr1'', ''build/deprecated'',
    ''build/endif_comment'', ''build/explicit_make_pair'', ''build/forward_decl'',
    ''build/header_guard'', ''build/include'', ''build/include_alpha'', ''build/include_order'',
    ''build/include_what_you_use'', ''build/namespaces'', ''build/printf_format'',
    ''build/storage_class'', ''legal/copyright'', ''readability/alt_tokens'',
    ''readability/braces'', ''readability/casting'', ''readability/check'',
    ''readability/constructors'', ''readability/fn_size'', ''readability/inheritance'',
    ''readability/multiline_comment'', ''readability/multiline_string'',
    ''readability/namespace'', ''readability/nolint'', ''readability/nul'',
    ''readability/strings'', ''readability/todo'', ''readability/utf8'', ''runtime/arrays'',
    ''runtime/casting'', ''runtime/explicit'', ''runtime/int'', ''runtime/init'',
    ''runtime/invalid_increment'', ''runtime/member_string_references'', ''runtime/memset'',
    ''runtime/indentation_namespace'', ''runtime/operator'', ''runtime/printf'',
    ''runtime/printf_format'', ''runtime/references'', ''runtime/string'',
    ''runtime/threadsafe_fn'', ''runtime/vlog'', ''whitespace/blank_line'',
    ''whitespace/braces'', ''whitespace/comma'', ''whitespace/comments'',
    ''whitespace/empty_conditional_body'', ''whitespace/empty_if_body'',
    ''whitespace/empty_loop_body'', ''whitespace/end_of_line'', ''whitespace/ending_newline'',
    ''whitespace/forcolon'', ''whitespace/indent'', ''whitespace/line_length'',
    ''whitespace/newline'', ''whitespace/operators'', ''whitespace/parens'',
    ''whitespace/semicolon'', ''whitespace/tab'', ''whitespace/todo'']"

definition LEGACY_ERROR_CATEGORIES :: "string list" where
  "LEGACY_ERROR_CATEGORIES = [
    ''readability/streams'', ''readability/function'']"

definition known_category :: "string \<Rightarrow> bool" where
  "known_category c \<longleftrightarrow> c \<in> set ERROR_CATEGORIES"

lemma known_categories [simp]:
  "known_category ''build/class''"
  "known_category ''build/c++11''"
  "known_category ''build/c++14''"
  "known_category ''build/c++tr1''"
  "known_category ''build/deprecated''"
  "known_category ''build/endif_comment''"
  "known_category ''build/explicit_make_pair''"
  "known_category ''build/forward_decl''"
  "known_category ''build/header_guard''"
  "known_category ''build/include''"
  "known_category ''build/include_alpha''"
  "known_category ''build/include_order''"
  "known_category ''build/include_what_you_use''"
  "known_category ''build/namespaces''"
  "known_category ''build/printf_format''"
  "known_category ''build/storage_class''"
  "known_category ''legal/copyright''"
  "known_category ''readability/alt_tokens''"
  "known_category ''readability/braces''"
  "known_category ''readability/casting''"
  "known_category ''readability/check''"
  "known_category ''readability/constructors''"
  "known_category ''readability/fn_size''"
  "known_category ''readability/inheritance''"
  "known_category ''readability/multiline_comment''"
  "known_category ''readability/multiline_string''"
  "known_category ''readability/namespace''"
  "known_category ''readability/nolint''"
  "known_category ''readability/nul''"
  "known_category ''readability/strings''"
  "known_category ''readability/todo''"
  "known_category ''readability/utf8''"
  "known_category ''runtime/arrays''"
  "known_category ''runtime/casting''"
  "known_category ''runtime/explicit''"
  "known_category ''runtime/int''"
  "known_category ''runtime/init''"
  "known_category ''runtime/invalid_increment''"
  "known_category ''runtime/member_string_references''"
  "known_category ''runtime/memset''"
  "known_category ''runtime/indentation_namespace''"
  "known_category ''runtime/operator''"
  "known_category ''runtime/printf''"
  "known_category ''runtime/printf_format''"
  "known_category ''runtime/references''"
  "known_category ''runtime/string''"
  "known_category ''runtime/threadsafe_fn''"
  "known_category ''runtime/vlog''"
  "known_category ''whitespace/blank_line''"
  "known_category ''whitespace/braces''"
  "known_category ''whitespace/comma''"
  "known_category ''whitespace/comments''"
  "known_category ''whitespace/empty_conditional_body''"
  "known_category ''whitespace/empty_if_body''"
  "known_category ''whitespace/empty_loop_body''"
  "known_category ''whitespace/end_of_line''"
  "known_category ''whitespace/ending_newline''"
  "known_category ''whitespace/forcolon''"
  "known_category ''whitespace/indent''"
  "known_category ''whitespace/line_length''"
  "known_category ''whitespace/newline''"
  "known_category ''whitespace/operators''"
  "known_category ''whitespace/parens''"
  "known_category ''whitespace/semicolon''"
  "known_category ''whitespace/tab''"
  "known_category ''whitespace/todo''"
  by (simp_all add: known_category_def ERROR_CATEGORIES_def)

definition DEFAULT_FILTERS :: "string list" where
  "DEFAULT_FILTERS = [''-build/include_alpha'']"

definition DEFAULT_C_SUPPRESSED_CATEGORIES :: "string list" where
  "DEFAULT_C_SUPPRESSED_CATEGORIES = [''readability/casting'']"

definition DEFAULT_KERNEL_SUPPRESSED_CATEGORIES :: "string list" where
  "DEFAULT_KERNEL_SUPPRESSED_CATEGORIES = [''whitespace/tab'']"

subsection \<open>C++ header names, type names, third-party headers\<close>

definition CPP_HEADERS :: "string list" where
  "CPP_HEADERS = [
    ''algobase.h'', ''algo.h'', ''alloc.h'', ''builtinbuf.h'', ''bvector.h'', ''complex.h'',
    ''defalloc.h'', ''deque.h'', ''editbuf.h'', ''fstream.h'', ''function.h'', ''hash_map'',
    ''hash_map.h'', ''hash_set'', ''hash_set.h'', ''hashtable.h'', ''heap.h'', ''indstream.h'',
    ''iomanip.h'', ''iostream.h'', ''istream.h'', ''iterator.h'', ''list.h'', ''map.h'',
    ''multimap.h'', ''multiset.h'', ''ostream.h'', ''pair.h'', ''parsestream.h'',
    ''pfstream.h'', ''procbuf.h'', ''pthread_alloc'', ''pthread_alloc.h'', ''rope'', ''rope.h'',
    ''ropeimpl.h'', ''set.h'', ''slist'', ''slist.h'', ''stack.h'', ''stdiostream.h'',
    ''stl_alloc.h'', ''stl_relops.h'', ''streambuf.h'', ''stream.h'', ''strfile.h'',
    ''strstream.h'', ''tempbuf.h'', ''tree.h'', ''type_traits.h'', ''vector.h'', ''algorithm'',
    ''array'', ''atomic'', ''bitset'', ''chrono'', ''codecvt'', ''complex'',
    ''condition_variable'', ''deque'', ''exception'', ''forward_list'', ''fstream'',
    ''functional'', ''future'', ''initializer_list'', ''iomanip'', ''ios'', ''iosfwd'',
    ''iostream'', ''istream'', ''iterator'', ''limits'', ''list'', ''locale'', ''map'',
    ''memory'', ''mutex'', ''new'', ''numeric'', ''optional'', ''ostream'', ''queue'',
    ''random'', ''ratio'', ''regex'', ''scoped_allocator'', ''set'', ''sstream'', ''stack'',
    ''stdexcept'', ''streambuf'', ''string'', ''strstream'', ''system_error'', ''thread'',
    ''tuple'', ''typeindex'', ''typeinfo'', ''type_traits'', ''unordered_map'',
    ''unordered_set'', ''utility'', ''valarray'', ''vector'', ''cassert'', ''ccomplex'',
    ''cctype'', ''cerrno'', ''cfenv'', ''cfloat'', ''cinttypes'', ''ciso646'', ''climits'',
    ''clocale'', ''cmath'', ''csetjmp'', ''csignal'', ''cstdalign'', ''cstdarg'', ''cstdbool'',
    ''cstddef'', ''cstdint'', ''cstdio'', ''cstdlib'', ''cstring'', ''ctgmath'', ''ctime'',
    ''cuchar'', ''cwchar'', ''cwctype'']"

text \<open>
  \<open>_TYPES\<close>.  The last alternative of the source pattern is empty (a bar before the closing
  bracket), and so it is here.
\<close>

definition TYPES :: rx where
  "TYPES = cats [Bol, alts [
     Grp 1 (cats [Lit ''char'', opt (Grp 2 (alts [Lit ''16_t'', Lit ''32_t'']))]), Lit ''wchar_t'',
     Lit ''bool'', Lit ''short'', Lit ''int'', Lit ''long'', Lit ''signed'', Lit ''unsigned'',
     Lit ''float'', Lit ''double'',
     Grp 3 (alts [Lit ''ptrdiff_t'', Lit ''size_t'', Lit ''max_align_t'', Lit ''nullptr_t'']),
     Grp 4 (cats [opt (Lit ''u''), Lit ''int'', opt (Grp 5 (alts [Lit ''_fast'', Lit ''_least''])),
       Grp 6 (alts [Lit ''8'', Lit ''16'', Lit ''32'', Lit ''64'']), Lit ''_t'']),
     Grp 7 (cats [opt (Lit ''u''), Lit ''int'', Grp 8 (alts [Lit ''max'', Lit ''ptr'']), Lit ''_t'']),
     Eps], Eol]"

definition THIRD_PARTY_HEADERS_PATTERN :: rx where
  "THIRD_PARTY_HEADERS_PATTERN = cats [Bol, alts [
     cats [star (NSet [Ch ''/'']), Set [Rg (CHR ''A'') (CHR ''Z'')], star (NSet [Ch ''/'']), Lit ''.h''],
     Lit ''lua.h'', Lit ''lauxlib.h'', Lit ''lualib.h''], Eol]"

definition TEST_FILE_SUFFIX :: rx where
  "TEST_FILE_SUFFIX = cats [Grp 1 (alts [Lit ''_test'', Lit ''_unittest'', Lit ''_regtest'']), Eol]"

subsection \<open>Replacements for \<open>CHECK\<close> macros\<close>

definition CHECK_MACROS :: "string list" where
  "CHECK_MACROS = [''DCHECK'', ''CHECK'', ''EXPECT_TRUE'', ''ASSERT_TRUE'', ''EXPECT_FALSE'', ''ASSERT_FALSE'']"

type_synonym check_table = "string \<Rightarrow> string \<Rightarrow> string option"

definition set_entry :: "string \<Rightarrow> string \<Rightarrow> string \<Rightarrow> check_table \<Rightarrow> check_table" where
  "set_entry macro opr repl t = t(macro := (t macro)(opr \<mapsto> repl))"

definition CHECK_OPS :: "(string \<times> string) list" where
  "CHECK_OPS = [(''=='', ''EQ''), (''!='', ''NE''), (''>='', ''GE''), (''>'', ''GT''), (''<='', ''LE''), (''<'', ''LT'')]"

definition CHECK_INV_OPS :: "(string \<times> string) list" where
  "CHECK_INV_OPS = [(''=='', ''NE''), (''!='', ''EQ''), (''>='', ''LT''), (''>'', ''LE''), (''<='', ''GT''), (''<'', ''GE'')]"

definition CHECK_REPLACEMENT :: check_table where
  "CHECK_REPLACEMENT =
     fold (\<lambda>(opr, inv). set_entry ''ASSERT_FALSE'' opr (''ASSERT_'' @ inv) \<circ>
                       set_entry ''EXPECT_FALSE'' opr (''EXPECT_'' @ inv)) CHECK_INV_OPS
     (fold (\<lambda>(opr, repl). set_entry ''ASSERT_TRUE'' opr (''ASSERT_'' @ repl) \<circ>
                         set_entry ''EXPECT_TRUE'' opr (''EXPECT_'' @ repl) \<circ>
                         set_entry ''CHECK'' opr (''CHECK_'' @ repl) \<circ>
                         set_entry ''DCHECK'' opr (''DCHECK_'' @ repl)) CHECK_OPS
     (\<lambda>_. Map.empty))"

text \<open>
  What the operators and the comparison macros mean, to state that a proposed replacement has
  the meaning of what it replaces.
\<close>

definition holds_op :: "string \<Rightarrow> int \<Rightarrow> int \<Rightarrow> bool" where
  "holds_op opr a b = (if opr = ''=='' then a = b else if opr = ''!='' then a \<noteq> b
     else if opr = ''>='' then a \<ge> b else if opr = ''>'' then a > b
     else if opr = ''<='' then a \<le> b else a < b)"

definition holds_suffix :: "string \<Rightarrow> int \<Rightarrow> int \<Rightarrow> bool" where
  "holds_suffix sfx a b = (if sfx = ''EQ'' then a = b else if sfx = ''NE'' then a \<noteq> b
     else if sfx = ''GE'' then a \<ge> b else if sfx = ''GT'' then a > b
     else if sfx = ''LE'' then a \<le> b else a < b)"

text \<open>A macro of the table passes when its condition has this truth value.\<close>

definition expected_truth :: "string \<Rightarrow> bool" where
  "expected_truth macro \<longleftrightarrow> macro \<noteq> ''EXPECT_FALSE'' \<and> macro \<noteq> ''ASSERT_FALSE''"

definition macro_family :: "string \<Rightarrow> string" where
  "macro_family macro =
     (if macro = ''EXPECT_TRUE'' \<or> macro = ''EXPECT_FALSE'' then ''EXPECT''
      else if macro = ''ASSERT_TRUE'' \<or> macro = ''ASSERT_FALSE'' then ''ASSERT'' else macro)"

lemma set_entry_row: "set_entry m opr r t x = (if x = m then (t m)(opr \<mapsto> r) else t x)"
  by (simp add: set_entry_def)

text \<open>What a row of the table holds after one of the two loops.\<close>

lemma fold_two_rows:
  "a \<noteq> b \<Longrightarrow>
   fold (\<lambda>(opr, r). set_entry a opr (pa @ r) \<circ> set_entry b opr (pb @ r)) xs t x =
     (if x = a then fold (\<lambda>(opr, r) m. m(opr \<mapsto> pa @ r)) xs (t a)
      else if x = b then fold (\<lambda>(opr, r) m. m(opr \<mapsto> pb @ r)) xs (t b) else t x)"
  by (induction xs arbitrary: t) (auto simp: set_entry_row)

lemma fold_four_rows:
  "distinct [a, b, c, d] \<Longrightarrow>
   fold (\<lambda>(opr, r). set_entry a opr (pa @ r) \<circ> set_entry b opr (pb @ r) \<circ>
                    set_entry c opr (pc @ r) \<circ> set_entry d opr (pd @ r)) xs t x =
     (if x = a then fold (\<lambda>(opr, r) m. m(opr \<mapsto> pa @ r)) xs (t a)
      else if x = b then fold (\<lambda>(opr, r) m. m(opr \<mapsto> pb @ r)) xs (t b)
      else if x = c then fold (\<lambda>(opr, r) m. m(opr \<mapsto> pc @ r)) xs (t c)
      else if x = d then fold (\<lambda>(opr, r) m. m(opr \<mapsto> pd @ r)) xs (t d) else t x)"
  by (induction xs arbitrary: t) (auto simp: set_entry_row)

lemma fold_row:
  "distinct (map fst xs) \<Longrightarrow>
   fold (\<lambda>(opr, r) m. m(opr \<mapsto> f r)) xs m k =
     (case map_of xs k of None \<Rightarrow> m k | Some r \<Rightarrow> Some (f r))"
  by (induction xs arbitrary: m)
     (auto split: option.splits dest: map_of_SomeD intro: rev_image_eqI)

lemma row_names:
  "''ASSERT_FALSE'' \<noteq> ''EXPECT_FALSE''"
  "distinct [''ASSERT_TRUE'', ''EXPECT_TRUE'', ''CHECK'', ''DCHECK'']"
  "(''ASSERT_FALSE'' = ''ASSERT_TRUE'') = False" "(''ASSERT_FALSE'' = ''EXPECT_TRUE'') = False"
  "(''ASSERT_FALSE'' = ''CHECK'') = False" "(''ASSERT_FALSE'' = ''DCHECK'') = False"
  "(''EXPECT_FALSE'' = ''ASSERT_TRUE'') = False" "(''EXPECT_FALSE'' = ''EXPECT_TRUE'') = False"
  "(''EXPECT_FALSE'' = ''CHECK'') = False" "(''EXPECT_FALSE'' = ''DCHECK'') = False"
  by simp_all

lemma distinct_ops: "distinct (map fst CHECK_OPS)" "distinct (map fst CHECK_INV_OPS)"
  by (simp_all add: CHECK_OPS_def CHECK_INV_OPS_def)

lemma CHECK_REPLACEMENT_eval:
  "CHECK_REPLACEMENT macro opr =
     (if macro \<in> set CHECK_MACROS
      then map_option (\<lambda>sfx. macro_family macro @ ''_'' @ sfx)
             (map_of (if expected_truth macro then CHECK_OPS else CHECK_INV_OPS) opr)
      else None)"
proof -
  have "CHECK_REPLACEMENT macro =
     (if macro = ''ASSERT_FALSE'' then fold (\<lambda>(opr, r) m. m(opr \<mapsto> ''ASSERT_'' @ r)) CHECK_INV_OPS Map.empty
      else if macro = ''EXPECT_FALSE'' then fold (\<lambda>(opr, r) m. m(opr \<mapsto> ''EXPECT_'' @ r)) CHECK_INV_OPS Map.empty
      else if macro = ''ASSERT_TRUE'' then fold (\<lambda>(opr, r) m. m(opr \<mapsto> ''ASSERT_'' @ r)) CHECK_OPS Map.empty
      else if macro = ''EXPECT_TRUE'' then fold (\<lambda>(opr, r) m. m(opr \<mapsto> ''EXPECT_'' @ r)) CHECK_OPS Map.empty
      else if macro = ''CHECK'' then fold (\<lambda>(opr, r) m. m(opr \<mapsto> ''CHECK_'' @ r)) CHECK_OPS Map.empty
      else if macro = ''DCHECK'' then fold (\<lambda>(opr, r) m. m(opr \<mapsto> ''DCHECK_'' @ r)) CHECK_OPS Map.empty
      else Map.empty)"
    unfolding CHECK_REPLACEMENT_def by (simp only: fold_two_rows [OF row_names(1)] fold_four_rows [OF row_names(2)] row_names if_False)
  then show ?thesis
    by (simp add: fold_row [OF distinct_ops(1)] fold_row [OF distinct_ops(2)] CHECK_MACROS_def
        macro_family_def expected_truth_def option.case_eq_if map_option_case split: option.splits)
qed

lemma ops_sound:
  "list_all (\<lambda>(opr, sfx). \<forall>a b. holds_suffix sfx a b \<longleftrightarrow> holds_op opr a b) CHECK_OPS"
  "list_all (\<lambda>(opr, sfx). \<forall>a b. holds_suffix sfx a b \<longleftrightarrow> \<not> holds_op opr a b) CHECK_INV_OPS"
  by (simp_all add: CHECK_OPS_def CHECK_INV_OPS_def holds_suffix_def holds_op_def not_le not_less)

text \<open>
  C18: whatever \<open>_CHECK_REPLACEMENT\<close> proposes for a macro and an
  operator belongs to the macro's own family and passes on the same operands; the
  \<open>*_FALSE\<close> macros therefore get the inverse comparison.  All six macros have an entry for all six
  operators.
\<close>

theorem check_replacement_sound:
  "(\<forall>macro opr repl. CHECK_REPLACEMENT macro opr = Some repl \<longrightarrow>
      (\<exists>sfx. repl = macro_family macro @ ''_'' @ sfx \<and>
         (\<forall>a b. holds_suffix sfx a b \<longleftrightarrow> (holds_op opr a b = expected_truth macro)))) \<and>
   (\<forall>macro \<in> set CHECK_MACROS. \<forall>opr \<in> fst ` set CHECK_OPS. CHECK_REPLACEMENT macro opr \<noteq> None)"
proof (intro conjI allI impI ballI)
  fix macro opr repl
  assume "CHECK_REPLACEMENT macro opr = Some repl"
  then obtain sfx where r: "repl = macro_family macro @ ''_'' @ sfx"
    and m: "map_of (if expected_truth macro then CHECK_OPS else CHECK_INV_OPS) opr = Some sfx"
    by (auto simp: CHECK_REPLACEMENT_eval split: if_splits)
  have s: "\<forall>a b. holds_suffix sfx a b \<longleftrightarrow> (holds_op opr a b = expected_truth macro)"
  proof (cases "expected_truth macro")
    case True
    with m have "(opr, sfx) \<in> set CHECK_OPS" by (simp add: map_of_SomeD)
    with True ops_sound(1) show ?thesis by (auto simp: list_all_iff)
  next
    case False
    with m have "(opr, sfx) \<in> set CHECK_INV_OPS" by (simp add: map_of_SomeD)
    with False ops_sound(2) show ?thesis by (auto simp: list_all_iff)
  qed
  show "\<exists>sfx. repl = macro_family macro @ ''_'' @ sfx \<and>
      (\<forall>a b. holds_suffix sfx a b \<longleftrightarrow> (holds_op opr a b = expected_truth macro))"
    by (rule exI [of _ sfx], rule conjI [OF r s])
next
  fix macro opr
  assume "macro \<in> set CHECK_MACROS" and "opr \<in> fst ` set CHECK_OPS"
  moreover have "fst ` set CHECK_OPS = fst ` set CHECK_INV_OPS"
    by (simp add: CHECK_OPS_def CHECK_INV_OPS_def insert_commute)
  ultimately show "CHECK_REPLACEMENT macro opr \<noteq> None"
    by (simp add: CHECK_REPLACEMENT_eval map_of_eq_None_iff)
qed

text \<open>A concrete entry of the table.\<close>

theorem check_replacement_sound_witness:
  "CHECK_REPLACEMENT ''EXPECT_FALSE'' ''<'' = Some ''EXPECT_GE'' \<and>
   (\<exists>sfx. ''EXPECT_GE'' = macro_family ''EXPECT_FALSE'' @ ''_'' @ sfx \<and>
      (\<forall>a b. holds_suffix sfx a b \<longleftrightarrow> (holds_op ''<'' a b = expected_truth ''EXPECT_FALSE'')))"
proof -
  have "CHECK_REPLACEMENT ''EXPECT_FALSE'' ''<'' = Some ''EXPECT_GE''"
    by (simp add: CHECK_REPLACEMENT_eval CHECK_MACROS_def CHECK_INV_OPS_def expected_truth_def macro_family_def)
  with check_replacement_sound show ?thesis by blast
qed

subsection \<open>Alternative tokens\<close>

definition ALT_TOKEN_REPLACEMENT :: "(string \<times> string) list" where
  "ALT_TOKEN_REPLACEMENT = [(''and'', ''&&''), (''bitor'', ''|''), (''or'', ''||''), (''xor'', ''^''),
     (''compl'', ''~''), (''bitand'', ''&''), (''and_eq'', ''&=''), (''or_eq'', ''|=''),
     (''xor_eq'', ''^=''), (''not'', ''!''), (''not_eq'', ''!='')]"

text \<open>Start of an inline assembly block, C files and kernel files.\<close>

definition MATCH_ASM :: rx where
  "MATCH_ASM = cats [Bol, sp0, alts [Lit ''asm'', Lit ''_asm'', Lit ''__asm'', Lit ''__asm__''],
     opt (cats [sp1, Grp 1 (alts [Lit ''volatile'', Lit ''__volatile__''])]), sp0, Set [Ch ''{('']]"

definition SEARCH_C_FILE :: rx where
  "SEARCH_C_FILE = cats [WordB, alts [Lit ''LINT_C_FILE'',
     cats [Lit ''vi'', opt (Lit ''m''), Lit '':'', sp0, any0, Grp 1 (alts [sp0, Lit '':'']),
       Lit ''filetype=c'', Grp 2 (alts [sp0, Lit '':'', Eol])]]]"

definition SEARCH_KERNEL_FILE :: rx where
  "SEARCH_KERNEL_FILE = cats [WordB, Lit ''LINT_KERNEL_FILE'']"

end
