(* ===== verification/Lint_State.thy ===== *)
theory Lint_State
  imports Lint_Tables
begin

section \<open>The linter's global state and the error sink\<close>

text \<open>
  The module-level state of \<^verbatim>\<open>src/cpplint.py\<close>: the \<open>NOLINT\<close> suppressions, the
  options, the object \<open>_cpplint_state\<close> of class \<open>_CppLintState\<close>, and what was written to
  standard error.  \<open>Error\<close> is the sink to which every check reports.  A check takes the sink as
  an argument, as in the source; the locale \<open>error_handler\<close> states what it may rely on.
\<close>

subsection \<open>State\<close>

record CppLintState =
  verbose_level :: int
  error_count :: nat
  filters :: "string list"
  filters_backup :: "string list"
  counting :: string
  errors_by_category :: "string \<rightharpoonup> nat"
  output_format :: string

record lint =
  error_suppressions :: "string option \<rightharpoonup> int set"
  global_error_suppressions :: "string \<rightharpoonup> bool"
  root :: "string option"
  line_length :: int
  valid_extensions :: "string set"
  cpplint_state :: CppLintState
  stderr :: "string list"

type_synonym action = "lint \<Rightarrow> lint res"

text \<open>File name, line, category, confidence, message.\<close>

type_synonym error_fn = "string \<Rightarrow> int \<Rightarrow> string \<Rightarrow> int \<Rightarrow> string \<Rightarrow> action"

definition CppLintState_init :: CppLintState where
  "CppLintState_init =
     \<lparr>verbose_level = 1, error_count = 0, filters = DEFAULT_FILTERS, filters_backup = DEFAULT_FILTERS,
      counting = ''total'', errors_by_category = Map.empty, output_format = ''emacs''\<rparr>"

definition lint_init :: lint where
  "lint_init =
     \<lparr>error_suppressions = Map.empty, global_error_suppressions = Map.empty, root = None,
      line_length = 80, valid_extensions = set [''cc'', ''h'', ''cpp'', ''cu'', ''cuh''],
      cpplint_state = CppLintState_init, stderr = []\<rparr>"

definition write_stderr :: "string \<Rightarrow> lint \<Rightarrow> lint" where
  "write_stderr msg s = s\<lparr>stderr := stderr s @ [msg]\<rparr>"

subsection \<open>\<open>_CppLintState\<close>\<close>

definition SetOutputFormat :: "string \<Rightarrow> CppLintState \<Rightarrow> CppLintState" where
  "SetOutputFormat fmt st = st\<lparr>output_format := fmt\<rparr>"

definition SetVerboseLevel :: "int \<Rightarrow> CppLintState \<Rightarrow> int \<times> CppLintState" where
  "SetVerboseLevel level st = (verbose_level st, st\<lparr>verbose_level := level\<rparr>)"

definition SetCountingStyle :: "string \<Rightarrow> CppLintState \<Rightarrow> CppLintState" where
  "SetCountingStyle style st = st\<lparr>counting := style\<rparr>"

definition signed_filter :: "string \<Rightarrow> bool" where
  "signed_filter f \<longleftrightarrow> py_startswith f ''+'' \<or> py_startswith f ''-''"

text \<open>The non-empty stripped pieces of a comma-separated list.\<close>

definition filter_pieces :: "string \<Rightarrow> string list" where
  "filter_pieces fs = filter (\<lambda>c. c \<noteq> []) (map bytes_strip (py_split_on CHR '','' fs))"

definition AddFilters :: "string \<Rightarrow> CppLintState \<Rightarrow> CppLintState res" where
  "AddFilters fs st =
     (let clean = filter_pieces fs;
          st' = st\<lparr>filters := filters st @ clean\<rparr>
      in case List.find (\<lambda>f. \<not> signed_filter f) (filters st') of
           None \<Rightarrow> Inr st'
         | Some f \<Rightarrow> Inl (ValueError (''Every filter in --filters must start with + or - ('' @ f @ '' does not)'')))"

definition SetFilters :: "string \<Rightarrow> CppLintState \<Rightarrow> CppLintState res" where
  "SetFilters fs st = AddFilters fs (st\<lparr>filters := DEFAULT_FILTERS\<rparr>)"

definition BackupFilters :: "CppLintState \<Rightarrow> CppLintState" where
  "BackupFilters st = st\<lparr>filters_backup := filters st\<rparr>"

definition RestoreFilters :: "CppLintState \<Rightarrow> CppLintState" where
  "RestoreFilters st = st\<lparr>filters := filters_backup st\<rparr>"

definition ResetErrorCounts :: "CppLintState \<Rightarrow> CppLintState" where
  "ResetErrorCounts st = st\<lparr>error_count := 0, errors_by_category := Map.empty\<rparr>"

definition IncrementErrorCount :: "string \<Rightarrow> CppLintState \<Rightarrow> CppLintState" where
  "IncrementErrorCount category st =
     (let st1 = st\<lparr>error_count := error_count st + 1\<rparr>
      in if counting st1 \<in> {''toplevel'', ''detailed''}
         then let cat = (if counting st1 \<noteq> ''detailed'' then hd (py_split_on CHR ''/'' category) else category);
                  m = (if errors_by_category st1 cat = None
                       then (errors_by_category st1)(cat \<mapsto> 0) else errors_by_category st1)
              in st1\<lparr>errors_by_category := m(cat \<mapsto> the (m cat) + 1)\<rparr>
         else st1)"

text \<open>
  The dictionary's own iteration order is not specified by Python; \<open>items\<close> stands for
  \<^verbatim>\<open>iteritems\<close>.
\<close>

definition PrintErrorCounts :: "((string \<rightharpoonup> nat) \<Rightarrow> (string \<times> nat) list) \<Rightarrow> lint \<Rightarrow> lint" where
  "PrintErrorCounts items s =
     (let st = cpplint_state s;
          per_category = map (\<lambda>(c, n). ''Category '' @ [squote] @ c @ [squote] @ '' errors found: '' @ nat_str n @ [newline])
                           (items (errors_by_category st));
          total = ''Total errors found: '' @ nat_str (error_count st) @ [newline]
      in s\<lparr>stderr := stderr s @ per_category @ [total]\<rparr>)"

text \<open>The module-level functions that forward to \<open>_cpplint_state\<close>.\<close>

definition g_SetOutputFormat :: "string \<Rightarrow> lint \<Rightarrow> lint" where
  "g_SetOutputFormat fmt s = s\<lparr>cpplint_state := SetOutputFormat fmt (cpplint_state s)\<rparr>"

definition g_SetVerboseLevel :: "int \<Rightarrow> lint \<Rightarrow> int \<times> lint" where
  "g_SetVerboseLevel level s =
     (let (last, st) = SetVerboseLevel level (cpplint_state s) in (last, s\<lparr>cpplint_state := st\<rparr>))"

definition g_SetCountingStyle :: "string \<Rightarrow> lint \<Rightarrow> lint" where
  "g_SetCountingStyle level s = s\<lparr>cpplint_state := SetCountingStyle level (cpplint_state s)\<rparr>"

definition g_SetFilters :: "string \<Rightarrow> action" where
  "g_SetFilters fs s = rbind (SetFilters fs (cpplint_state s)) (\<lambda>st. Inr (s\<lparr>cpplint_state := st\<rparr>))"

definition g_AddFilters :: "string \<Rightarrow> action" where
  "g_AddFilters fs s = rbind (AddFilters fs (cpplint_state s)) (\<lambda>st. Inr (s\<lparr>cpplint_state := st\<rparr>))"

definition g_BackupFilters :: "lint \<Rightarrow> lint" where
  "g_BackupFilters s = s\<lparr>cpplint_state := BackupFilters (cpplint_state s)\<rparr>"

definition g_RestoreFilters :: "lint \<Rightarrow> lint" where
  "g_RestoreFilters s = s\<lparr>cpplint_state := RestoreFilters (cpplint_state s)\<rparr>"

subsection \<open>Suppressions\<close>

definition rx_nolint :: rx where
  "rx_nolint = cats [WordB, Lit ''NOLINT'', opt (Grp 1 (Lit ''NEXTLINE'')), WordB,
     opt (Grp 2 (cats [Lit ''('', plus1 (NSet [Ch '')'']), Lit '')'']))]"

text \<open>\<^verbatim>\<open>_error_suppressions.setdefault(key, set()).add(line)\<close>\<close>

definition add_suppression :: "string option \<Rightarrow> int \<Rightarrow> lint \<Rightarrow> lint" where
  "add_suppression key line s =
     s\<lparr>error_suppressions := (error_suppressions s)(key \<mapsto>
        insert line (case error_suppressions s key of None \<Rightarrow> {} | Some ls \<Rightarrow> ls))\<rparr>"

definition ParseNolintSuppressions :: "error_fn \<Rightarrow> string \<Rightarrow> string \<Rightarrow> int \<Rightarrow> action" where
  "ParseNolintSuppressions error filename raw_line linenum s =
     (case Search rx_nolint raw_line of
        None \<Rightarrow> Inr s
      | Some matched \<Rightarrow>
          (let suppressed_line = (if grp matched 1 \<noteq> None then linenum + 1 else linenum)
           in case grp matched 2 of
                None \<Rightarrow> Inr (add_suppression None suppressed_line s)
              | Some category \<Rightarrow>
                  if category = ''(*)'' then Inr (add_suppression None suppressed_line s)
                  else if py_startswith category ''('' \<and> py_endswith category '')'' then
                    (let category' = butlast (tl category)
                     in if category' \<in> set ERROR_CATEGORIES
                        then Inr (add_suppression (Some category') suppressed_line s)
                        else if category' \<notin> set LEGACY_ERROR_CATEGORIES
                        then error filename linenum ''readability/nolint'' 5
                               (''Unknown NOLINT error category: '' @ category') s
                        else Inr s)
                  else Inr s))"

definition ProcessGlobalSuppresions :: "string list \<Rightarrow> lint \<Rightarrow> lint" where
  "ProcessGlobalSuppresions lines s =
     fold (\<lambda>line s.
        let s1 = (if Searches SEARCH_C_FILE line
                  then fold (\<lambda>c s. s\<lparr>global_error_suppressions := (global_error_suppressions s)(c \<mapsto> True)\<rparr>)
                         DEFAULT_C_SUPPRESSED_CATEGORIES s
                  else s)
        in if Searches SEARCH_KERNEL_FILE line
           then fold (\<lambda>c s. s\<lparr>global_error_suppressions := (global_error_suppressions s)(c \<mapsto> True)\<rparr>)
                  DEFAULT_KERNEL_SUPPRESSED_CATEGORIES s1
           else s1) lines s"

definition ResetNolintSuppressions :: "lint \<Rightarrow> lint" where
  "ResetNolintSuppressions s = s\<lparr>error_suppressions := Map.empty, global_error_suppressions := Map.empty\<rparr>"

definition IsErrorSuppressedByNolint :: "string \<Rightarrow> int \<Rightarrow> lint \<Rightarrow> bool" where
  "IsErrorSuppressedByNolint category linenum s \<longleftrightarrow>
     global_error_suppressions s category = Some True \<or>
     (case error_suppressions s (Some category) of None \<Rightarrow> False | Some ls \<Rightarrow> linenum \<in> ls) \<or>
     (case error_suppressions s None of None \<Rightarrow> False | Some ls \<Rightarrow> linenum \<in> ls)"

subsection \<open>The error sink\<close>

text \<open>One step of the filter loop of \<open>_ShouldPrintError\<close>.\<close>

definition apply_filter :: "string \<Rightarrow> string \<Rightarrow> bool \<Rightarrow> bool res" where
  "apply_filter category one_filter is_filtered =
     (if py_startswith one_filter ''-'' then
        Inr (if py_startswith category (drop 1 one_filter) then True else is_filtered)
      else if py_startswith one_filter ''+'' then
        Inr (if py_startswith category (drop 1 one_filter) then False else is_filtered)
      else Inl AssertionError)"

definition ShouldPrintError :: "string \<Rightarrow> int \<Rightarrow> int \<Rightarrow> lint \<Rightarrow> bool res" where
  "ShouldPrintError category confidence linenum s =
     (if IsErrorSuppressedByNolint category linenum s then Inr False
      else if confidence < verbose_level (cpplint_state s) then Inr False
      else rbind (rfold (apply_filter category) (filters (cpplint_state s)) False)
             (\<lambda>is_filtered. Inr (\<not> is_filtered)))"

definition error_line :: "string \<Rightarrow> string \<Rightarrow> int \<Rightarrow> string \<Rightarrow> int \<Rightarrow> string \<Rightarrow> string" where
  "error_line fmt filename linenum category confidence message =
     (let suff = ''  ['' @ category @ ''] ['' @ int_str confidence @ '']'' @ [newline]
      in if fmt = ''vs7'' then filename @ ''('' @ int_str linenum @ ''):  '' @ message @ suff
         else if fmt = ''eclipse'' then filename @ '':'' @ int_str linenum @ '': warning: '' @ message @ suff
         else filename @ '':'' @ int_str linenum @ '':  '' @ message @ suff)"

definition Error :: error_fn where
  "Error filename linenum category confidence message s =
     rbind (ShouldPrintError category confidence linenum s) (\<lambda>should_print.
       if should_print then
         let st = IncrementErrorCount category (cpplint_state s)
         in Inr (write_stderr (error_line (output_format st) filename linenum category confidence message)
                   (s\<lparr>cpplint_state := st\<rparr>))
       else Inr s)"

subsection \<open>Invariant\<close>

definition filters_ok :: "string list \<Rightarrow> bool" where
  "filters_ok fs \<longleftrightarrow> list_all signed_filter fs"

text \<open>When errors are counted by category, the counts add up to the total.\<close>

definition counts_ok :: "CppLintState \<Rightarrow> bool" where
  "counts_ok st \<longleftrightarrow> finite (dom (errors_by_category st)) \<and>
     (if counting st \<in> {''toplevel'', ''detailed''}
      then (\<Sum>c \<in> dom (errors_by_category st). the (errors_by_category st c)) = error_count st
      else errors_by_category st = Map.empty)"

definition state_ok :: "CppLintState \<Rightarrow> bool" where
  "state_ok st \<longleftrightarrow> filters_ok (filters st) \<and> filters_ok (filters_backup st) \<and> counts_ok st"

definition lint_ok :: "lint \<Rightarrow> bool" where
  "lint_ok s \<longleftrightarrow> state_ok (cpplint_state s)"

lemma filters_ok_default [simp]: "filters_ok DEFAULT_FILTERS"
  by (simp add: filters_ok_def DEFAULT_FILTERS_def signed_filter_def py_startswith_def)

lemma lint_ok_init: "lint_ok lint_init"
  by (simp add: lint_ok_def state_ok_def lint_init_def CppLintState_init_def counts_ok_def)

lemma find_not_None_iff: "List.find (\<lambda>x. \<not> P x) xs = None \<longleftrightarrow> list_all P xs"
  by (induction xs) auto

lemma AddFilters_Inr_iff:
  "AddFilters fs st = Inr st' \<longleftrightarrow>
     filters_ok (filters st') \<and>
     st' = st\<lparr>filters := filters st @ filter_pieces fs\<rparr>"
  unfolding AddFilters_def Let_def filters_ok_def
  by (auto simp: find_not_None_iff [symmetric] simp del: list_all_append split: option.split)

lemma AddFilters_keeps: "state_ok st \<Longrightarrow> AddFilters fs st = Inr st' \<Longrightarrow> state_ok st'"
  by (auto simp: AddFilters_Inr_iff state_ok_def counts_ok_def)

lemma state_ok_updates [simp]:
  "state_ok st \<Longrightarrow> state_ok (st\<lparr>filters := DEFAULT_FILTERS\<rparr>)"
  "state_ok st \<Longrightarrow> state_ok (SetOutputFormat fmt st)"
  "state_ok st \<Longrightarrow> state_ok (st\<lparr>verbose_level := v\<rparr>)"
  "state_ok st \<Longrightarrow> state_ok (BackupFilters st)"
  "state_ok st \<Longrightarrow> state_ok (RestoreFilters st)"
  "state_ok st \<Longrightarrow> state_ok (ResetErrorCounts st)"
  by (auto simp: state_ok_def counts_ok_def SetOutputFormat_def BackupFilters_def
      RestoreFilters_def ResetErrorCounts_def)

lemma SetFilters_keeps: "state_ok st \<Longrightarrow> SetFilters fs st = Inr st' \<Longrightarrow> state_ok st'"
  by (simp add: SetFilters_def) (rule AddFilters_keeps, simp_all)

lemma IncrementErrorCount_fields [simp]:
  "error_count (IncrementErrorCount c st) = Suc (error_count st)"
  "filters (IncrementErrorCount c st) = filters st"
  "filters_backup (IncrementErrorCount c st) = filters_backup st"
  "verbose_level (IncrementErrorCount c st) = verbose_level st"
  "counting (IncrementErrorCount c st) = counting st"
  "output_format (IncrementErrorCount c st) = output_format st"
  by (auto simp: IncrementErrorCount_def Let_def)

text \<open>Bumping one entry of a finite map raises the sum of its entries by one.\<close>

lemma sum_bump:
  fixes m :: "'k \<rightharpoonup> nat"
  assumes "finite (dom m)"
  shows "(\<Sum>c \<in> dom (m(k \<mapsto> v)). the ((m(k \<mapsto> v)) c)) + (case m k of None \<Rightarrow> 0 | Some n \<Rightarrow> n) =
         (\<Sum>c \<in> dom m. the (m c)) + v"
proof -
  have rest: "(\<Sum>c \<in> dom m - {k}. the ((m(k \<mapsto> v)) c)) = (\<Sum>c \<in> dom m - {k}. the (m c))"
    by (rule sum.cong) auto
  have "(\<Sum>c \<in> dom (m(k \<mapsto> v)). the ((m(k \<mapsto> v)) c)) = v + (\<Sum>c \<in> dom m - {k}. the (m c))"
    using assms rest by (simp add: sum.insert_remove)
  moreover have "(\<Sum>c \<in> dom m. the (m c)) =
      (case m k of None \<Rightarrow> 0 | Some n \<Rightarrow> n) + (\<Sum>c \<in> dom m - {k}. the (m c))"
  proof (cases "m k")
    case None
    then have "dom m - {k} = dom m" by auto
    with None show ?thesis by simp
  next
    case (Some n)
    then have "k \<in> dom m" by auto
    with assms Some show ?thesis by (simp add: sum.remove)
  qed
  ultimately show ?thesis by simp
qed

lemma counts_ok_Increment: "counts_ok st \<Longrightarrow> counts_ok (IncrementErrorCount c st)"
proof -
  assume ok: "counts_ok st"
  define cat where "cat = (if counting st \<noteq> ''detailed'' then hd (py_split_on CHR ''/'' c) else c)"
  define m where "m = errors_by_category st"
  show ?thesis
  proof (cases "counting st \<in> {''toplevel'', ''detailed''}")
    case True
    have "errors_by_category (IncrementErrorCount c st) =
        m(cat \<mapsto> (case m cat of None \<Rightarrow> 0 | Some n \<Rightarrow> n) + 1)"
      using True by (auto simp: IncrementErrorCount_def Let_def m_def cat_def split: option.splits)
    moreover from ok True have "finite (dom m)" "(\<Sum>c \<in> dom m. the (m c)) = error_count st"
      by (auto simp: counts_ok_def m_def)
    ultimately show ?thesis
      using True sum_bump [of m cat "(case m cat of None \<Rightarrow> 0 | Some n \<Rightarrow> n) + 1"]
      by (simp add: counts_ok_def)
  next
    case False
    with ok show ?thesis by (auto simp: counts_ok_def IncrementErrorCount_def Let_def)
  qed
qed

lemma state_ok_Increment: "state_ok st \<Longrightarrow> state_ok (IncrementErrorCount c st)"
  by (simp add: state_ok_def counts_ok_Increment)

subsection \<open>The filter loop: the last matching filter decides\<close>

definition filtered_out :: "string list \<Rightarrow> string \<Rightarrow> bool" where
  "filtered_out fs category =
     (case List.find (\<lambda>f. prefix (tl f) category) (rev fs) of None \<Rightarrow> False | Some f \<Rightarrow> hd f = CHR ''-'')"

lemma signed_filter_Cons: "signed_filter f \<longleftrightarrow> (\<exists>g. f = CHR ''+'' # g \<or> f = CHR ''-'' # g)"
  by (cases f) (auto simp: signed_filter_def py_startswith_def)

lemma apply_filter_signed:
  "signed_filter f \<Longrightarrow>
   apply_filter category f b = Inr (if prefix (tl f) category then hd f = CHR ''-'' else b)"
  by (auto simp: signed_filter_Cons apply_filter_def py_startswith_def)

lemma filter_loop:
  "filters_ok fs \<Longrightarrow>
   rfold (apply_filter category) fs b =
     Inr (case List.find (\<lambda>f. prefix (tl f) category) (rev fs) of None \<Rightarrow> b | Some f \<Rightarrow> hd f = CHR ''-'')"
proof (induction fs rule: rev_induct)
  case (snoc f fs)
  then have "filters_ok fs" "signed_filter f" by (auto simp: filters_ok_def)
  with snoc.IH show ?case by (simp add: rfold_append apply_filter_signed)
qed simp

lemma ShouldPrintError_eq:
  assumes "filters_ok (filters (cpplint_state s))"
  shows "ShouldPrintError category confidence linenum s =
     Inr (\<not> IsErrorSuppressedByNolint category linenum s \<and>
          verbose_level (cpplint_state s) \<le> confidence \<and>
          \<not> filtered_out (filters (cpplint_state s)) category)"
  using assms by (auto simp: ShouldPrintError_def filter_loop filtered_out_def)

subsection \<open>What a check may rely on\<close>

text \<open>
  A check is given the sink \<open>error\<close> and only ever calls it with one of the listed categories
  and a confidence between 0 and 5.  A sink that keeps the invariant \<open>I\<close> on such calls makes
  every check keep it: the checks' lemmas are proved here once, for any sink and any invariant.
\<close>

locale error_handler =
  fixes error :: error_fn and I :: "lint \<Rightarrow> bool"
  assumes error_keeps:
    "known_category category \<Longrightarrow> 0 \<le> confidence \<Longrightarrow> confidence \<le> 5 \<Longrightarrow>
     keeps I (error filename linenum category confidence message)"
begin

lemma error_lands:
  "known_category category \<Longrightarrow> 0 \<le> confidence \<Longrightarrow> confidence \<le> 5 \<Longrightarrow> I s \<Longrightarrow>
   lands I (error filename linenum category confidence message s)"
  by (intro keeps_lands error_keeps)

end

locale suppressing_handler = error_handler +
  assumes suppress_keeps: "I s \<Longrightarrow> I (add_suppression key line s)"
begin

lemma ParseNolintSuppressions_keeps [keeps_intros]:
  "keeps I (ParseNolintSuppressions error filename raw_line linenum)"
  unfolding keeps_def
proof (intro allI impI)
  fix s
  assume "I s"
  moreover from this have "\<exists>s'. error filename linenum ''readability/nolint'' 5 msg s = Inr s' \<and> I s'" for msg
    by (intro keepsD [OF error_keeps]) simp_all
  ultimately show "\<exists>s'. ParseNolintSuppressions error filename raw_line linenum s = Inr s' \<and> I s'"
    by (auto simp: ParseNolintSuppressions_def Let_def suppress_keeps split: option.split)
qed

end

lemma Error_keeps: "keeps lint_ok (Error filename linenum category confidence message)"
  by (auto simp: keeps_def Error_def ShouldPrintError_eq lint_ok_def state_ok_Increment write_stderr_def Let_def
      state_ok_def [THEN iffD1])

interpretation sink: suppressing_handler Error lint_ok
  by unfold_locales (auto intro: Error_keeps simp: lint_ok_def add_suppression_def)

text \<open>
  The same laws for a second invariant: every reported error wrote one line and was counted
  once.  \<open>k\<close> is the number of other lines on standard error.
\<close>

definition lint_logged :: "nat \<Rightarrow> lint \<Rightarrow> bool" where
  "lint_logged k s \<longleftrightarrow> lint_ok s \<and> length (stderr s) = error_count (cpplint_state s) + k"

lemma Error_keeps_logged: "keeps (lint_logged k) (Error filename linenum category confidence message)"
  by (auto simp: keeps_def lint_logged_def Error_def ShouldPrintError_eq lint_ok_def state_ok_Increment
      write_stderr_def Let_def state_ok_def [THEN iffD1])

interpretation logged: suppressing_handler Error "lint_logged k"
  by unfold_locales (auto intro: Error_keeps_logged simp: lint_logged_def lint_ok_def add_suppression_def)

subsection \<open>Properties of the error sink\<close>

lemma find_rev_Some_iff:
  "List.find P (rev xs) = Some f \<longleftrightarrow> (\<exists>pre post. xs = pre @ f # post \<and> P f \<and> (\<forall>g \<in> set post. \<not> P g))"
proof (induction xs rule: rev_induct)
  case (snoc x xs)
  show ?case
  proof (cases "P x")
    case True
    show ?thesis
    proof
      assume "List.find P (rev (xs @ [x])) = Some f"
      with True have "xs @ [x] = xs @ f # [] \<and> P f \<and> (\<forall>g \<in> set []. \<not> P g)" by simp
      then show "\<exists>pre post. xs @ [x] = pre @ f # post \<and> P f \<and> (\<forall>g \<in> set post. \<not> P g)" by blast
    next
      assume "\<exists>pre post. xs @ [x] = pre @ f # post \<and> P f \<and> (\<forall>g \<in> set post. \<not> P g)"
      then obtain pre post where e: "xs @ [x] = pre @ f # post" and n: "\<forall>g \<in> set post. \<not> P g" by blast
      from e n True have "post = []" by (cases post rule: rev_cases) auto
      with e True show "List.find P (rev (xs @ [x])) = Some f" by simp
    qed
  next
    case False
    have "(\<exists>pre post. xs @ [x] = pre @ f # post \<and> P f \<and> (\<forall>g \<in> set post. \<not> P g)) \<longleftrightarrow>
          (\<exists>pre post. xs = pre @ f # post \<and> P f \<and> (\<forall>g \<in> set post. \<not> P g))"
    proof
      assume "\<exists>pre post. xs @ [x] = pre @ f # post \<and> P f \<and> (\<forall>g \<in> set post. \<not> P g)"
      then obtain pre post where e: "xs @ [x] = pre @ f # post" and n: "P f" "\<forall>g \<in> set post. \<not> P g" by blast
      then show "\<exists>pre post. xs = pre @ f # post \<and> P f \<and> (\<forall>g \<in> set post. \<not> P g)"
        using False by (cases post rule: rev_cases) auto
    next
      assume "\<exists>pre post. xs = pre @ f # post \<and> P f \<and> (\<forall>g \<in> set post. \<not> P g)"
      then obtain pre post where "xs = pre @ f # post" "P f" "\<forall>g \<in> set post. \<not> P g" by blast
      with False have "xs @ [x] = pre @ f # (post @ [x]) \<and> P f \<and> (\<forall>g \<in> set (post @ [x]). \<not> P g)" by simp
      then show "\<exists>pre post. xs @ [x] = pre @ f # post \<and> P f \<and> (\<forall>g \<in> set post. \<not> P g)" by blast
    qed
    with snoc False show ?thesis by simp
  qed
qed simp

lemma filtered_out_iff:
  "filtered_out fs category \<longleftrightarrow>
     (\<exists>pre f post. fs = pre @ f # post \<and> hd f = CHR ''-'' \<and> prefix (tl f) category \<and>
        (\<forall>g \<in> set post. \<not> prefix (tl g) category))"
proof -
  have "filtered_out fs category \<longleftrightarrow>
    (\<exists>f. List.find (\<lambda>f. prefix (tl f) category) (rev fs) = Some f \<and> hd f = CHR ''-'')"
    by (auto simp: filtered_out_def split: option.splits)
  then show ?thesis unfolding find_rev_Some_iff by blast
qed

text \<open>
  C1: with filters that all carry a sign, \<open>_ShouldPrintError\<close> never fails its
  assertion, and it lets a report through exactly when no \<open>NOLINT\<close> suppresses it, its confidence
  reaches the verbosity level, and the last filter whose pattern is a prefix of the category is
  not a \<open>-\<close> filter.
\<close>

theorem should_print_iff:
  assumes "filters_ok (filters (cpplint_state s))"
  shows "ShouldPrintError category confidence linenum s =
     Inr (\<not> IsErrorSuppressedByNolint category linenum s \<and>
          verbose_level (cpplint_state s) \<le> confidence \<and>
          \<not> (\<exists>pre f post. filters (cpplint_state s) = pre @ f # post \<and> hd f = CHR ''-'' \<and>
               prefix (tl f) category \<and> (\<forall>g \<in> set post. \<not> prefix (tl g) category)))"
  unfolding ShouldPrintError_eq [OF assms] filtered_out_iff ..

theorem should_print_iff_witness:
  "ShouldPrintError ''build/include_alpha'' 4 7 lint_init = Inr False \<and>
   ShouldPrintError ''whitespace/tab'' 1 7 lint_init = Inr True"
proof -
  have ok: "filters_ok (filters (cpplint_state lint_init))"
    by (simp add: lint_init_def CppLintState_init_def)
  have fs: "filters (cpplint_state lint_init) = [] @ ''-build/include_alpha'' # []"
    by (simp add: lint_init_def CppLintState_init_def DEFAULT_FILTERS_def)
  have "\<exists>pre f post. filters (cpplint_state lint_init) = pre @ f # post \<and> hd f = CHR ''-'' \<and>
      prefix (tl f) ''build/include_alpha'' \<and> (\<forall>g \<in> set post. \<not> prefix (tl g) ''build/include_alpha'')"
    by (intro exI conjI, rule fs) simp_all
  moreover have "\<not> (\<exists>pre f post. filters (cpplint_state lint_init) = pre @ f # post \<and> hd f = CHR ''-'' \<and>
      prefix (tl f) ''whitespace/tab'' \<and> (\<forall>g \<in> set post. \<not> prefix (tl g) ''whitespace/tab''))"
    unfolding fs by (auto simp: Cons_eq_append_conv)
  ultimately show ?thesis
    unfolding should_print_iff [OF ok]
    by (simp add: lint_init_def CppLintState_init_def IsErrorSuppressedByNolint_def)
qed

text \<open>
  C2: any number of reports, starting from a consistent state in which
  counts and log agree, returns normally and leaves counts and log in agreement: one line of
  output per counted error, and, when errors are counted by category, the categories' counts
  add up to the total.
\<close>

theorem error_log_matches_count:
  assumes "lint_ok s"
    and "length (stderr s) = error_count (cpplint_state s) + k"
    and "\<forall>(f, l, c, n, m) \<in> set reports. known_category c \<and> 0 \<le> n \<and> n \<le> 5"
  shows "\<exists>s'. rfold (\<lambda>(f, l, c, n, m). Error f l c n m) reports s = Inr s' \<and>
     length (stderr s') = error_count (cpplint_state s') + k \<and>
     (counting (cpplint_state s') \<in> {''toplevel'', ''detailed''} \<longrightarrow>
        (\<Sum>c \<in> dom (errors_by_category (cpplint_state s')). the (errors_by_category (cpplint_state s') c)) =
        error_count (cpplint_state s'))"
proof -
  have "keeps (lint_logged k) (rfold (\<lambda>(f, l, c, n, m). Error f l c n m) reports)"
    by (intro keeps_rfold) (use assms(3) in \<open>auto intro!: logged.error_keeps\<close>)
  then obtain s' where "rfold (\<lambda>(f, l, c, n, m). Error f l c n m) reports s = Inr s'" "lint_logged k s'"
    using assms(1,2) by (auto simp: lint_logged_def dest!: keepsD [of _ _ s])
  then show ?thesis
    by (auto simp: lint_logged_def lint_ok_def state_ok_def counts_ok_def)
qed

theorem error_log_matches_count_witness:
  "\<exists>s'. rfold (\<lambda>(f, l, c, n, m). Error f l c n m)
        [(''a.cc'', 3, ''whitespace/tab'', 1, ''Tab found''), (''a.cc'', 4, ''build/include'', 0, ''x'')]
        lint_init = Inr s' \<and> length (stderr s') = error_count (cpplint_state s') + 0"
  using error_log_matches_count [of lint_init 0
      "[(''a.cc'', 3, ''whitespace/tab'', 1, ''Tab found''), (''a.cc'', 4, ''build/include'', 0, ''x'')]"]
  by (auto simp: lint_ok_init) (auto simp: lint_init_def CppLintState_init_def)

text \<open>
  C3: a line with a \<open>NOLINT\<close> comment that names no category (or \<open>(*)\<close>)
  makes every later report on that line (for \<open>NOLINTNEXTLINE\<close>: on the next line) leave the state
  untouched, whatever its category, confidence and text.
\<close>

theorem nolint_silences_line:
  assumes "Search rx_nolint raw_line = Some m"
    and "grp m 2 = None \<or> grp m 2 = Some ''(*)''"
    and "target = (if grp m 1 = None then linenum else linenum + 1)"
  shows "\<exists>s'. ParseNolintSuppressions error filename raw_line linenum s = Inr s' \<and>
     stderr s' = stderr s \<and> cpplint_state s' = cpplint_state s \<and>
     (\<forall>file category confidence message. Error file target category confidence message s' = Inr s')"
proof -
  have "ParseNolintSuppressions error filename raw_line linenum s = Inr (add_suppression None target s)"
    using assms by (auto simp: ParseNolintSuppressions_def Let_def)
  moreover have "IsErrorSuppressedByNolint category target (add_suppression None target s)" for category
    by (simp add: IsErrorSuppressedByNolint_def add_suppression_def)
  ultimately show ?thesis
    by (simp add: Error_def ShouldPrintError_def) (simp add: add_suppression_def)
qed

theorem nolint_silences_line_witness:
  "\<exists>s'. ParseNolintSuppressions Error ''a.cc'' ''int x;  // NOLINTNEXTLINE'' 5 lint_init = Inr s' \<and>
     Error ''a.cc'' 6 ''whitespace/tab'' 1 ''Tab found'' s' = Inr s'"
proof -
  have "map_option m_caps (Search rx_nolint ''int x;  // NOLINTNEXTLINE'') = Some [(1, ''NEXTLINE'')]"
    by code_simp
  then obtain m where m: "Search rx_nolint ''int x;  // NOLINTNEXTLINE'' = Some m"
    and caps: "m_caps m = [(1, ''NEXTLINE'')]" by auto
  from caps have "grp m 2 = None" "grp m 1 \<noteq> None" by (simp_all add: grp_def)
  then have "grp m 2 = None \<or> grp m 2 = Some ''(*)''" "(6::int) = (if grp m 1 = None then 5 else 5 + 1)"
    by simp_all
  from nolint_silences_line [OF m this] show ?thesis by blast
qed

text \<open>
  C4: \<open>NOLINT(category)\<close> with a known category suppresses that
  category on its target line and nothing else: every other suppression question has the answer
  it had before.  With an unknown category that is not a legacy one, nothing is suppressed and
  the sink is told.
\<close>

theorem nolint_category_is_precise:
  assumes "Search rx_nolint raw_line = Some m" and "grp m 2 = Some (''('' @ category @ '')'')"
    and "category \<noteq> ''*''"
    and "target = (if grp m 1 = None then linenum else linenum + 1)"
  shows "(known_category category \<longrightarrow>
     (\<exists>s'. ParseNolintSuppressions error filename raw_line linenum s = Inr s' \<and>
       (\<forall>c l. IsErrorSuppressedByNolint c l s' \<longleftrightarrow>
          IsErrorSuppressedByNolint c l s \<or> (c = category \<and> l = target)))) \<and>
    (\<not> known_category category \<longrightarrow> category \<notin> set LEGACY_ERROR_CATEGORIES \<longrightarrow>
     ParseNolintSuppressions error filename raw_line linenum s =
       error filename linenum ''readability/nolint'' 5 (''Unknown NOLINT error category: '' @ category) s)"
proof -
  have w: "py_startswith (''('' @ category @ '')'') ''(''" "py_endswith (''('' @ category @ '')'') '')''"
    "butlast (tl (''('' @ category @ '')'')) = category" "''('' @ category @ '')'' \<noteq> ''(*)''"
    using assms(3) by (auto simp: py_startswith_def py_endswith_def)
  have 1: "\<exists>s'. ParseNolintSuppressions error filename raw_line linenum s = Inr s' \<and>
       (\<forall>c l. IsErrorSuppressedByNolint c l s' \<longleftrightarrow>
          IsErrorSuppressedByNolint c l s \<or> (c = category \<and> l = target))"
    if "known_category category"
  proof -
    have "ParseNolintSuppressions error filename raw_line linenum s = Inr (add_suppression (Some category) target s)"
      using assms(1,2,4) w that
      by (simp add: ParseNolintSuppressions_def known_category_def Let_def del: append.simps)
    moreover have "IsErrorSuppressedByNolint c l (add_suppression (Some category) target s) \<longleftrightarrow>
       IsErrorSuppressedByNolint c l s \<or> (c = category \<and> l = target)" for c l
      by (auto simp: IsErrorSuppressedByNolint_def add_suppression_def split: option.splits)
    ultimately show ?thesis by blast
  qed
  have 2: "ParseNolintSuppressions error filename raw_line linenum s =
       error filename linenum ''readability/nolint'' 5 (''Unknown NOLINT error category: '' @ category) s"
    if "\<not> known_category category" "category \<notin> set LEGACY_ERROR_CATEGORIES"
    using assms(1,2) w that
    by (simp add: ParseNolintSuppressions_def known_category_def Let_def del: append.simps)
  from 1 2 show ?thesis by blast
qed

theorem nolint_category_is_precise_witness:
  "\<exists>s'. ParseNolintSuppressions Error ''a.cc'' ''x;  // NOLINT(build/include)'' 5 lint_init = Inr s' \<and>
     (\<forall>c l. IsErrorSuppressedByNolint c l s' \<longleftrightarrow>
        IsErrorSuppressedByNolint c l lint_init \<or> (c = ''build/include'' \<and> l = 5))"
proof -
  have "map_option m_caps (Search rx_nolint ''x;  // NOLINT(build/include)'') = Some [(2, ''(build/include)'')]"
    by code_simp
  then obtain m where m: "Search rx_nolint ''x;  // NOLINT(build/include)'' = Some m"
    and caps: "m_caps m = [(2, ''(build/include)'')]" by auto
  from caps have "grp m 2 = Some (''('' @ ''build/include'' @ '')'')"
    "(5::int) = (if grp m 1 = None then 5 else 5 + 1)" by (simp_all add: grp_def)
  from nolint_category_is_precise [OF m this(1) _ this(2)] show ?thesis by simp
qed



end
