(* ===== verification/Cleansing.thy ===== *)
theory Cleansing
  imports Lint_State
begin

section \<open>Removing raw strings, comments and strings from the source lines\<close>

text \<open>
  \<open>CleanseRawStrings\<close>, \<open>RemoveMultiLineComments\<close>, \<open>CleanseComments\<close>, \<open>_CollapseStrings\<close> and
  the class \<open>CleansedLines\<close> of \<^verbatim>\<open>src/cpplint.py\<close>.  The loops of the source are recursive
  functions whose termination is proved; where the source would apply \<open>group\<close> to a failed
  match, the model raises \<open>AttributeError\<close>, and the theorems show that it never happens.
\<close>

subsection \<open>Patterns\<close>

definition rx_raw_open :: rx where
  "rx_raw_open = cats [Bol, Grp 1 (lazy_star Dot), WordB,
     alts [Lit ''R'', Lit ''u8R'', Lit ''uR'', Lit ''UR'', Lit ''LR''], Lit [dquote],
     Grp 2 (star (NSet [Sp, Ch ''()'', Ch [backslash]])), Lit ''('', Grp 3 any0, Eol]"

definition rx_comment_prefix :: rx where
  "rx_comment_prefix = cats [Bol, star (Grp 1 (alts [NSet [Ch [squote, dquote]],
     cats [Lit [squote], star (Grp 2 (alts [cats [Lit [backslash], Dot], NSet [Ch [squote]]])), Lit [squote]],
     cats [Lit [dquote], star (Grp 3 (alts [cats [Lit [backslash], Dot], NSet [Ch [dquote]]])), Lit [dquote]]])),
     Lit ''//'']"

definition rx_leading_space :: rx where
  "rx_leading_space = cats [Bol, Grp 1 sp0, Set [NSp]]"

definition RE_PATTERN_INCLUDE :: rx where
  "RE_PATTERN_INCLUDE = cats [Bol, sp0, Lit ''#'', sp0, Lit ''include'', sp0, Grp 1 (Set [Ch ''<'', Ch [dquote]]),
     Grp 2 (star (NSet [Ch ''>'', Ch [dquote]])), Set [Ch ''>'', Ch [dquote]], any0, Eol]"

definition RE_PATTERN_CLEANSE_LINE_ESCAPES :: rx where
  "RE_PATTERN_CLEANSE_LINE_ESCAPES = cats [Lit [backslash], Grp 1 (alts [
     Set [Ch ''abfnrtv?'', Ch [dquote, backslash, squote]], plus1 (Set [Dg]),
     cats [Lit ''x'', plus1 (Set [Rg (CHR ''0'') (CHR ''9''), Rg (CHR ''a'') (CHR ''f''), Rg (CHR ''A'') (CHR ''F'')])]])]"

definition RE_PATTERN_C_COMMENTS :: rx where
  "RE_PATTERN_C_COMMENTS = cats [Lit ''/*'',
     star (alts [NSet [Ch ''*''], cats [Lit ''*'', Look False (Lit ''/'')]]), Lit ''*/'']"

definition RE_PATTERN_CLEANSE_LINE_C_COMMENTS :: rx where
  "RE_PATTERN_CLEANSE_LINE_C_COMMENTS = Grp 1 (alts [
     cats [sp0, RE_PATTERN_C_COMMENTS, sp0, Eol],
     cats [RE_PATTERN_C_COMMENTS, sp1],
     cats [sp1, RE_PATTERN_C_COMMENTS, Look True (Set [NWd])],
     RE_PATTERN_C_COMMENTS])"

definition rx_first_quote :: rx where
  "rx_first_quote = cats [Bol, Grp 1 (star (NSet [Ch [squote, dquote]])), Grp 2 (Set [Ch [squote, dquote]]),
     Grp 3 any0, Eol]"

definition rx_digits_before :: rx where
  "rx_digits_before = cats [WordB, alts [cats [Lit ''0'', opt (Set [Ch ''bBxX''])], Set [Rg (CHR ''1'') (CHR ''9'')]],
     star (Set [Rg (CHR ''0'') (CHR ''9''), Rg (CHR ''a'') (CHR ''f''), Rg (CHR ''A'') (CHR ''F'')]), Eol]"

definition rx_literal :: rx where
  "rx_literal = cats [Bol, Grp 1 (star (cats [opt (Lit [squote]),
       Set [Rg (CHR ''0'') (CHR ''9''), Rg (CHR ''a'') (CHR ''z''), Rg (CHR ''A'') (CHR ''Z''), Ch ''_'']])),
     Grp 2 any0, Eol]"

subsection \<open>Strings and raw strings\<close>

definition IsCppString :: "string \<Rightarrow> bool" where
  "IsCppString line0 =
     (let line = py_replace [backslash, backslash] ''XX'' line0
      in odd (int (py_count [dquote] line) - int (py_count [backslash, dquote] line)
              - int (py_count [squote, dquote, squote] line)))"

abbreviation group :: "pmatch \<Rightarrow> nat \<Rightarrow> string" where
  "group m k \<equiv> the (grp m k)"

text \<open>Every group of the opening pattern takes part in a match; the groups are shorter than the line.\<close>

lemma raw_open_parts:
  assumes "Match rx_raw_open line = Some m"
  shows "\<exists>a d tail. grp m 1 = Some a \<and> grp m 2 = Some d \<and> grp m 3 = Some tail \<and>
     length a + length d + length tail + 3 \<le> length line"
proof -
  from Match_layout [OF assms [unfolded rx_raw_open_def]] show ?thesis
    by (auto simp: list_all2_Cons1 grp_def)
qed

text \<open>
  The inner loop of \<open>CleanseRawStrings\<close>: replace raw strings that start on this line.  The result
  is the line and, when a raw string is still open, its closing delimiter.
\<close>

function raw_strings_on_line :: "string \<Rightarrow> string \<times> string option" where
  "raw_strings_on_line line =
     (case Match rx_raw_open line of
        None \<Rightarrow> (line, None)
      | Some matched \<Rightarrow>
          if \<not> Matches rx_comment_prefix (group matched 1) then
            let delimiter = '')'' @ group matched 2 @ [dquote]
            in case py_find delimiter (group matched 3) of
                 Some pos \<Rightarrow>
                   raw_strings_on_line
                     (group matched 1 @ [dquote, dquote] @ drop (pos + length delimiter) (group matched 3))
               | None \<Rightarrow> (group matched 1 @ [dquote, dquote], Some delimiter)
          else (line, None))"
  by pat_completeness auto
termination
proof (relation "measure length")
  fix line m delimiter pos
  assume m: "Match rx_raw_open line = Some m" and d: "delimiter = '')'' @ group m 2 @ [dquote]"
    and pos: "py_find delimiter (group m 3) = Some pos"
  from raw_open_parts [OF m] d py_find_bound [OF pos]
  show "(group m 1 @ [dquote, dquote] @ drop (pos + length delimiter) (group m 3), line) \<in> measure length"
    by auto
qed simp

declare raw_strings_on_line.simps [simp del]

text \<open>One iteration of the outer loop: the delimiter we are waiting for, and the line.\<close>

definition raw_line_step :: "string option \<Rightarrow> string \<Rightarrow> (string \<times> string option) res" where
  "raw_line_step delimiter line =
     (case delimiter of
        None \<Rightarrow> Inr (raw_strings_on_line line)
      | Some d \<Rightarrow>
          (case py_find d line of
             Some pos \<Rightarrow>
               (case Match rx_leading_space line of
                  None \<Rightarrow> Inl AttributeError
                | Some leading_space \<Rightarrow>
                    Inr (raw_strings_on_line
                           (group leading_space 1 @ [dquote, dquote] @ drop (pos + length d) line)))
           | None \<Rightarrow> Inr ([dquote, dquote], Some d)))"

primrec raw_lines_loop :: "string option \<Rightarrow> string list \<Rightarrow> string list res" where
  "raw_lines_loop delimiter [] = Inr []"
| "raw_lines_loop delimiter (line # ls) =
     rbind (raw_line_step delimiter line) (\<lambda>(line', delimiter').
       rbind (raw_lines_loop delimiter' ls) (\<lambda>rest. Inr (line' # rest)))"

definition CleanseRawStrings :: "string list \<Rightarrow> string list res" where
  "CleanseRawStrings ls = raw_lines_loop None ls"

subsection \<open>Comments that span lines\<close>

function FindNextMultiLineCommentStart :: "string list \<Rightarrow> nat \<Rightarrow> nat" where
  "FindNextMultiLineCommentStart ls lineix =
     (if lineix < length ls
      then if py_startswith (py_strip (ls ! lineix)) ''/*'' \<and>
              py_find_from ''*/'' (py_strip (ls ! lineix)) 2 = None
           then lineix
           else FindNextMultiLineCommentStart ls (lineix + 1)
      else length ls)"
  by pat_completeness auto
termination
  by (relation "measure (\<lambda>(ls, lineix). length ls - lineix)") auto

function FindNextMultiLineCommentEnd :: "string list \<Rightarrow> nat \<Rightarrow> nat" where
  "FindNextMultiLineCommentEnd ls lineix =
     (if lineix < length ls
      then if py_endswith (py_strip (ls ! lineix)) ''*/'' then lineix
           else FindNextMultiLineCommentEnd ls (lineix + 1)
      else length ls)"
  by pat_completeness auto
termination
  by (relation "measure (\<lambda>(ls, lineix). length ls - lineix)") auto

declare FindNextMultiLineCommentStart.simps [simp del]
declare FindNextMultiLineCommentEnd.simps [simp del]

definition RemoveMultiLineCommentsFromRange :: "string list \<Rightarrow> nat \<Rightarrow> nat \<Rightarrow> string list" where
  "RemoveMultiLineCommentsFromRange ls begin_ix end_ix =
     fold (\<lambda>i ls. ls[i := ''/**/'']) [begin_ix..<end_ix] ls"

lemma FindNextMultiLineCommentStart_spec:
  "lineix \<le> length ls \<Longrightarrow>
   lineix \<le> FindNextMultiLineCommentStart ls lineix \<and> FindNextMultiLineCommentStart ls lineix \<le> length ls"
proof (induction ls lineix rule: FindNextMultiLineCommentStart.induct)
  case (1 ls lineix)
  then show ?case by (subst (1 2) FindNextMultiLineCommentStart.simps) auto
qed

lemma FindNextMultiLineCommentEnd_spec:
  "lineix \<le> length ls \<Longrightarrow>
   lineix \<le> FindNextMultiLineCommentEnd ls lineix \<and> FindNextMultiLineCommentEnd ls lineix \<le> length ls"
proof (induction ls lineix rule: FindNextMultiLineCommentEnd.induct)
  case (1 ls lineix)
  then show ?case by (subst (1 2) FindNextMultiLineCommentEnd.simps) auto
qed

lemma length_RemoveFromRange [simp]: "length (RemoveMultiLineCommentsFromRange ls b e) = length ls"
proof -
  have "length (fold (\<lambda>i ls. ls[i := ''/**/'']) is ls) = length ls" for "is"
    by (induction "is" arbitrary: ls) auto
  then show ?thesis by (simp add: RemoveMultiLineCommentsFromRange_def)
qed

text \<open>The lines are updated in place in the source; here they are returned with the state.\<close>

function remove_comments_loop :: "error_fn \<Rightarrow> string \<Rightarrow> nat \<Rightarrow> string list \<Rightarrow> lint \<Rightarrow> (string list \<times> lint) res" where
  "remove_comments_loop error filename lineix ls s =
     (if lineix < length ls then
        let lineix_begin = FindNextMultiLineCommentStart ls lineix
        in if lineix_begin \<ge> length ls then Inr (ls, s)
           else let lineix_end = FindNextMultiLineCommentEnd ls lineix_begin
                in if lineix_end \<ge> length ls
                   then rbind (error filename (int lineix_begin + 1) ''readability/multiline_comment'' 5
                                 ''Could not find end of multi-line comment'' s) (\<lambda>s'. Inr (ls, s'))
                   else remove_comments_loop error filename (lineix_end + 1)
                          (RemoveMultiLineCommentsFromRange ls lineix_begin (lineix_end + 1)) s
      else Inr (ls, s))"
  by pat_completeness auto
termination
proof (relation "measure (\<lambda>(error, filename, lineix, ls, s). length ls - lineix)")
  fix error :: error_fn and filename :: string and lineix ls and s :: lint and b e
  assume "lineix < length ls" and b: "b = FindNextMultiLineCommentStart ls lineix" "\<not> length ls \<le> b"
    and e: "e = FindNextMultiLineCommentEnd ls b"
  then have "lineix \<le> b" "b \<le> e"
    using FindNextMultiLineCommentStart_spec [of lineix ls] FindNextMultiLineCommentEnd_spec [of b ls] by auto
  with \<open>lineix < length ls\<close>
  show "((error, filename, e + 1, RemoveMultiLineCommentsFromRange ls b (e + 1), s), error, filename, lineix, ls, s)
      \<in> measure (\<lambda>(error, filename, lineix, ls, s). length ls - lineix)"
    by auto
qed simp

declare remove_comments_loop.simps [simp del]

definition RemoveMultiLineComments :: "error_fn \<Rightarrow> string \<Rightarrow> string list \<Rightarrow> lint \<Rightarrow> (string list \<times> lint) res" where
  "RemoveMultiLineComments error filename ls s = remove_comments_loop error filename 0 ls s"

definition CleanseComments :: "string \<Rightarrow> string" where
  "CleanseComments line =
     (let line' = (case py_find ''//'' line of
                     Some commentpos \<Rightarrow>
                       if \<not> IsCppString (take commentpos line) then py_rstrip (take commentpos line) else line
                   | None \<Rightarrow> line)
      in ReplaceAll RE_PATTERN_CLEANSE_LINE_C_COMMENTS [] line')"

subsection \<open>Collapsing strings\<close>

lemma first_quote_parts:
  assumes "Match rx_first_quote line = Some m"
  shows "\<exists>h q tail t. grp m 1 = Some h \<and> grp m 2 = Some [q] \<and> grp m 3 = Some tail \<and>
     line = h @ q # tail @ t \<and> q \<in> {squote, dquote} \<and> squote \<notin> set h \<and> dquote \<notin> set h \<and> newline \<notin> set tail"
proof -
  from Match_layout [OF assms [unfolded rx_first_quote_def]]
  obtain h q tail t where *: "line = h @ q # tail @ t" "m_caps m = [(3, tail), (2, [q]), (1, h)]"
    and h: "list_all (\<lambda>x. \<not> cset [Ch [squote, dquote]] x) h" and q: "cset [Ch [squote, dquote]] q"
    and t: "list_all (\<lambda>x. x \<noteq> newline) tail"
    by (auto simp: list_all2_Cons1 simp del: cset_Ch)
  from h have "squote \<notin> set h \<and> dquote \<notin> set h" by (auto simp: list_all_iff)
  moreover from q have "q \<in> {squote, dquote}" by simp
  moreover from t have "newline \<notin> set tail" by (auto simp: list_all_iff)
  moreover from *(2) have "grp m 1 = Some h" "grp m 2 = Some [q]" "grp m 3 = Some tail"
    by (simp_all add: grp_def)
  ultimately show ?thesis using *(1) by blast
qed

lemma literal_parts:
  assumes "Match rx_literal line = Some m"
  shows "\<exists>a b t. grp m 1 = Some a \<and> grp m 2 = Some b \<and> line = a @ b @ t"
proof -
  from Match_layout [OF assms [unfolded rx_literal_def]] show ?thesis
    by (auto simp: list_all2_Cons1 grp_def)
qed

lemma no_digits_before_empty: "\<not> Searches rx_digits_before []"
  by code_simp

text \<open>
  The loop of \<open>_CollapseStrings\<close>.  Every round takes at least one character off \<open>elided\<close>: a digit
  separator is only recognised after a non-empty \<open>head\<close>.
\<close>

function collapse_loop :: "string \<Rightarrow> string \<Rightarrow> string res" where
  "collapse_loop collapsed elided =
     (case Match rx_first_quote elided of
        None \<Rightarrow> Inr (collapsed @ elided)
      | Some m \<Rightarrow>
          if group m 2 = [dquote] then
            (case py_find [dquote] (group m 3) of
               Some second_quote \<Rightarrow>
                 collapse_loop (collapsed @ group m 1 @ [dquote, dquote]) (drop (second_quote + 1) (group m 3))
             | None \<Rightarrow> Inr (collapsed @ elided))
          else if Searches rx_digits_before (group m 1) then
            (case Match rx_literal (squote # group m 3) of
               None \<Rightarrow> Inl AttributeError
             | Some match_literal \<Rightarrow>
                 collapse_loop (collapsed @ group m 1 @ py_replace [squote] [] (group match_literal 1))
                   (group match_literal 2))
          else
            (case py_find [squote] (group m 3) of
               Some second_quote \<Rightarrow>
                 collapse_loop (collapsed @ group m 1 @ [squote, squote]) (drop (second_quote + 1) (group m 3))
             | None \<Rightarrow> Inr (collapsed @ elided)))"
  by pat_completeness auto
termination
proof (relation "measure (\<lambda>(collapsed, elided). length elided)")
  fix collapsed elided m p
  assume m: "Match rx_first_quote elided = Some m"
  from first_quote_parts [OF m]
  show "((collapsed @ group m 1 @ [dquote, dquote], drop (p + 1) (group m 3)), collapsed, elided)
          \<in> measure (\<lambda>(collapsed, elided). length elided)"
    and "((collapsed @ group m 1 @ [squote, squote], drop (p + 1) (group m 3)), collapsed, elided)
          \<in> measure (\<lambda>(collapsed, elided). length elided)" by auto
next
  fix collapsed elided m ml
  assume m: "Match rx_first_quote elided = Some m"
    and d: "Searches rx_digits_before (group m 1)"
    and ml: "Match rx_literal (squote # group m 3) = Some ml"
  from d no_digits_before_empty have "group m 1 \<noteq> []" by metis
  then have "0 < length (group m 1)" unfolding length_greater_0_conv .
  moreover from first_quote_parts [OF m] have "length elided \<ge> length (group m 1) + 1 + length (group m 3)" by auto
  moreover from literal_parts [OF ml] have "length (group ml 2) \<le> 1 + length (group m 3)"
    by (metis length_append length_Cons le_add1 le_add2 add.commute option.sel plus_1_eq_Suc trans_le_add2)
  ultimately have "length (group ml 2) < length elided" by linarith
  then show "((collapsed @ group m 1 @ py_replace [squote] [] (group ml 1), group ml 2), collapsed, elided)
          \<in> measure (\<lambda>(collapsed, elided). length elided)" by simp
qed simp

declare collapse_loop.simps [simp del]

definition CollapseStrings :: "string \<Rightarrow> string res" where
  "CollapseStrings line =
     (if Matches RE_PATTERN_INCLUDE line then Inr line
      else collapse_loop [] (ReplaceAll RE_PATTERN_CLEANSE_LINE_ESCAPES [] line))"

subsection \<open>The class \<open>CleansedLines\<close>\<close>

record CleansedLines =
  elided :: "string list"
  cl_lines :: "string list"
  raw_lines :: "string list"
  lines_without_raw_strings :: "string list"
  num_lines :: nat

definition CleansedLines_init :: "string list \<Rightarrow> CleansedLines res" where
  "CleansedLines_init ls =
     rbind (CleanseRawStrings ls) (\<lambda>raws.
       rbind (rmap (\<lambda>line. rbind (CollapseStrings line) (\<lambda>e. Inr (CleanseComments line, CleanseComments e))) raws)
         (\<lambda>pairs. Inr \<lparr>elided = map snd pairs, cl_lines = map fst pairs, raw_lines = ls,
                        lines_without_raw_strings = raws, num_lines = length ls\<rparr>))"

definition NumLines :: "CleansedLines \<Rightarrow> nat" where
  "NumLines c = num_lines c"

subsection \<open>Nothing is raised, and the four copies have the same length\<close>

lemma leading_space_matches:
  assumes "x \<in> set line" and "\<not> ascii_space x"
  shows "Match rx_leading_space line \<noteq> None"
proof -
  from assms have "dropWhile ascii_space line \<noteq> []" by (auto simp: dropWhile_eq_Nil_conv)
  then obtain c cs where c: "dropWhile ascii_space line = c # cs" by (cases "dropWhile ascii_space line") auto
  then have "\<not> ascii_space c" by (metis hd_dropWhile list.distinct(1) list.sel(1))
  define w where "w = takeWhile ascii_space line"
  have line: "line = w @ c # cs" using c by (metis takeWhile_dropWhile_id w_def)
  have w: "list_all ascii_space w" unfolding w_def by (metis list_all_iff set_takeWhileD)
  have 1: "MS [] (w @ c # cs) [] \<in> set (mt Bol (MS [] (w @ c # cs) []))" by simp
  have 2: "MS (rev w @ []) (c # cs) [(1, w)] \<in> set (mt (Grp 1 sp0) (MS [] (w @ c # cs) []))"
    by (intro mt_GrpI mt_starI [OF mt_one_fun(1)]) (simp add: w)
  have 3: "MS (c # rev w @ []) cs [(1, w)] \<in> set (mt (Set [NSp]) (MS (rev w @ []) (c # cs) [(1, w)]))"
    using \<open>\<not> ascii_space c\<close> by (simp add: cset_def)
  have "Matches rx_leading_space line"
    unfolding line rx_leading_space_def
    by (rule MatchesI [OF mt_catsI [OF 1 mt_catsI [OF 2 mt_catsI [OF 3 mt_cats_nil]]]])
  then show ?thesis by (simp add: Matches_def)
qed

lemma literal_matches:
  assumes "newline \<notin> set s"
  shows "Match rx_literal s \<noteq> None"
proof -
  define X where "X = cats [opt (Lit [squote]),
       Set [Rg (CHR ''0'') (CHR ''9''), Rg (CHR ''a'') (CHR ''z''), Rg (CHR ''A'') (CHR ''Z''), Ch ''_'']]"
  have "MS (rev [] @ []) s [] \<in> set (mt (star X) (MS [] ([] @ s) []))"
    using mt_star_self [of "MS [] s []"] by (simp del: mt.simps)
  then have "MS (rev [] @ []) s [(1, [])] \<in> set (mt (Grp 1 (star X)) (MS [] ([] @ s) []))"
    by (rule mt_GrpI)
  then have 2: "MS [] s [(1, [])] \<in> set (mt (Grp 1 (star X)) (MS [] s []))"
    by (simp del: mt.simps)
  have 1: "MS [] s [] \<in> set (mt Bol (MS [] s []))" by simp
  have "MS (rev s @ []) [] [(2, s), (1, [])] \<in> set (mt (Grp 2 any0) (MS [] (s @ []) [(1, [])]))"
    using assms by (intro mt_GrpI mt_starI [OF mt_one_fun(3)]) (auto simp: list_all_iff)
  then have 3: "MS (rev s) [] [(2, s), (1, [])] \<in> set (mt (Grp 2 any0) (MS [] s [(1, [])]))"
    by (simp del: mt.simps)
  have 4: "MS (rev s) [] [(2, s), (1, [])] \<in> set (mt Eol (MS (rev s) [] [(2, s), (1, [])]))" by simp
  have "Matches rx_literal s"
    unfolding rx_literal_def X_def [symmetric]
    by (rule MatchesI [OF mt_catsI [OF 1 mt_catsI [OF 2 mt_catsI [OF 3 mt_catsI [OF 4 mt_cats_nil]]]]])
  then show ?thesis by (simp add: Matches_def)
qed

lemma collapse_loop_returns: "returns (collapse_loop acc rest)"
proof (induction acc rest rule: collapse_loop.induct)
  case (1 acc rest)
  show ?case
  proof (cases "Match rx_first_quote rest")
    case None
    then show ?thesis by (simp add: collapse_loop.simps [of acc rest])
  next
    case (Some m)
    from first_quote_parts [OF Some] have "newline \<notin> set (squote # group m 3)" by auto
    from literal_matches [OF this] obtain ml where ml: "Match rx_literal (squote # group m 3) = Some ml" by auto
    show ?thesis
      using "1.IH" Some ml
      by (subst collapse_loop.simps) (auto split: option.split)
  qed
qed

lemma CollapseStrings_returns: "returns (CollapseStrings line)"
  by (simp add: CollapseStrings_def collapse_loop_returns)

text \<open>A pending delimiter always starts with a closing bracket.\<close>

lemma raw_strings_on_line_delimiter:
  "raw_strings_on_line line = (line', Some d) \<Longrightarrow> \<exists>d'. d = CHR '')'' # d'"
proof (induction line rule: raw_strings_on_line.induct)
  case (1 line)
  show ?case
  proof (cases "Match rx_raw_open line")
    case None
    with "1.prems" show ?thesis by (simp add: raw_strings_on_line.simps [of line])
  next
    case (Some m)
    with "1.prems" "1.IH" [OF Some] show ?thesis
      by (auto simp: raw_strings_on_line.simps [of line] Let_def split: if_splits option.splits)
  qed
qed

lemma raw_line_step_returns:
  assumes "\<forall>d. delimiter = Some d \<longrightarrow> (\<exists>d'. d = CHR '')'' # d')"
  shows "\<exists>line' delimiter'. raw_line_step delimiter line = Inr (line', delimiter') \<and>
     (\<forall>d. delimiter' = Some d \<longrightarrow> (\<exists>d'. d = CHR '')'' # d'))"
proof (cases delimiter)
  case None
  then show ?thesis
    by (cases "raw_strings_on_line line") (auto simp: raw_line_step_def raw_strings_on_line_delimiter)
next
  case (Some d)
  show ?thesis
  proof (cases "py_find d line")
    case None
    with Some assms show ?thesis by (simp add: raw_line_step_def)
  next
    case (Some pos)
    from assms \<open>delimiter = Some d\<close> obtain d' where "d = CHR '')'' # d'" by blast
    with py_find_Some [OF Some] have "CHR '')'' \<in> set line"
      by (metis in_set_conv_decomp append_Cons)
    then obtain m where m: "Match rx_leading_space line = Some m"
      using leading_space_matches [of "CHR '')''" line] by (auto simp: ascii_space_def)
    obtain l' d2 where "raw_strings_on_line (group m 1 @ [dquote, dquote] @ drop (pos + length d) line) = (l', d2)"
      by (cases "raw_strings_on_line (group m 1 @ [dquote, dquote] @ drop (pos + length d) line)")
    with \<open>delimiter = Some d\<close> Some m show ?thesis
      by (auto simp: raw_line_step_def raw_strings_on_line_delimiter)
  qed
qed

lemma raw_lines_loop_returns:
  "\<forall>d. delimiter = Some d \<longrightarrow> (\<exists>d'. d = CHR '')'' # d') \<Longrightarrow>
   \<exists>out. raw_lines_loop delimiter ls = Inr out \<and> length out = length ls"
proof (induction ls arbitrary: delimiter)
  case (Cons line ls)
  from raw_line_step_returns [OF Cons.prems, of line] obtain line' delimiter' where
    "raw_line_step delimiter line = Inr (line', delimiter')"
    "\<forall>d. delimiter' = Some d \<longrightarrow> (\<exists>d'. d = CHR '')'' # d')" by blast
  with Cons.IH [of delimiter'] show ?case by auto
qed simp

lemma CleansedLines_init_shape:
  "lands (\<lambda>c. raw_lines c = ls \<and> length (elided c) = length ls \<and> length (cl_lines c) = length ls \<and>
     length (lines_without_raw_strings c) = length ls \<and> num_lines c = length ls) (CleansedLines_init ls)"
proof -
  from raw_lines_loop_returns [of None ls] obtain raws where
    raws: "CleanseRawStrings ls = Inr raws" "length raws = length ls" by (auto simp: CleanseRawStrings_def)
  have "returns (rmap (\<lambda>line. rbind (CollapseStrings line) (\<lambda>e. Inr (CleanseComments line, CleanseComments e))) raws)"
    by (rule rmap_returns) (use CollapseStrings_returns in \<open>auto simp: returns_def rbind_Inr_iff\<close>)
  then obtain pairs where pairs:
    "rmap (\<lambda>line. rbind (CollapseStrings line) (\<lambda>e. Inr (CleanseComments line, CleanseComments e))) raws = Inr pairs"
    by (auto simp: returns_def)
  from rmap_length [OF pairs] raws pairs show ?thesis
    by (auto simp: CleansedLines_init_def)
qed

text \<open>
  C12: building \<open>CleansedLines\<close> never raises, whatever the lines contain, and
  the four copies of the lines have the same length, which is also \<open>NumLines\<close>, as the class comment
  promises.
\<close>

theorem cleansed_lines_total:
  "\<exists>c. CleansedLines_init ls = Inr c \<and> raw_lines c = ls \<and>
     length (elided c) = length ls \<and> length (cl_lines c) = length ls \<and>
     length (lines_without_raw_strings c) = length ls \<and> NumLines c = length ls"
  using CleansedLines_init_shape [of ls] by (auto simp: lands_def NumLines_def)

subsection \<open>What the comment removal leaves\<close>

definition starts_multiline :: "string \<Rightarrow> bool" where
  "starts_multiline line \<longleftrightarrow> py_startswith (py_strip line) ''/*'' \<and> py_find_from ''*/'' (py_strip line) 2 = None"

definition ends_multiline :: "string \<Rightarrow> bool" where
  "ends_multiline line \<longleftrightarrow> py_endswith (py_strip line) ''*/''"

lemma FindStart_unfold:
  "FindNextMultiLineCommentStart ls k =
     (if k < length ls then if starts_multiline (ls ! k) then k else FindNextMultiLineCommentStart ls (k + 1)
      else length ls)"
  unfolding starts_multiline_def by (rule FindNextMultiLineCommentStart.simps)

lemma FindEnd_unfold:
  "FindNextMultiLineCommentEnd ls k =
     (if k < length ls then if ends_multiline (ls ! k) then k else FindNextMultiLineCommentEnd ls (k + 1)
      else length ls)"
  unfolding ends_multiline_def by (rule FindNextMultiLineCommentEnd.simps)

lemma FindStart_first:
  "(let b = FindNextMultiLineCommentStart ls k
    in (\<forall>i. k \<le> i \<longrightarrow> i < b \<longrightarrow> \<not> starts_multiline (ls ! i)) \<and> (b < length ls \<longrightarrow> starts_multiline (ls ! b)))"
proof (induction ls k rule: FindNextMultiLineCommentStart.induct)
  case (1 ls k)
  show ?case
  proof (cases "k < length ls \<and> \<not> starts_multiline (ls ! k)")
    case True
    then have eq: "FindNextMultiLineCommentStart ls k = FindNextMultiLineCommentStart ls (k + 1)"
      by (simp add: FindStart_unfold [of ls k])
    have "\<not> (py_startswith (py_strip (ls ! k)) ''/*'' \<and> py_find_from ''*/'' (py_strip (ls ! k)) 2 = None)"
      using True by (simp add: starts_multiline_def)
    then have "(\<forall>i. k + 1 \<le> i \<longrightarrow> i < FindNextMultiLineCommentStart ls (k + 1) \<longrightarrow> \<not> starts_multiline (ls ! i)) \<and>
       (FindNextMultiLineCommentStart ls (k + 1) < length ls \<longrightarrow>
          starts_multiline (ls ! FindNextMultiLineCommentStart ls (k + 1)))"
      using "1.IH" True unfolding Let_def by blast
    moreover have "k + 1 \<le> i" if "k \<le> i" "starts_multiline (ls ! i)" for i
      using that True by (cases "i = k") auto
    ultimately show ?thesis unfolding eq Let_def by blast
  next
    case False
    then show ?thesis by (auto simp: Let_def FindStart_unfold [of ls k])
  qed
qed

lemma FindEnd_first:
  "\<forall>i. k \<le> i \<longrightarrow> i < FindNextMultiLineCommentEnd ls k \<longrightarrow> \<not> ends_multiline (ls ! i)"
proof (induction ls k rule: FindNextMultiLineCommentEnd.induct)
  case (1 ls k)
  show ?case
  proof (cases "k < length ls \<and> \<not> ends_multiline (ls ! k)")
    case True
    then have eq: "FindNextMultiLineCommentEnd ls k = FindNextMultiLineCommentEnd ls (k + 1)"
      by (simp add: FindEnd_unfold [of ls k])
    have "\<forall>i. k + 1 \<le> i \<longrightarrow> i < FindNextMultiLineCommentEnd ls (k + 1) \<longrightarrow> \<not> ends_multiline (ls ! i)"
      using 1 True by (simp add: ends_multiline_def)
    moreover have "k + 1 \<le> i" if "k \<le> i" "ends_multiline (ls ! i)" for i
      using that True by (cases "i = k") auto
    ultimately show ?thesis unfolding eq by blast
  next
    case False
    then show ?thesis by (auto simp: FindEnd_unfold [of ls k])
  qed
qed

lemma RemoveFromRange_nth:
  "i < length ls \<Longrightarrow>
   RemoveMultiLineCommentsFromRange ls b e ! i = (if b \<le> i \<and> i < e then ''/**/'' else ls ! i)"
proof -
  have "i < length ls \<Longrightarrow> fold (\<lambda>i ls. ls[i := w]) xs ls ! i = (if i \<in> set xs then w else ls ! i)"
    for w :: string and xs
    by (induction xs arbitrary: ls) (auto simp: nth_list_update)
  then show "i < length ls \<Longrightarrow> ?thesis" by (simp add: RemoveMultiLineCommentsFromRange_def)
qed

lemma blanked_line_starts_nothing: "\<not> starts_multiline ''/**/''"
  by code_simp

lemma remove_comments_loop_spec:
  assumes "k \<le> length ls" and "\<forall>i < k. \<not> starts_multiline (ls ! i)"
  shows "\<exists>out. length out = length ls \<and> (\<forall>i < length ls. out ! i = ls ! i \<or> out ! i = ''/**/'') \<and>
    ((remove_comments_loop error filename k ls s = Inr (out, s) \<and> (\<forall>i < length ls. \<not> starts_multiline (out ! i))) \<or>
     (\<exists>b < length ls. starts_multiline (out ! b) \<and> (\<forall>i < b. \<not> starts_multiline (out ! i)) \<and>
        (\<forall>i. b \<le> i \<longrightarrow> i < length ls \<longrightarrow> \<not> ends_multiline (out ! i)) \<and>
        remove_comments_loop error filename k ls s =
          rbind (error filename (int b + 1) ''readability/multiline_comment'' 5
                   ''Could not find end of multi-line comment'' s) (\<lambda>s'. Inr (out, s'))))"
  using assms
proof (induction "length ls - k" arbitrary: k ls rule: less_induct)
  case less
  define b where "b = FindNextMultiLineCommentStart ls k"
  define e where "e = FindNextMultiLineCommentEnd ls b"
  have kb: "k \<le> b" "b \<le> length ls"
    using FindNextMultiLineCommentStart_spec [of k ls] less.prems(1) by (auto simp: b_def)
  have be: "b \<le> e" "e \<le> length ls"
    using FindNextMultiLineCommentEnd_spec [of b ls] kb(2) by (auto simp: e_def)
  have none: "\<forall>i < b. \<not> starts_multiline (ls ! i)"
    using FindStart_first [of ls k] less.prems(2) unfolding Let_def b_def by (meson not_le)
  show ?case
  proof (cases "b < length ls")
    case False
    then have "remove_comments_loop error filename k ls s = Inr (ls, s)"
      using kb by (subst remove_comments_loop.simps) (simp add: b_def [symmetric])
    with none False kb show ?thesis by (intro exI [of _ ls]) simp
  next
    case True
    have start: "starts_multiline (ls ! b)" using FindStart_first [of ls k] True by (simp add: Let_def b_def)
    show ?thesis
    proof (cases "e < length ls")
      case False
      then have "remove_comments_loop error filename k ls s =
          rbind (error filename (int b + 1) ''readability/multiline_comment'' 5
                   ''Could not find end of multi-line comment'' s) (\<lambda>s'. Inr (ls, s'))"
        using True kb by (subst remove_comments_loop.simps) (simp add: b_def [symmetric] e_def [symmetric])
      moreover have "\<forall>i. b \<le> i \<longrightarrow> i < length ls \<longrightarrow> \<not> ends_multiline (ls ! i)"
        using FindEnd_first [of b ls] False be by (auto simp: e_def)
      ultimately show ?thesis using none start True by (intro exI [of _ ls]) auto
    next
      case closed: True
      define ls' where "ls' = RemoveMultiLineCommentsFromRange ls b (e + 1)"
      have len: "length ls' = length ls" by (simp add: ls'_def)
      have nth: "ls' ! i = (if b \<le> i \<and> i < e + 1 then ''/**/'' else ls ! i)" if "i < length ls" for i
        using that by (simp add: ls'_def RemoveFromRange_nth)
      have "remove_comments_loop error filename k ls s = remove_comments_loop error filename (e + 1) ls' s"
        using True closed kb
        by (subst remove_comments_loop.simps) (simp add: b_def [symmetric] e_def [symmetric] ls'_def)
      moreover have "\<forall>i < e + 1. \<not> starts_multiline (ls' ! i)"
        using none nth closed blanked_line_starts_nothing by (auto simp: not_le)
      moreover have "length ls' - (e + 1) < length ls - k" using len closed kb be by linarith
      moreover have "e + 1 \<le> length ls'" using closed len by simp
      ultimately obtain out where out: "length out = length ls"
        "\<forall>i < length ls. out ! i = ls' ! i \<or> out ! i = ''/**/''"
        "(remove_comments_loop error filename k ls s = Inr (out, s) \<and> (\<forall>i < length ls. \<not> starts_multiline (out ! i))) \<or>
         (\<exists>b < length ls. starts_multiline (out ! b) \<and> (\<forall>i < b. \<not> starts_multiline (out ! i)) \<and>
            (\<forall>i. b \<le> i \<longrightarrow> i < length ls \<longrightarrow> \<not> ends_multiline (out ! i)) \<and>
            remove_comments_loop error filename k ls s =
              rbind (error filename (int b + 1) ''readability/multiline_comment'' 5
                       ''Could not find end of multi-line comment'' s) (\<lambda>s'. Inr (out, s')))"
        using less.hyps [of ls' "e + 1"] len by auto
      from out(2) nth have "\<forall>i < length ls. out ! i = ls ! i \<or> out ! i = ''/**/''" by metis
      with out(1,3) show ?thesis by blast
    qed
  qed
qed



subsection \<open>What the removal of line comments leaves\<close>

lemma not_IsCppString: "dquote \<notin> set line \<Longrightarrow> \<not> IsCppString line"
proof -
  assume n: "dquote \<notin> set line"
  define l where "l = py_replace [backslash, backslash] ''XX'' line"
  have "dquote \<notin> set l" using n set_py_replace [of "[backslash, backslash]" "''XX''" line] by (auto simp: l_def)
  then have c: "py_count w l = 0" if "dquote \<in> set w" for w
    using that by (intro py_count_absent sublist_absent_char [of dquote]) auto
  have "py_count [dquote] l = 0" "py_count [backslash, dquote] l = 0" "py_count [squote, dquote, squote] l = 0"
    by (rule c, simp)+
  then show ?thesis by (simp add: IsCppString_def Let_def l_def)
qed

lemma py_rstrip_prefix: "prefix (py_rstrip s) s"
proof -
  have "rev s = takeWhile py_space (rev s) @ dropWhile py_space (rev s)" by simp
  then have "s = rev (dropWhile py_space (rev s)) @ rev (takeWhile py_space (rev s))"
    by (metis rev_append rev_rev_ident)
  then show ?thesis unfolding py_rstrip_def by (metis prefixI)
qed

lemma no_sublist_prefix: "prefix a b \<Longrightarrow> \<not> sublist w b \<Longrightarrow> \<not> sublist w a"
  using prefix_imp_sublist sublist_order.order_trans by blast

lemma comments_need_opening: "needs ''/*'' RE_PATTERN_CLEANSE_LINE_C_COMMENTS"
  by (simp add: RE_PATTERN_CLEANSE_LINE_C_COMMENTS_def RE_PATTERN_C_COMMENTS_def)

text \<open>
  On a line without double quotes and without \<^verbatim>\<open>/*\<close>,
  \<open>CleanseComments\<close> cuts at the first \<^verbatim>\<open>//\<close> and strips white space before it; a line without
  \<^verbatim>\<open>//\<close> is left alone.  The result contains no \<^verbatim>\<open>//\<close>.
\<close>

lemma cleanse_comments_spec:
  assumes "dquote \<notin> set line" and "\<not> sublist ''/*'' line"
  shows "CleanseComments line =
      (case py_find ''//'' line of None \<Rightarrow> line | Some i \<Rightarrow> py_rstrip (take i line)) \<and>
     \<not> sublist ''//'' (CleanseComments line)"
proof -
  have cut: "\<not> IsCppString (take i line)" for i
    using assms(1) by (intro not_IsCppString) (meson in_set_takeD)
  have sub: "ReplaceAll RE_PATTERN_CLEANSE_LINE_C_COMMENTS [] l = l" if "prefix l line" for l
    using needs_no_sub [OF comments_need_opening no_sublist_prefix [OF that assms(2)]]
    by (simp add: ReplaceAll_def sub_with_def)
  have pre: "prefix (py_rstrip (take i line)) line" for i
    using py_rstrip_prefix take_is_prefix prefix_order.order_trans by blast
  have eq: "CleanseComments line =
      (case py_find ''//'' line of None \<Rightarrow> line | Some i \<Rightarrow> py_rstrip (take i line))"
    by (auto simp: CleanseComments_def cut sub pre split: option.split)
  have "\<not> sublist ''//'' (CleanseComments line)"
  proof (cases "py_find ''//'' line")
    case None
    then show ?thesis by (simp add: eq py_find_None_iff [symmetric])
  next
    case (Some i)
    have "\<not> sublist ''//'' (take i line)"
    proof
      assume "sublist ''//'' (take i line)"
      then obtain u v where uv: "take i line = u @ ''//'' @ v" by (auto simp: sublist_def)
      then have "length (take i line) = length u + 2 + length v" by simp
      then have "length u < i" by simp
      have "line = u @ ''//'' @ v @ drop i line"
        using uv append_take_drop_id [of i line] by (metis append.assoc)
      then have "drop (length u) line = ''//'' @ v @ drop i line"
        by (metis append_eq_conv_conj)
      then have "prefix ''//'' (drop (length u) line)" by (metis prefixI)
      with \<open>length u < i\<close> show False using py_find_least [OF Some] by blast
    qed
    then show ?thesis
      using Some no_sublist_prefix [OF py_rstrip_prefix] by (simp add: eq)
  qed
  with eq show ?thesis by blast
qed

lemma cleanse_comments_spec_example:
  "CleanseComments ''int x;  // note'' = ''int x;''"
proof -
  have "dquote \<notin> set ''int x;  // note''" "\<not> sublist ''/*'' ''int x;  // note''"
    unfolding py_find_None_iff [symmetric] by code_simp+
  from cleanse_comments_spec [OF this]
  have "CleanseComments ''int x;  // note'' =
    (case py_find ''//'' ''int x;  // note'' of None \<Rightarrow> ''int x;  // note''
     | Some i \<Rightarrow> py_rstrip (take i ''int x;  // note''))" by (rule conjunct1)
  also have "\<dots> = ''int x;''" by code_simp
  finally show ?thesis .
qed

subsection \<open>What collapsing leaves of string literals\<close>

text \<open>
  The line cut at its double quotes: the pieces at even positions lie outside strings.  Each
  closed string is replaced by an empty one; a string without end is left as it is.
\<close>

fun outside_strings :: "string list \<Rightarrow> string" where
  "outside_strings [] = []"
| "outside_strings [h] = h"
| "outside_strings [h, c] = h @ [dquote] @ c"
| "outside_strings (h # c # rs) = h @ [dquote, dquote] @ outside_strings rs"

lemma first_quote_found:
  assumes "squote \<notin> set h" "dquote \<notin> set h" "newline \<notin> set tail"
  shows "\<exists>m. Match rx_first_quote (h @ dquote # tail) = Some m \<and>
     grp m 1 = Some h \<and> grp m 2 = Some [dquote] \<and> grp m 3 = Some tail"
proof -
  let ?st1 = "MS (rev h @ []) (dquote # tail) [(1, h)]"
  let ?st2 = "MS (rev [dquote] @ rev h @ []) tail [(2, [dquote]), (1, h)]"
  let ?st3 = "MS (rev tail @ dquote # rev h) [] [(3, tail), (2, [dquote]), (1, h)]"
  have 1: "leads Bol (MS [] (h @ dquote # tail) []) (MS [] (h @ dquote # tail) [])" by simp
  have 2: "leads (Grp 1 (star (NSet [Ch [squote, dquote]]))) (MS [] (h @ dquote # tail) []) ?st1"
    using assms by (intro leads_Grp leads_star [OF mt_one_fun(2)]) (auto simp: list_all_iff)
  have "leads (Grp 2 (Set [Ch [squote, dquote]])) (MS (rev h @ []) ([dquote] @ tail) [(1, h)]) ?st2"
    by (rule leads_Grp) simp
  then have 3: "leads (Grp 2 (Set [Ch [squote, dquote]])) ?st1 ?st2" by simp
  have "leads (Grp 3 any0) (MS (dquote # rev h) (tail @ []) [(2, [dquote]), (1, h)]) ?st3"
    using assms(3) by (intro leads_Grp leads_star [OF mt_one_fun(3)]) (auto simp: list_all_iff)
  then have 4: "leads (Grp 3 any0) ?st2 ?st3" by simp
  have 5: "leads Eol ?st3 ?st3" by simp
  have "leads rx_first_quote (MS [] (h @ dquote # tail) []) ?st3"
    unfolding rx_first_quote_def
    by (rule leads_cats [OF 1 leads_cats [OF 2 leads_cats [OF 3 leads_cats [OF 4 leads_cats [OF 5 leads_cats_nil]]]]])
  from Match_leads [OF this] show ?thesis by (auto simp: grp_def)
qed

lemma split_on_decomp:
  "py_split_on d s = h # rs \<Longrightarrow> d \<notin> set h \<and> (if rs = [] then s = h else \<exists>t. s = h @ d # t \<and> py_split_on d t = rs)"
proof (induction s arbitrary: h rs)
  case (Cons c cs)
  show ?case
  proof (cases "c = d")
    case True
    with Cons.prems show ?thesis by auto
  next
    case False
    with Cons.prems obtain w ws where w: "py_split_on d cs = w # ws" "h = c # w" "rs = ws"
      by (auto split: list.splits)
    from Cons.IH [OF w(1)] w False show ?thesis by auto
  qed
qed auto

lemma py_find_char: "c \<notin> set h \<Longrightarrow> py_find [c] (h @ c # t) = Some (length h)"
  by (induction h) auto

lemma py_find_no_char: "c \<notin> set h \<Longrightarrow> py_find [c] h = None"
  by (simp add: py_find_None_iff sublist_absent_char)

lemma collapse_loop_strings:
  "squote \<notin> set line \<Longrightarrow> newline \<notin> set line \<Longrightarrow>
   collapse_loop acc line = Inr (acc @ outside_strings (py_split_on dquote line))"
proof (induction "py_split_on dquote line" arbitrary: acc line rule: outside_strings.induct)
  case 1
  then show ?case by (metis py_split_on_nonempty)
next
  case (2 h)
  note seg = 2(1) [symmetric]
  from seg have line: "line = h" "dquote \<notin> set h" using split_on_decomp [of dquote line h "[]"] by auto
  then have "Match rx_first_quote line = None"
    using first_quote_parts [of line] 2(2) by (cases "Match rx_first_quote line") auto
  then have "collapse_loop acc line = Inr (acc @ line)" by (simp add: collapse_loop.simps)
  then show ?case unfolding seg by (simp add: line)
next
  case (3 h c)
  note seg = 3(1) [symmetric]
  from seg split_on_decomp [of dquote line h "[c]"] obtain t
    where t: "line = h @ dquote # t" "dquote \<notin> set h" "py_split_on dquote t = [c]" by auto
  with split_on_decomp [of dquote t c "[]"] have c: "t = c" "dquote \<notin> set c" by auto
  from 3(2,3) t obtain m where "Match rx_first_quote line = Some m" "grp m 1 = Some h"
    "grp m 2 = Some [dquote]" "grp m 3 = Some t" using first_quote_found [of h t] by auto
  with c have "collapse_loop acc line = Inr (acc @ line)"
    by (subst collapse_loop.simps) (simp add: py_find_no_char)
  then show ?case unfolding seg by (simp add: t(1) c)
next
  case (4 h c r rs)
  note seg = 4(2) [symmetric]
  from seg split_on_decomp [of dquote line h "c # r # rs"] obtain t
    where t: "line = h @ dquote # t" "dquote \<notin> set h" "py_split_on dquote t = c # r # rs" by auto
  from t(3) split_on_decomp [of dquote t c "r # rs"] obtain u
    where u: "t = c @ dquote # u" "dquote \<notin> set c" "py_split_on dquote u = r # rs" by auto
  from 4(3,4) t obtain m where m: "Match rx_first_quote line = Some m" "grp m 1 = Some h"
    "grp m 2 = Some [dquote]" "grp m 3 = Some t" using first_quote_found [of h t] by auto
  have "collapse_loop acc line = collapse_loop (acc @ h @ [dquote, dquote]) u"
    using m u by (subst collapse_loop.simps) (simp add: py_find_char)
  also have "\<dots> = Inr ((acc @ h @ [dquote, dquote]) @ outside_strings (py_split_on dquote u))"
    using 4(3,4) t(1) u(1) by (intro 4(1)) (simp_all add: u(3))
  finally show ?case unfolding seg u(3) by simp
qed



end
