(* ===== verification/Expressions.thy ===== *)
theory Expressions
  imports Cleansing
begin

section \<open>Matching brackets across lines\<close>

text \<open>
  \<open>FindEndOfExpressionInLine\<close>, \<open>CloseExpression\<close>, \<open>FindStartOfExpressionInLine\<close> and
  \<open>ReverseCloseExpression\<close> of \<^verbatim>\<open>src/cpplint.py\<close>.  The nesting stack of the source, a list that
  grows at its end, is a string whose head is the top.  A result is a pair of an end position
  (\<open>-1\<close> when there is none) and the stack, \<open>None\<close> where the source returns None.

  The second half defines balanced text and shows that, in files without angle brackets, the
  two searches find exactly the bracketed piece of text that starts, or ends, where they are
  asked to look, and that one undoes the other.
\<close>

type_synonym scan_result = "int \<times> string option"

definition rx_operator_end :: rx where
  "rx_operator_end = cats [WordB, Lit ''operator'', sp0, Eol]"

definition rx_shift_or_le :: rx where
  "rx_shift_or_le = cats [Lit ''<'', Set [Ch ''<='']]"

definition rx_spaced_ge :: rx where
  "rx_spaced_ge = cats [Set [Sp], Lit ''>='', Set [Sp]]"

definition pairs :: "char \<Rightarrow> char \<Rightarrow> bool" where
  "pairs a b \<longleftrightarrow> (a = CHR ''('' \<and> b = CHR '')'') \<or> (a = CHR ''['' \<and> b = CHR '']'') \<or> (a = CHR ''{'' \<and> b = CHR ''}'')"

text \<open>\<open>while stack and stack[-1] == c: stack.pop()\<close>\<close>

definition pop_while :: "char \<Rightarrow> string \<Rightarrow> string" where
  "pop_while c stack = dropWhile (\<lambda>x. x = c) stack"

subsection \<open>Searching forward\<close>

text \<open>The body of the loop: \<open>Inl\<close> is an early return, \<open>Inr\<close> the stack for the next iteration.\<close>

definition end_step :: "string \<Rightarrow> nat \<Rightarrow> string \<Rightarrow> scan_result + string" where
  "end_step line i stack =
     (let char = line ! i in
      if char \<in> set ''([{'' then Inr (char # stack)
      else if char = CHR ''<'' then
        (if 0 < i \<and> line ! (i - 1) = CHR ''<'' then
           (if stack \<noteq> [] \<and> hd stack = CHR ''<'' then
              (if tl stack = [] then Inl (-1, None) else Inr (tl stack))
            else Inr stack)
         else if 0 < i \<and> Searches rx_operator_end (take i line) then Inr stack
         else Inr (CHR ''<'' # stack))
      else if char \<in> set '')]}'' then
        (let stack = pop_while (CHR ''<'') stack in
         if stack = [] then Inl (-1, None)
         else if pairs (hd stack) char then
           (if tl stack = [] then Inl (int i + 1, None) else Inr (tl stack))
         else Inl (-1, None))
      else if char = CHR ''>'' then
        (if 0 < i \<and> (line ! (i - 1) = CHR ''-'' \<or> Searches rx_operator_end (take (i - 1) line)) then Inr stack
         else if stack \<noteq> [] \<and> hd stack = CHR ''<'' then
           (if tl stack = [] then Inl (int i + 1, None) else Inr (tl stack))
         else Inr stack)
      else if char = CHR '';'' then
        (let stack = pop_while (CHR ''<'') stack in if stack = [] then Inl (-1, None) else Inr stack)
      else Inr stack)"

primrec end_loop :: "string \<Rightarrow> nat list \<Rightarrow> string \<Rightarrow> scan_result" where
  "end_loop line [] stack = (-1, Some stack)"
| "end_loop line (i # is) stack =
     (case end_step line i stack of Inl r \<Rightarrow> r | Inr stack' \<Rightarrow> end_loop line is stack')"

definition FindEndOfExpressionInLine :: "string \<Rightarrow> nat \<Rightarrow> string \<Rightarrow> scan_result" where
  "FindEndOfExpressionInLine line startpos stack = end_loop line [startpos..<length line] stack"

text \<open>\<open>while stack and ...\<close> goes on with a stack that is neither None nor empty.\<close>

definition pending :: "string option \<Rightarrow> bool" where
  "pending stack \<longleftrightarrow> stack \<noteq> None \<and> stack \<noteq> Some []"

function close_loop :: "CleansedLines \<Rightarrow> string \<Rightarrow> nat \<Rightarrow> string option \<Rightarrow> (string \<times> nat \<times> int) res" where
  "close_loop cl line linenum stack =
     (if pending stack \<and> linenum + 1 < NumLines cl then
        rbind (py_idx (elided cl) (int (linenum + 1))) (\<lambda>line'.
          case FindEndOfExpressionInLine line' 0 (the stack) of
            (end_pos, stack') \<Rightarrow>
              if end_pos > -1 then Inr (line', linenum + 1, end_pos)
              else close_loop cl line' (linenum + 1) stack')
      else Inr (line, NumLines cl, -1))"
  by pat_completeness auto
termination
  by (relation "measure (\<lambda>(cl, line, linenum, stack). NumLines cl - linenum)") auto

declare close_loop.simps [simp del]

definition CloseExpression :: "CleansedLines \<Rightarrow> nat \<Rightarrow> nat \<Rightarrow> (string \<times> nat \<times> int) res" where
  "CloseExpression cl linenum pos =
     rbind (py_idx (elided cl) (int linenum)) (\<lambda>line.
     rbind (py_idx line (int pos)) (\<lambda>c.
       if c \<notin> set ''({[<'' \<or> Matches rx_shift_or_le (drop pos line) then Inr (line, NumLines cl, -1)
       else case FindEndOfExpressionInLine line pos [] of
              (end_pos, stack) \<Rightarrow>
                if end_pos > -1 then Inr (line, linenum, end_pos) else close_loop cl line linenum stack))"

subsection \<open>Searching backward\<close>

text \<open>The flag in the result says that the body has decremented the index once more.\<close>

definition start_step :: "string \<Rightarrow> nat \<Rightarrow> string \<Rightarrow> scan_result + (bool \<times> string)" where
  "start_step line i stack =
     (let char = line ! i in
      if char \<in> set '')]}'' then Inr (False, char # stack)
      else if char = CHR ''>'' then
        (if 0 < i \<and> (line ! (i - 1) = CHR ''-'' \<or> Matches rx_spaced_ge (drop (i - 1) line) \<or>
                     Searches rx_operator_end (take i line))
         then Inr (True, stack)
         else Inr (False, CHR ''>'' # stack))
      else if char = CHR ''<'' then
        (if 0 < i \<and> line ! (i - 1) = CHR ''<'' then Inr (True, stack)
         else if stack \<noteq> [] \<and> hd stack = CHR ''>'' then
           (if tl stack = [] then Inl (int i, None) else Inr (False, tl stack))
         else Inr (False, stack))
      else if char \<in> set ''([{'' then
        (let stack = pop_while (CHR ''>'') stack in
         if stack = [] then Inl (-1, None)
         else if pairs char (hd stack) then
           (if tl stack = [] then Inl (int i, None) else Inr (False, tl stack))
         else Inl (-1, None))
      else if char = CHR '';'' then
        (let stack = pop_while (CHR ''>'') stack in if stack = [] then Inl (-1, None) else Inr (False, stack))
      else Inr (False, stack))"

text \<open>\<open>start_loop line n stack\<close> runs the loop from index \<open>n - 1\<close> downwards.\<close>

fun start_loop :: "string \<Rightarrow> nat \<Rightarrow> string \<Rightarrow> scan_result" where
  "start_loop line 0 stack = (-1, Some stack)"
| "start_loop line (Suc i) stack =
     (case start_step line i stack of
        Inl r \<Rightarrow> r
      | Inr (skip, stack') \<Rightarrow> start_loop line (if skip then i - 1 else i) stack')"

definition FindStartOfExpressionInLine :: "string \<Rightarrow> int \<Rightarrow> string \<Rightarrow> scan_result" where
  "FindStartOfExpressionInLine line endpos stack = start_loop line (nat (endpos + 1)) stack"

fun reverse_loop :: "CleansedLines \<Rightarrow> string \<Rightarrow> nat \<Rightarrow> string option \<Rightarrow> (string \<times> nat \<times> int) res" where
  "reverse_loop cl line 0 stack = Inr (line, 0, -1)"
| "reverse_loop cl line (Suc linenum) stack =
     (if pending stack then
        rbind (py_idx (elided cl) (int linenum)) (\<lambda>line'.
          case FindStartOfExpressionInLine line' (int (length line') - 1) (the stack) of
            (start_pos, stack') \<Rightarrow>
              if start_pos > -1 then Inr (line', linenum, start_pos)
              else reverse_loop cl line' linenum stack')
      else Inr (line, 0, -1))"

declare reverse_loop.simps [simp del]

definition ReverseCloseExpression :: "CleansedLines \<Rightarrow> nat \<Rightarrow> nat \<Rightarrow> (string \<times> nat \<times> int) res" where
  "ReverseCloseExpression cl linenum pos =
     rbind (py_idx (elided cl) (int linenum)) (\<lambda>line.
     rbind (py_idx line (int pos)) (\<lambda>c.
       if c \<notin> set '')}]>'' then Inr (line, 0, -1)
       else case FindStartOfExpressionInLine line (int pos) [] of
              (start_pos, stack) \<Rightarrow>
                if start_pos > -1 then Inr (line, linenum, start_pos) else reverse_loop cl line linenum stack))"

subsection \<open>Where a search can end\<close>

definition closes_with :: "char \<Rightarrow> char \<Rightarrow> bool" where
  "closes_with a b \<longleftrightarrow> pairs a b \<or> (a = CHR ''<'' \<and> b = CHR ''>'')"

lemma pop_while_last: "stack \<noteq> [] \<Longrightarrow> pop_while c stack \<noteq> [] \<Longrightarrow> last (pop_while c stack) = last stack"
  unfolding pop_while_def by (induction stack) auto

lemma last_tl: "xs \<noteq> [] \<Longrightarrow> tl xs \<noteq> [] \<Longrightarrow> last (tl xs) = last xs"
  by (cases xs) auto

lemma hd_last: "xs \<noteq> [] \<Longrightarrow> tl xs = [] \<Longrightarrow> last xs = hd xs"
  by (cases xs) auto

lemma end_step_stack:
  assumes "stack \<noteq> []"
  shows "case end_step line i stack of
      Inl (e, st) \<Rightarrow> st = None \<and> (e = -1 \<or> (e = int i + 1 \<and> closes_with (last stack) (line ! i)))
    | Inr stack' \<Rightarrow> stack' \<noteq> [] \<and> last stack' = last stack"
proof -
  let ?p = "pop_while (CHR ''<'') stack"
  have "?p \<noteq> [] \<Longrightarrow> last ?p = last stack" using assms by (rule pop_while_last)
  moreover have "?p \<noteq> [] \<Longrightarrow> tl ?p \<noteq> [] \<Longrightarrow> last (tl ?p) = last ?p" by (rule last_tl)
  moreover have "?p \<noteq> [] \<Longrightarrow> tl ?p = [] \<Longrightarrow> last ?p = hd ?p" by (rule hd_last)
  moreover have "tl stack \<noteq> [] \<Longrightarrow> last (tl stack) = last stack" using assms by (rule last_tl)
  moreover have "tl stack = [] \<Longrightarrow> last stack = hd stack" using assms by (rule hd_last)
  ultimately show ?thesis using assms
    by (simp add: end_step_def Let_def closes_with_def split: if_splits)
qed

lemma end_loop_stack:
  assumes "stack \<noteq> []" and "end_loop line is stack = (e, st)"
  shows "(e = -1 \<and> (st \<noteq> None \<longrightarrow> the st \<noteq> [] \<and> last (the st) = last stack)) \<or>
     (\<exists>i \<in> set is. e = int i + 1 \<and> closes_with (last stack) (line ! i))"
  using assms
proof (induction "is" arbitrary: stack)
  case (Cons i "is")
  show ?case
  proof (cases "end_step line i stack")
    case (Inl r)
    with Cons.prems end_step_stack [OF Cons.prems(1), where line = line and i = i] show ?thesis by auto
  next
    case (Inr stack')
    with end_step_stack [OF Cons.prems(1), where line = line and i = i] have "stack' \<noteq> []" "last stack' = last stack" by auto
    with Cons.IH [of stack'] Cons.prems(2) Inr show ?thesis by auto
  qed
qed auto

lemma FindEnd_stack:
  assumes "stack \<noteq> []" and "FindEndOfExpressionInLine line k stack = (e, st)"
  shows "(e = -1 \<and> (st \<noteq> None \<longrightarrow> the st \<noteq> [] \<and> last (the st) = last stack)) \<or>
     (int k < e \<and> e \<le> int (length line) \<and> closes_with (last stack) (line ! nat (e - 1)))"
  using end_loop_stack [OF assms(1) assms(2) [unfolded FindEndOfExpressionInLine_def]]
  by auto

text \<open>A class invariant of \<open>CleansedLines\<close> that the searches rely on.\<close>

definition lines_ok :: "CleansedLines \<Rightarrow> bool" where
  "lines_ok cl \<longleftrightarrow> length (elided cl) = num_lines cl"

definition closed_at :: "CleansedLines \<Rightarrow> char \<Rightarrow> nat \<Rightarrow> string \<times> nat \<times> int \<Rightarrow> bool" where
  "closed_at cl a l0 r = (case r of (line, l, e) \<Rightarrow>
     (l = num_lines cl \<and> e = -1) \<or>
     (l0 \<le> l \<and> l < num_lines cl \<and> line = elided cl ! l \<and> 0 < e \<and> e \<le> int (length line) \<and>
      closes_with a (line ! nat (e - 1))))"

lemma closed_at_mono: "l0 \<le> l1 \<Longrightarrow> closed_at cl a l1 r \<Longrightarrow> closed_at cl a l0 r"
  by (auto simp: closed_at_def)

lemma close_loop_ends:
  assumes "lines_ok cl" and "pending st \<Longrightarrow> last (the st) = a"
  shows "\<exists>r. close_loop cl line l st = Inr r \<and> closed_at cl a (l + 1) r"
  using assms
proof (induction cl line l st rule: close_loop.induct)
  case (1 cl line l st)
  show ?case
  proof (cases "pending st \<and> l + 1 < NumLines cl")
    case True
    then have l: "l + 1 < length (elided cl)" using 1(2) by (simp add: lines_ok_def NumLines_def)
    let ?line = "elided cl ! (l + 1)"
    obtain e st' where f: "FindEndOfExpressionInLine ?line 0 (the st) = (e, st')" by fastforce
    from True have ne: "the st \<noteq> []" by (auto simp: pending_def)
    note ends = FindEnd_stack [OF ne f]
    have x: "py_idx (elided cl) (int (l + 1)) = Inr ?line" using l by (rule py_idx_nat)
    show ?thesis
    proof (cases "e > -1")
      case e: True
      with ends True 1(2,3) l x f show ?thesis
        by (subst close_loop.simps)
          (auto simp: closed_at_def lines_ok_def simp del: of_nat_add of_nat_Suc)
    next
      case False
      with ends have "pending st' \<Longrightarrow> last (the st') = a" using 1(3) True by (auto simp: pending_def)
      with 1(1) [OF True x f [symmetric] False 1(2)]
      obtain r where "close_loop cl ?line (l + 1) st' = Inr r" and "closed_at cl a (l + 1 + 1) r" by auto
      moreover from this(2) have "closed_at cl a (l + 1) r" by (rule closed_at_mono [rotated]) simp
      ultimately show ?thesis using True x f False
        by (subst close_loop.simps) (auto simp del: of_nat_add of_nat_Suc)
    qed
  next
    case False
    then show ?thesis by (subst close_loop.simps) (auto simp: closed_at_def NumLines_def)
  qed
qed

lemma end_step_first:
  assumes "line ! i \<in> set ''([{''" shows "end_step line i [] = Inr [line ! i]"
  using assms by (auto simp: end_step_def Let_def)

lemma end_loop_start:
  "i < n \<Longrightarrow> line ! i \<in> set ''([{'' \<Longrightarrow> end_loop line [i..<n] [] = end_loop line [i + 1..<n] [line ! i]"
  by (simp add: upt_rec [of i] end_step_first)

lemma close_expression_closed:
  assumes "lines_ok cl" and "linenum < num_lines cl" and "pos < length (elided cl ! linenum)"
    and "elided cl ! linenum ! pos \<in> set ''([{''"
  shows "\<exists>r. CloseExpression cl linenum pos = Inr r \<and> closed_at cl (elided cl ! linenum ! pos) linenum r"
proof -
  let ?line = "elided cl ! linenum" let ?c = "?line ! pos"
  have ix: "py_idx (elided cl) (int linenum) = Inr ?line" "py_idx ?line (int pos) = Inr ?c"
    using assms(1-3) by (simp_all add: lines_ok_def)
  have nm: "\<not> Matches rx_shift_or_le (drop pos ?line)"
  proof -
    have "drop pos ?line = ?c # drop (pos + 1) ?line" using assms(3) by (simp add: Cons_nth_drop_Suc)
    then show ?thesis using assms(4)
      by (auto simp: Matches_iff rx_shift_or_le_def mt_Cat_iff mlit_iff)
  qed
  obtain e st where f: "FindEndOfExpressionInLine ?line pos [] = (e, st)" by fastforce
  then have "end_loop ?line [pos + 1..<length ?line] [?c] = (e, st)"
    using assms(3,4) by (simp only: FindEndOfExpressionInLine_def end_loop_start)
  from end_loop_stack [OF _ this] have ends: "(e = -1 \<and> (st \<noteq> None \<longrightarrow> the st \<noteq> [] \<and> last (the st) = ?c)) \<or>
     (int pos < e \<and> e \<le> int (length ?line) \<and> closes_with ?c (?line ! nat (e - 1)))" by auto
  show ?thesis
  proof (cases "e > -1")
    case True
    with ends ix nm f assms show ?thesis by (auto simp: CloseExpression_def closed_at_def)
  next
    case False
    with ends have "pending st \<Longrightarrow> last (the st) = ?c" by (auto simp: pending_def)
    from close_loop_ends [OF assms(1) this, of ?line linenum]
    obtain r where "close_loop cl ?line linenum st = Inr r" "closed_at cl ?c (linenum + 1) r" by auto
    moreover from this(2) have "closed_at cl ?c linenum r" by (rule closed_at_mono [rotated]) simp
    moreover have "CloseExpression cl linenum pos = close_loop cl ?line linenum st"
      using False ix nm f assms(4) by (auto simp: CloseExpression_def)
    ultimately show ?thesis by auto
  qed
qed

text \<open>
  C15: on a position of the file that holds one of the brackets
  \<^verbatim>\<open>( [ {\<close>, \<open>CloseExpression\<close> raises nothing; it either gives up with
  \<open>(line, NumLines, -1)\<close> or returns a place of the file, not before the line it started on, just
  past a character that closes this very kind of bracket.
\<close>

theorem close_expression_sound:
  assumes "lines_ok cl" and "linenum < num_lines cl" and "pos < length (elided cl ! linenum)"
    and "elided cl ! linenum ! pos \<in> set ''([{''"
  shows "\<exists>line l e. CloseExpression cl linenum pos = Inr (line, l, e) \<and>
     ((l = num_lines cl \<and> e = -1) \<or>
      (linenum \<le> l \<and> l < num_lines cl \<and> line = elided cl ! l \<and> 0 < e \<and> e \<le> int (length line) \<and>
       pairs (elided cl ! linenum ! pos) (line ! nat (e - 1))))"
proof -
  have "closes_with (elided cl ! linenum ! pos) b \<Longrightarrow> pairs (elided cl ! linenum ! pos) b" for b
    using assms(4) by (auto simp: closes_with_def)
  with close_expression_closed [OF assms] show ?thesis by (fastforce simp: closed_at_def)
qed

subsection \<open>Balanced text\<close>

definition opener :: "char \<Rightarrow> bool" where "opener c \<longleftrightarrow> c \<in> set ''([{''"
definition closer :: "char \<Rightarrow> bool" where "closer c \<longleftrightarrow> c \<in> set '')]}''"

inductive balanced :: "string \<Rightarrow> bool" where
  bal_nil: "balanced []"
| bal_char: "\<not> opener c \<Longrightarrow> \<not> closer c \<Longrightarrow> balanced w \<Longrightarrow> balanced (c # w)"
| bal_group: "pairs a b \<Longrightarrow> balanced u \<Longrightarrow> balanced w \<Longrightarrow> balanced (a # u @ b # w)"

definition bracketed :: "string \<Rightarrow> bool" where
  "bracketed t \<longleftrightarrow> (\<exists>a u b. t = a # u @ [b] \<and> pairs a b \<and> balanced u)"

text \<open>\<open>unwind st w\<close>: reading \<open>w\<close> empties the stack \<open>st\<close> exactly at its end.\<close>

fun unwind :: "string \<Rightarrow> string \<Rightarrow> bool" where
  "unwind [] w = (w = [])"
| "unwind (a # st) [] = False"
| "unwind (a # st) (c # w) =
     (if opener c then unwind (c # a # st) w
      else if closer c then pairs a c \<and> unwind st w
      else unwind (a # st) w)"

lemma pairs_cases: "pairs a b \<Longrightarrow> opener a \<and> closer b \<and> \<not> closer a \<and> \<not> opener b"
  by (auto simp: pairs_def opener_def closer_def)

lemma unwind_balanced: "balanced u \<Longrightarrow> unwind (a # st) (u @ w) = unwind (a # st) w"
proof (induction arbitrary: a st w rule: balanced.induct)
  case (bal_group x y u v)
  then show ?case by (auto dest: pairs_cases)
qed auto

lemma unwind_split:
  "unwind (a # st) w \<Longrightarrow> \<exists>u b v. w = u @ b # v \<and> balanced u \<and> pairs a b \<and> unwind st v"
proof (induction "length w" arbitrary: a st w rule: less_induct)
  case less
  from less.prems obtain c w' where w: "w = c # w'" by (cases w) auto
  consider (op) "opener c" | (cl) "\<not> opener c" "closer c" | (other) "\<not> opener c" "\<not> closer c" by blast
  then show ?case
  proof cases
    case op
    with less.prems w have "unwind (c # a # st) w'" by simp
    from less.hyps [OF _ this] w obtain u b v
      where 1: "w' = u @ b # v" "balanced u" "pairs c b" "unwind (a # st) v" by auto
    from less.hyps [OF _ 1(4)] w 1(1) obtain u' b' v'
      where 2: "v = u' @ b' # v'" "balanced u'" "pairs a b'" "unwind st v'" by auto
    from 1 2 w have "w = (c # u @ b # u') @ b' # v'" "balanced (c # u @ b # u')" by (simp_all add: bal_group)
    with 2 show ?thesis by blast
  next
    case cl
    with less.prems w have "w = [] @ c # w'" "pairs a c" "unwind st w'" by auto
    then show ?thesis using bal_nil by blast
  next
    case other
    with less.prems w have "unwind (a # st) w'" by simp
    from less.hyps [OF _ this] w obtain u b v
      where 1: "w' = u @ b # v" "balanced u" "pairs a b" "unwind st v" by auto
    with other have "w = (c # u) @ b # v" "balanced (c # u)" by (simp_all add: w bal_char)
    with 1 show ?thesis by blast
  qed
qed

lemma unwind_single: "opener a \<Longrightarrow> unwind [a] w \<longleftrightarrow> (\<exists>u b. w = u @ [b] \<and> balanced u \<and> pairs a b)"
proof
  assume "unwind [a] w"
  from unwind_split [OF this] show "\<exists>u b. w = u @ [b] \<and> balanced u \<and> pairs a b" by auto
next
  assume "\<exists>u b. w = u @ [b] \<and> balanced u \<and> pairs a b"
  then show "unwind [a] w" by (auto simp: unwind_balanced dest: pairs_cases)
qed

lemma bracketed_iff: "bracketed t \<longleftrightarrow> (\<exists>a w. t = a # w \<and> opener a \<and> unwind [a] w)"
  unfolding bracketed_def by (metis pairs_cases unwind_single)

text \<open>The mirror image of a text exchanges opening and closing brackets.\<close>

definition mirror :: "char \<Rightarrow> char" where
  "mirror c = (if c = CHR ''('' then CHR '')'' else if c = CHR '')'' then CHR ''(''
     else if c = CHR ''['' then CHR '']'' else if c = CHR '']'' then CHR ''[''
     else if c = CHR ''{'' then CHR ''}'' else if c = CHR ''}'' then CHR ''{'' else c)"

abbreviation mirrored :: "string \<Rightarrow> string" where "mirrored w \<equiv> map mirror (rev w)"

lemma mirror_mirror [simp]: "mirror (mirror c) = c"
  by (simp add: mirror_def)

lemma mirror_opener [simp]: "opener (mirror c) = closer c" "closer (mirror c) = opener c"
  by (auto simp: mirror_def opener_def closer_def)

lemma pairs_mirror: "pairs (mirror b) (mirror a) = pairs a b"
  by (auto simp: pairs_def mirror_def)

lemma mirrored_mirrored [simp]: "mirrored (mirrored w) = w"
  by (simp add: rev_map comp_def)

lemma balanced_append: "balanced u \<Longrightarrow> balanced v \<Longrightarrow> balanced (u @ v)"
  by (induction rule: balanced.induct) (auto intro: balanced.intros)

lemma balanced_mirrored: "balanced w \<Longrightarrow> balanced (mirrored w)"
proof (induction rule: balanced.induct)
  case (bal_char c w)
  then have "balanced [mirror c]" by (intro balanced.bal_char bal_nil) simp_all
  with bal_char balanced_append show ?case by simp
next
  case (bal_group a b u w)
  then have "balanced (mirror b # mirrored u @ mirror a # [])"
    by (intro balanced.bal_group bal_nil) (simp_all add: pairs_mirror)
  with bal_group balanced_append show ?case by simp
qed (simp add: bal_nil)

lemma bracketed_mirrored: "bracketed (mirrored t) = bracketed t"
proof -
  have "bracketed (mirrored t)" if "bracketed t" for t
  proof -
    from that obtain a u b where "t = a # u @ [b]" "pairs a b" "balanced u" by (auto simp: bracketed_def)
    then have "mirrored t = mirror b # mirrored u @ [mirror a]" "pairs (mirror b) (mirror a)" "balanced (mirrored u)"
      by (simp_all add: pairs_mirror balanced_mirrored del: rev_map)
    then show ?thesis unfolding bracketed_def by metis
  qed
  from this [of t] this [of "mirrored t"] show ?thesis by auto
qed

subsection \<open>Reading a text with a stack\<close>

datatype outcome = Closed nat | Mismatch | Pending string

fun bump :: "outcome \<Rightarrow> outcome" where
  "bump (Closed n) = Closed (n + 1)"
| "bump Mismatch = Mismatch"
| "bump (Pending st) = Pending st"

fun scan :: "string \<Rightarrow> string \<Rightarrow> outcome" where
  "scan st [] = Pending st"
| "scan st (c # w) =
     (if opener c then bump (scan (c # st) w)
      else if closer c then
        (if st \<noteq> [] \<and> pairs (hd st) c then if tl st = [] then Closed 1 else bump (scan (tl st) w) else Mismatch)
      else bump (scan st w))"

lemma bump_iff [simp]:
  "bump r = Closed n \<longleftrightarrow> (\<exists>m. n = m + 1 \<and> r = Closed m)"
  "bump r = Mismatch \<longleftrightarrow> r = Mismatch"
  "bump r = Pending st \<longleftrightarrow> r = Pending st"
  by (cases r; auto)+

lemma scan_Closed: "st \<noteq> [] \<Longrightarrow> scan st w = Closed n \<longleftrightarrow> n \<le> length w \<and> unwind st (take n w)"
proof (induction w arbitrary: st n)
  case Nil
  then show ?case by (cases st) auto
next
  case (Cons c w)
  then obtain a st' where st: "st = a # st'" by (cases st) auto
  show ?case
  proof (cases n)
    case 0
    then show ?thesis using st by simp
  next
    case (Suc m)
    have "scan st' w = Closed m \<longleftrightarrow> m \<le> length w \<and> unwind st' (take m w)" if "st' \<noteq> []"
      using Cons.IH that by blast
    moreover have "scan (x # st) w = Closed m \<longleftrightarrow> m \<le> length w \<and> unwind (x # st) (take m w)" for x
      using Cons.IH by blast
    moreover have "scan st w = Closed m \<longleftrightarrow> m \<le> length w \<and> unwind st (take m w)"
      using Cons.IH st by blast
    moreover have "m \<le> length w \<and> take m w = [] \<longleftrightarrow> m = 0" by auto
    ultimately show ?thesis by (cases "st' = []") (auto simp: Suc st)
  qed
qed

lemma scan_Pending:
  "st \<noteq> [] \<Longrightarrow> scan st w = Pending st' \<Longrightarrow>
   st' \<noteq> [] \<and> (\<forall>v. unwind st (w @ v) = unwind st' v) \<and> (\<forall>c \<in> set st'. c \<in> set st \<or> opener c)"
proof (induction w arbitrary: st)
  case (Cons c w)
  then obtain a st1 where st: "st = a # st1" by (cases st) auto
  consider (op) "opener c" | (cl) "\<not> opener c" "closer c" | (other) "\<not> opener c" "\<not> closer c" by blast
  then show ?case
  proof cases
    case op
    with Cons.prems have "scan (c # st) w = Pending st'" by simp
    from Cons.IH [OF _ this] op show ?thesis by (auto simp: st)
  next
    case cl
    with Cons.prems st have "scan st1 w = Pending st'" "st1 \<noteq> []" "pairs a c" by (auto split: if_splits)
    from Cons.IH [OF this(2,1)] this cl show ?thesis by (auto simp: st)
  next
    case other
    with Cons.prems have "scan st w = Pending st'" by simp
    from Cons.IH [OF Cons.prems(1) this] other show ?thesis by (auto simp: st)
  qed
qed auto

lemma scan_Mismatch: "st \<noteq> [] \<Longrightarrow> scan st w = Mismatch \<Longrightarrow> \<not> unwind st (w @ v)"
proof (induction w arbitrary: st)
  case (Cons c w)
  then obtain a st1 where st: "st = a # st1" by (cases st) auto
  with Cons show ?case by (auto split: if_splits)
qed auto

text \<open>A text that unwinds the stack has no proper extension that does.\<close>

lemma unwind_take:
  assumes "st \<noteq> []" and "scan st w = Closed k" and "unwind st (w @ v)"
  shows "v = [] \<and> k = length w"
proof -
  from assms scan_Closed have k: "k \<le> length w" "unwind st (take k w)" by auto
  then have "scan st (w @ v) = Closed k" using assms(1) scan_Closed [of st "w @ v" k] by simp
  moreover have "scan st (w @ v) = Closed (length (w @ v))"
    using assms(1,3) scan_Closed [of st "w @ v" "length (w @ v)"] by simp
  ultimately have "length w + length v = k" by simp
  with k(1) show ?thesis by auto
qed

subsection \<open>The searches read the text\<close>

definition no_angles :: "string \<Rightarrow> bool" where
  "no_angles w \<longleftrightarrow> CHR ''<'' \<notin> set w \<and> CHR ''>'' \<notin> set w"

definition forward_result :: "nat \<Rightarrow> outcome \<Rightarrow> scan_result" where
  "forward_result i r = (case r of Closed k \<Rightarrow> (int (i + k), None) | Mismatch \<Rightarrow> (-1, None)
     | Pending st \<Rightarrow> (-1, Some st))"

definition backward_result :: "nat \<Rightarrow> outcome \<Rightarrow> scan_result" where
  "backward_result n r = (case r of Closed k \<Rightarrow> (int (n - k), None) | Mismatch \<Rightarrow> (-1, None)
     | Pending st \<Rightarrow> (-1, Some (map mirror st)))"

lemma pop_while_absent: "c \<notin> set st \<Longrightarrow> pop_while c st = st"
  unfolding pop_while_def by (induction st) auto

lemma end_step_plain:
  assumes "st \<noteq> []" "CHR ''<'' \<notin> set st" "line ! i \<noteq> CHR ''<''" "line ! i \<noteq> CHR ''>''"
  shows "end_step line i st =
     (if opener (line ! i) then Inr (line ! i # st)
      else if closer (line ! i) then
        (if pairs (hd st) (line ! i) then if tl st = [] then Inl (int i + 1, None) else Inr (tl st) else Inl (-1, None))
      else Inr st)"
  using assms by (simp add: end_step_def Let_def pop_while_absent opener_def closer_def)

lemma forward_bump: "forward_result (Suc i) r = forward_result i (bump r)"
  by (cases r) (simp_all add: forward_result_def)

lemma end_loop_scan:
  assumes "no_angles line" "st \<noteq> []" "CHR ''<'' \<notin> set st" "i \<le> length line"
  shows "end_loop line [i..<length line] st = forward_result i (scan st (drop i line))"
  using assms(2-)
proof (induction "length line - i" arbitrary: i st)
  case 0
  then show ?case by (simp add: forward_result_def)
next
  case (Suc n)
  then have i: "i < length line" by simp
  then have d: "drop i line = line ! i # drop (Suc i) line" and u: "[i..<length line] = i # [Suc i..<length line]"
    by (simp_all add: Cons_nth_drop_Suc upt_rec)
  from i assms(1) have na: "line ! i \<noteq> CHR ''<''" "line ! i \<noteq> CHR ''>''"
    unfolding no_angles_def by (metis nth_mem)+
  have IH: "end_loop line [Suc i..<length line] st' = forward_result i (bump (scan st' (drop (Suc i) line)))"
    if "st' \<noteq> []" "CHR ''<'' \<notin> set st'" for st'
    using Suc.hyps(1) [of "Suc i" st'] Suc.hyps(2) that i by (simp add: forward_bump)
  have tl: "CHR ''<'' \<notin> set (tl st)" using Suc.prems by (cases st) auto
  show ?case
    unfolding u d using Suc.prems na tl
    by (auto simp: end_step_plain IH forward_result_def)
qed

lemma start_step_plain:
  assumes "st \<noteq> []" "CHR ''>'' \<notin> set st" "line ! i \<noteq> CHR ''<''" "line ! i \<noteq> CHR ''>''"
  shows "start_step line i st =
     (if closer (line ! i) then Inr (False, line ! i # st)
      else if opener (line ! i) then
        (if pairs (line ! i) (hd st) then if tl st = [] then Inl (int i, None) else Inr (False, tl st) else Inl (-1, None))
      else Inr (False, st))"
  using assms by (simp add: start_step_def Let_def pop_while_absent opener_def closer_def)

lemma backward_bump: "backward_result i r = backward_result (Suc i) (bump r)"
  by (cases r) (simp_all add: backward_result_def)

lemma start_loop_scan:
  assumes "no_angles line"
  shows "st \<noteq> [] \<Longrightarrow> CHR ''>'' \<notin> set st \<Longrightarrow> n \<le> length line \<Longrightarrow>
    start_loop line n st = backward_result n (scan (map mirror st) (mirrored (take n line)))"
proof (induction n arbitrary: st)
  case 0
  then show ?case by (simp add: backward_result_def comp_def)
next
  case (Suc i)
  then have d: "mirrored (take (Suc i) line) = mirror (line ! i) # mirrored (take i line)"
    by (simp add: take_Suc_conv_app_nth)
  from Suc.prems assms have na: "line ! i \<noteq> CHR ''<''" "line ! i \<noteq> CHR ''>''"
    unfolding no_angles_def by (metis Suc_le_eq nth_mem)+
  have IH: "start_loop line i st' = backward_result (Suc i) (bump (scan (map mirror st') (mirrored (take i line))))"
    if "st' \<noteq> []" "CHR ''>'' \<notin> set st'" for st'
    using Suc.IH [of st'] that Suc.prems by (simp add: backward_bump [of i])
  from Suc.prems obtain a st1 where st: "st = a # st1" by (cases st) auto
  have pm: "pairs (mirror a) (mirror (line ! i)) = pairs (line ! i) a" by (rule pairs_mirror)
  have step: "start_loop line (Suc i) st = (case start_step line i st of Inl r \<Rightarrow> r
     | Inr (skip, st') \<Rightarrow> start_loop line (if skip then i - 1 else i) st')" by simp
  note plain = start_step_plain [OF Suc.prems(1,2) na]
  consider (op) "opener (line ! i)" "\<not> closer (line ! i)" | (cl) "closer (line ! i)"
    | (other) "\<not> opener (line ! i)" "\<not> closer (line ! i)" by blast
  then show ?case
  proof cases
    case op
    show ?thesis unfolding step plain d using op Suc.prems(2)
      by (cases "st1 = []") (simp_all add: IH st pm backward_result_def)
  next
    case cl
    have "CHR ''>'' \<notin> set (line ! i # st)" using Suc.prems(2) na by simp
    from IH [OF _ this] show ?thesis unfolding step plain d using cl by simp
  next
    case other
    show ?thesis unfolding step plain d using other IH [OF Suc.prems(1,2)] by simp
  qed
qed

subsection \<open>The text of a file between two places\<close>

definition plain_file :: "CleansedLines \<Rightarrow> bool" where
  "plain_file cl \<longleftrightarrow> lines_ok cl \<and> (\<forall>line \<in> set (elided cl). no_angles line)"

text \<open>The whole lines from \<open>a\<close> up to, not including, \<open>b\<close>.\<close>

definition whole_lines :: "CleansedLines \<Rightarrow> nat \<Rightarrow> nat \<Rightarrow> string" where
  "whole_lines cl a b = concat (map ((!) (elided cl)) [a..<b])"

definition span_text :: "CleansedLines \<Rightarrow> nat \<Rightarrow> nat \<Rightarrow> nat \<Rightarrow> nat \<Rightarrow> string" where
  "span_text cl l p l' e =
     (if l = l' then drop p (take e (elided cl ! l))
      else drop p (elided cl ! l) @ whole_lines cl (l + 1) l' @ take e (elided cl ! l'))"

lemma whole_lines_first: "a < b \<Longrightarrow> whole_lines cl a b = elided cl ! a @ whole_lines cl (a + 1) b"
  by (simp add: whole_lines_def upt_rec [of a])

lemma whole_lines_last: "a \<le> b \<Longrightarrow> whole_lines cl a (Suc b) = whole_lines cl a b @ elided cl ! b"
  by (simp add: whole_lines_def)

lemma whole_lines_empty [simp]: "b \<le> a \<Longrightarrow> whole_lines cl a b = []"
  by (simp add: whole_lines_def)

lemma plain_fileD:
  "plain_file cl \<Longrightarrow> l < num_lines cl \<Longrightarrow> no_angles (elided cl ! l) \<and> py_idx (elided cl) (int l) = Inr (elided cl ! l)"
  by (auto simp: plain_file_def lines_ok_def)

lemma FindEnd_plain:
  assumes "no_angles w" "st \<noteq> []" "CHR ''<'' \<notin> set st"
  shows "FindEndOfExpressionInLine w 0 st = forward_result 0 (scan st w)"
  using end_loop_scan [OF assms, of 0] by (simp add: FindEndOfExpressionInLine_def)

lemma close_loop_iff:
  assumes "plain_file cl" "st \<noteq> []" "CHR ''<'' \<notin> set st" "0 < e"
  shows "close_loop cl line l (Some st) = Inr (x, l', int e) \<longleftrightarrow>
     l < l' \<and> l' < num_lines cl \<and> x = elided cl ! l' \<and> e \<le> length x \<and>
     unwind st (whole_lines cl (l + 1) l' @ take e x)"
  using assms
proof (induction "num_lines cl - l" arbitrary: l st line)
  case 0
  then show ?case by (subst close_loop.simps) (auto simp: NumLines_def pending_def)
next
  case (Suc n)
  show ?case
  proof (cases "l + 1 < num_lines cl")
    case False
    then show ?thesis by (subst close_loop.simps) (auto simp: NumLines_def pending_def)
  next
    case l: True
    let ?w = "elided cl ! (l + 1)"
    from plain_fileD [OF Suc.prems(1) l] have w: "no_angles ?w" "py_idx (elided cl) (int (l + 1)) = Inr ?w" by auto
    note f = FindEnd_plain [OF w(1) Suc.prems(2,3)]
    have step: "close_loop cl line l (Some st) =
       (case forward_result 0 (scan st ?w) of (end_pos, stack') \<Rightarrow>
          if end_pos > -1 then Inr (?w, l + 1, end_pos) else close_loop cl ?w (l + 1) stack')"
      by (subst close_loop.simps)
        (simp only: NumLines_def pending_def l w(2) f rbind_simps simp_thms if_True option.sel option.distinct
           option.inject Suc.prems(2) not_False_eq_True)
    have more: "whole_lines cl (l + 1) l' = ?w @ whole_lines cl (l + 2) l'" if "l + 1 < l'"
      using that whole_lines_first [of "l + 1" l' cl] by simp
    have here: "e \<le> length ?w \<and> unwind st (take e ?w) \<longleftrightarrow> scan st ?w = Closed e"
      using scan_Closed [OF Suc.prems(2)] by auto
    show ?thesis
    proof (cases "scan st ?w")
      case (Closed k)
      have "\<not> unwind st (whole_lines cl (l + 1) l' @ take e x)"
        if "l + 1 < l'" "l' < num_lines cl" "e \<le> length x"
        using unwind_take [OF Suc.prems(2) Closed, of "whole_lines cl (l + 2) l' @ take e x"] that(2,3) Suc.prems(4) unfolding more [OF that(1)] by auto
      with Closed here show ?thesis
        using l by (cases "l' = l + 1") (auto simp: step forward_result_def simp del: of_nat_add of_nat_Suc)
    next
      case Mismatch
      then have "\<not> unwind st (?w @ v)" for v using scan_Mismatch Suc.prems(2) by blast
      moreover have "close_loop cl line l (Some st) \<noteq> Inr (x, l', int e)"
        unfolding step using Mismatch
        by (simp add: forward_result_def) (subst close_loop.simps, simp add: pending_def)
      ultimately show ?thesis using Mismatch here more
        by (cases "l' = l + 1") auto
    next
      case (Pending st')
      note p = scan_Pending [OF Suc.prems(2) Pending]
      then have "st' \<noteq> []" "CHR ''<'' \<notin> set st'" using Suc.prems(3) by (auto simp: opener_def)
      with Suc.hyps(1) [of "l + 1" st' ?w] Suc.hyps(2) Suc.prems(1,4)
      have "close_loop cl ?w (l + 1) (Some st') = Inr (x, l', int e) \<longleftrightarrow>
         l + 1 < l' \<and> l' < num_lines cl \<and> x = elided cl ! l' \<and> e \<le> length x \<and>
         unwind st' (whole_lines cl (l + 2) l' @ take e x)" by simp
      moreover have "close_loop cl line l (Some st) = close_loop cl ?w (l + 1) (Some st')"
        unfolding step using Pending by (simp add: forward_result_def)
      moreover have "unwind st (whole_lines cl (l + 1) l' @ take e x) =
          unwind st' (whole_lines cl (l + 2) l' @ take e x)" if "l + 1 < l'"
        using p unfolding more [OF that] by simp
      ultimately show ?thesis using here Pending
        by (cases "l' = l + 1") auto
    qed
  qed
qed

lemma no_angles_nth: "no_angles w \<Longrightarrow> i < length w \<Longrightarrow> w ! i \<noteq> CHR ''<'' \<and> w ! i \<noteq> CHR ''>''"
  unfolding no_angles_def by (metis nth_mem)

lemma span_text_head:
  assumes "pos < length (elided cl ! l)" "l = l' \<Longrightarrow> pos < e"
  shows "\<exists>t. span_text cl l pos l' e = elided cl ! l ! pos # t"
  using assms by (cases "l = l'") (simp_all add: span_text_def Cons_nth_drop_Suc [symmetric])

lemma close_iff:
  assumes "plain_file cl" "l < num_lines cl" "pos < length (elided cl ! l)" "0 < e"
  shows "CloseExpression cl l pos = Inr (x, l', int e) \<longleftrightarrow>
     l \<le> l' \<and> l' < num_lines cl \<and> x = elided cl ! l' \<and> e \<le> length x \<and> bracketed (span_text cl l pos l' e)"
proof -
  let ?w = "elided cl ! l" let ?c = "?w ! pos" let ?d = "drop (pos + 1) ?w"
  from plain_fileD [OF assms(1,2)] have w: "no_angles ?w" "py_idx (elided cl) (int l) = Inr ?w" by auto
  have ix: "py_idx ?w (int pos) = Inr ?c" using assms(3) by (rule py_idx_nat)
  have d: "drop pos ?w = ?c # ?d" using assms(3) by (simp add: Cons_nth_drop_Suc)
  from no_angles_nth [OF w(1) assms(3)] have na: "?c \<noteq> CHR ''<''" by blast
  have head: "\<exists>t. span_text cl l pos l' e = ?c # t" if "bracketed (span_text cl l pos l' e)" "l \<le> l'"
  proof (rule span_text_head [OF assms(3)])
    assume "l = l'"
    with that show "pos < e" by (rule_tac ccontr) (simp add: span_text_def bracketed_def)
  qed
  show ?thesis
  proof (cases "opener ?c")
    case False
    then have "CloseExpression cl l pos = Inr (?w, NumLines cl, -1)"
      using w ix na by (auto simp: CloseExpression_def opener_def)
    moreover have "\<not> bracketed (span_text cl l pos l' e)" if "l \<le> l'"
      using False head that by (auto simp: bracketed_iff)
    ultimately show ?thesis by auto
  next
    case True
    then have op: "?c \<in> set ''([{''" by (simp add: opener_def)
    have nm: "\<not> Matches rx_shift_or_le (drop pos ?w)"
      unfolding d using na by (auto simp: Matches_iff rx_shift_or_le_def mt_Cat_iff mlit_iff)
    have "FindEndOfExpressionInLine ?w pos [] = end_loop ?w [pos + 1..<length ?w] [?c]"
      unfolding FindEndOfExpressionInLine_def using assms(3) op by (rule end_loop_start)
    also have "\<dots> = forward_result (pos + 1) (scan [?c] ?d)"
      using w(1) na assms(3) by (intro end_loop_scan) auto
    finally have f: "FindEndOfExpressionInLine ?w pos [] = forward_result (pos + 1) (scan [?c] ?d)" .
    have step: "CloseExpression cl l pos =
       (case forward_result (pos + 1) (scan [?c] ?d) of (end_pos, stack) \<Rightarrow>
          if end_pos > -1 then Inr (?w, l, end_pos) else close_loop cl ?w l stack)"
    proof -
      have "(?c \<notin> set ''({[<'' \<or> Matches rx_shift_or_le (drop pos ?w)) = False" using op nm by auto
      then show ?thesis by (simp only: CloseExpression_def w(2) ix f rbind_simps if_False)
    qed
    have br: "bracketed (?c # t) \<longleftrightarrow> unwind [?c] t" for t using True by (auto simp: bracketed_iff)
    have here: "pos < e \<and> e \<le> length ?w \<and> unwind [?c] (take (e - Suc pos) ?d) \<longleftrightarrow>
        (\<exists>k. scan [?c] ?d = Closed k \<and> e = pos + 1 + k)"
    proof -
      have "(\<exists>k. scan [?c] ?d = Closed k \<and> e = pos + 1 + k) \<longleftrightarrow>
         (\<exists>k. k \<le> length ?d \<and> unwind [?c] (take k ?d) \<and> e = pos + 1 + k)"
        using scan_Closed [of "[?c]" ?d] by simp
      then show ?thesis using assms(3) by (auto intro!: exI [of _ "e - Suc pos"])
    qed
    have same: "bracketed (span_text cl l pos l e) \<and> e \<le> length ?w \<longleftrightarrow>
        pos < e \<and> e \<le> length ?w \<and> unwind [?c] (take (e - Suc pos) ?d)"
    proof (cases "pos < e")
      case True
      then have "span_text cl l pos l e = ?c # take (e - Suc pos) ?d"
        using d Suc_diff_Suc [OF True, symmetric] by (simp add: span_text_def drop_take)
      then show ?thesis using True br by auto
    qed (simp add: span_text_def bracketed_def)
    have later: "bracketed (span_text cl l pos l' e) \<longleftrightarrow> unwind [?c] (?d @ whole_lines cl (l + 1) l' @ take e (elided cl ! l'))"
      if "l < l'" using that br by (simp add: span_text_def d)
    show ?thesis
    proof (cases "scan [?c] ?d")
      case (Closed k)
      have "\<not> unwind [?c] (?d @ whole_lines cl (l + 1) l' @ take e (elided cl ! l'))" if "e \<le> length (elided cl ! l')"
        using unwind_take [OF _ Closed, of "whole_lines cl (l + 1) l' @ take e (elided cl ! l')"] that assms(4) by auto
      with Closed here same later show ?thesis
        using assms(2) by (cases "l' = l") (auto simp: step forward_result_def)
    next
      case Mismatch
      then have "\<not> unwind [?c] (?d @ v)" for v using scan_Mismatch by blast
      moreover have "CloseExpression cl l pos \<noteq> Inr (x, l', int e)"
        unfolding step using Mismatch
        by (simp add: forward_result_def) (subst close_loop.simps, simp add: pending_def)
      ultimately show ?thesis using Mismatch here same later by (cases "l' = l") auto
    next
      case (Pending st')
      note p = scan_Pending [OF _ Pending]
      then have st': "st' \<noteq> []" "CHR ''<'' \<notin> set st'" using na by (auto simp: opener_def)
      have "CloseExpression cl l pos = close_loop cl ?w l (Some st')"
        unfolding step using Pending by (simp add: forward_result_def)
      with close_loop_iff [OF assms(1) st' assms(4), of ?w l x l'] p here same later Pending
      show ?thesis by (cases "l' = l") auto
    qed
  qed
qed

lemma mirrored_append: "mirrored (u @ v) = mirrored v @ mirrored u"
  by simp

lemma mirrored_drop: "mirrored (drop p w) = take (length w - p) (mirrored w)"
  by (simp add: rev_drop take_map)

lemma FindStart_plain:
  assumes "no_angles w" "st \<noteq> []" "CHR ''>'' \<notin> set st"
  shows "FindStartOfExpressionInLine w (int (length w) - 1) st =
     backward_result (length w) (scan (map mirror st) (mirrored w))"
  using start_loop_scan [OF assms, of "length w"] by (simp add: FindStartOfExpressionInLine_def)

lemma scan_Closed_pos: "st \<noteq> [] \<Longrightarrow> scan st w = Closed k \<Longrightarrow> 0 < k \<and> k \<le> length w"
  using scan_Closed [of st w k] by (cases st; cases k) auto

lemma mirror_angle [simp]: "mirror c = CHR ''>'' \<longleftrightarrow> c = CHR ''>''"
  by (auto simp: mirror_def split: if_splits)

lemma mirror_angle_set: "CHR ''>'' \<in> set (map mirror st) \<longleftrightarrow> CHR ''>'' \<in> set st"
  by (induction st) (auto simp: eq_commute [of "CHR ''>''"])

lemma mirror_pending:
  assumes "CHR ''>'' \<notin> set st" "scan (map mirror st) w = Pending st'" "st \<noteq> []"
  shows "CHR ''>'' \<notin> set (map mirror st')"
proof -
  have "\<not> opener (CHR ''>'')" by (simp add: opener_def)
  with scan_Pending [OF _ assms(2)] assms(3) have "CHR ''>'' \<in> set st' \<Longrightarrow> CHR ''>'' \<in> set (map mirror st)"
    by auto
  with assms(1) show ?thesis unfolding mirror_angle_set by blast
qed

lemma reverse_loop_iff:
  assumes "plain_file cl"
  shows "st \<noteq> [] \<Longrightarrow> CHR ''>'' \<notin> set st \<Longrightarrow> l1 \<le> num_lines cl \<Longrightarrow>
    reverse_loop cl line l1 (Some st) = Inr (x, l, int p) \<longleftrightarrow>
     l < l1 \<and> x = elided cl ! l \<and> p < length x \<and>
     unwind (map mirror st) (mirrored (drop p x @ whole_lines cl (l + 1) l1))"
proof (induction l1 arbitrary: st line)
  case (Suc n)
  let ?w = "elided cl ! n" and ?st = "map mirror st"
  from Suc.prems(3) plain_fileD [OF assms, of n] have w: "no_angles ?w" "py_idx (elided cl) (int n) = Inr ?w" by auto
  note f = FindStart_plain [OF w(1) Suc.prems(1,2)]
  have ne: "?st \<noteq> []" using Suc.prems(1) by simp
  have step: "reverse_loop cl line (Suc n) (Some st) =
     (case backward_result (length ?w) (scan ?st (mirrored ?w)) of (start_pos, stack') \<Rightarrow>
        if start_pos > -1 then Inr (?w, n, start_pos) else reverse_loop cl ?w n stack')"
    by (simp only: reverse_loop.simps pending_def w(2) f rbind_simps simp_thms if_True option.sel option.distinct
          option.inject Suc.prems(1) not_False_eq_True)
  have more: "mirrored (drop p x @ whole_lines cl (l + 1) (Suc n)) =
      mirrored ?w @ mirrored (drop p x @ whole_lines cl (l + 1) n)" if "l < n"
    using that whole_lines_last [of "l + 1" n cl] by simp
  have here: "unwind ?st (mirrored (drop p ?w)) \<longleftrightarrow> scan ?st (mirrored ?w) = Closed (length ?w - p)"
    using scan_Closed [OF ne, of "mirrored ?w" "length ?w - p"] unfolding mirrored_drop by simp
  show ?case
  proof (cases "scan ?st (mirrored ?w)")
    case (Closed k)
    then have k: "0 < k" "k \<le> length ?w" using scan_Closed_pos [OF ne] by fastforce+
    have "\<not> unwind ?st (mirrored (drop p x @ whole_lines cl (l + 1) (Suc n)))" if "l < n" "p < length x"
      using unwind_take [OF ne Closed, of "mirrored (drop p x @ whole_lines cl (l + 1) n)"] that(2)
      unfolding more [OF that(1)] by auto
    with Closed here k show ?thesis
      by (cases "l = n") (auto simp: step backward_result_def)
  next
    case Mismatch
    then have "\<not> unwind ?st (mirrored ?w @ v)" for v using scan_Mismatch ne by blast
    moreover have "reverse_loop cl line (Suc n) (Some st) \<noteq> Inr (x, l, int p)"
      unfolding step using Mismatch by (cases n) (simp_all add: backward_result_def pending_def reverse_loop.simps)
    ultimately show ?thesis using Mismatch here more by (cases "l = n") auto
  next
    case (Pending st')
    note p = scan_Pending [OF ne Pending]
    have "map mirror st' \<noteq> []" "CHR ''>'' \<notin> set (map mirror st')"
      using p mirror_pending [OF Suc.prems(2) Pending Suc.prems(1)] by auto
    from Suc.IH [OF this, of ?w] Suc.prems(3)
    have "reverse_loop cl ?w n (Some (map mirror st')) = Inr (x, l, int p) \<longleftrightarrow>
       l < n \<and> x = elided cl ! l \<and> p < length x \<and>
       unwind st' (mirrored (drop p x @ whole_lines cl (l + 1) n))" by (simp add: comp_def)
    moreover have "reverse_loop cl line (Suc n) (Some st) = reverse_loop cl ?w n (Some (map mirror st'))"
      unfolding step using Pending by (simp add: backward_result_def)
    moreover have "unwind ?st (mirrored (drop p x @ whole_lines cl (l + 1) (Suc n))) =
        unwind st' (mirrored (drop p x @ whole_lines cl (l + 1) n))" if "l < n"
      using p unfolding more [OF that] by simp
    ultimately show ?thesis using here Pending by (cases "l = n") auto
  qed
qed (simp add: reverse_loop.simps)

lemma reverse_iff:
  assumes "plain_file cl" "l' < num_lines cl" "0 < e" "e \<le> length (elided cl ! l')"
  shows "ReverseCloseExpression cl l' (e - 1) = Inr (x, l, int p) \<longleftrightarrow>
     l \<le> l' \<and> x = elided cl ! l \<and> p < length x \<and> bracketed (span_text cl l p l' e)"
proof -
  let ?w = "elided cl ! l'" let ?q = "e - 1" let ?c = "?w ! ?q" let ?h = "take ?q ?w"
  from assms have q: "?q < length ?w" and e: "e = Suc ?q" by auto
  from plain_fileD [OF assms(1,2)] have w: "no_angles ?w" "py_idx (elided cl) (int l') = Inr ?w" by auto
  have ix: "py_idx ?w (int ?q) = Inr ?c" using q by (rule py_idx_nat)
  have h: "take e ?w = ?h @ [?c]" using q by (subst e) (simp add: take_Suc_conv_app_nth)
  from no_angles_nth [OF w(1) q] have na: "?c \<noteq> CHR ''>''" by blast
  have spn: "span_text cl l p l' e =
     (if l = l' then drop p ?h else drop p (elided cl ! l) @ whole_lines cl (l + 1) l' @ ?h) @ [?c]"
    if "l = l' \<Longrightarrow> p < e" for l
  proof (cases "l = l'")
    case True
    with that have "p \<le> length ?h" using e q by auto
    then have "drop p (?h @ [?c]) = drop p ?h @ [?c]" by simp
    with True show ?thesis by (simp only: span_text_def h if_True simp_thms)
  qed (simp add: span_text_def h del: One_nat_def)
  have past: "\<not> bracketed (span_text cl l' p l' e)" if "\<not> p < e"
    using that by (simp add: span_text_def bracketed_def)
  have br: "bracketed (t @ [?c]) \<longleftrightarrow> closer ?c \<and> unwind [mirror ?c] (mirrored t)" for t
  proof -
    have "bracketed (t @ [?c]) = bracketed (mirrored (t @ [?c]))" by (rule bracketed_mirrored [symmetric])
    also have "mirrored (t @ [?c]) = mirror ?c # mirrored t" by simp
    also have "bracketed (mirror ?c # mirrored t) \<longleftrightarrow> closer ?c \<and> unwind [mirror ?c] (mirrored t)"
      by (auto simp: bracketed_iff)
    finally show ?thesis .
  qed
  show ?thesis
  proof (cases "closer ?c")
    case False
    then have "ReverseCloseExpression cl l' ?q = Inr (?w, 0, -1)"
      using w ix na by (auto simp: ReverseCloseExpression_def closer_def)
    moreover have "\<not> bracketed (span_text cl l p l' e)"
      using False past spn br by (cases "l = l' \<longrightarrow> p < e") auto
    ultimately show ?thesis by simp
  next
    case True
    let ?st = "[mirror ?c]" and ?m = "mirrored ?h"
    have "FindStartOfExpressionInLine ?w (int ?q) [] = start_loop ?w (Suc ?q) []"
      by (simp add: FindStartOfExpressionInLine_def nat_add_distrib)
    also have "\<dots> = start_loop ?w ?q [?c]"
      using True by (simp add: start_step_def Let_def closer_def)
    also have "\<dots> = backward_result ?q (scan (map mirror [?c]) ?m)"
      using na q by (intro start_loop_scan [OF w(1)]) auto
    finally have f: "FindStartOfExpressionInLine ?w (int ?q) [] = backward_result ?q (scan ?st ?m)" by simp
    have step: "ReverseCloseExpression cl l' ?q =
       (case backward_result ?q (scan ?st ?m) of (start_pos, stack) \<Rightarrow>
          if start_pos > -1 then Inr (?w, l', start_pos) else reverse_loop cl ?w l' stack)"
    proof -
      have "(?c \<notin> set '')}]>'') = False" using True by (auto simp: closer_def)
      then show ?thesis by (simp only: ReverseCloseExpression_def w(2) ix f rbind_simps if_False)
    qed
    have len: "length ?h = ?q" using q by simp
    have here: "p < ?q \<and> unwind ?st (mirrored (drop p ?h)) \<longleftrightarrow> (\<exists>k. scan ?st ?m = Closed k \<and> p = ?q - k)"
    proof
      assume "p < ?q \<and> unwind ?st (mirrored (drop p ?h))"
      then show "\<exists>k. scan ?st ?m = Closed k \<and> p = ?q - k"
        using scan_Closed [of ?st ?m "?q - p"] len unfolding mirrored_drop by auto
    next
      assume "\<exists>k. scan ?st ?m = Closed k \<and> p = ?q - k"
      then obtain k where k: "scan ?st ?m = Closed k" "p = ?q - k" by blast
      moreover from scan_Closed_pos [OF _ k(1)] len have "0 < k" "k \<le> ?q" by auto
      ultimately show "p < ?q \<and> unwind ?st (mirrored (drop p ?h))"
        using scan_Closed [of ?st ?m k] len unfolding mirrored_drop by auto
    qed
    have same: "p < length ?w \<and> bracketed (span_text cl l' p l' e) \<longleftrightarrow> p < ?q \<and> unwind ?st (mirrored (drop p ?h))"
    proof (cases "p < e")
      case True
      then have "bracketed (span_text cl l' p l' e) \<longleftrightarrow> unwind ?st (mirrored (drop p ?h))"
        using spn [of l'] br \<open>closer ?c\<close> by simp
      moreover have "\<not> unwind ?st (mirrored (drop p ?h))" if "\<not> p < ?q" using that len by simp
      moreover have "p < length ?w" if "p < ?q" using that q by simp
      ultimately show ?thesis by blast
    qed (use past in auto)
    have later: "bracketed (span_text cl l p l' e) \<longleftrightarrow>
        unwind ?st (?m @ mirrored (drop p (elided cl ! l) @ whole_lines cl (l + 1) l'))" if "l < l'"
    proof -
      let ?t = "drop p (elided cl ! l) @ whole_lines cl (l + 1) l'"
      have "(l = l') = False" using that by simp
      with spn [of l] have "span_text cl l p l' e = (?t @ ?h) @ [?c]" by (simp only: if_False append_assoc simp_thms)
      with br [of "?t @ ?h"] True show ?thesis by (simp only: mirrored_append simp_thms)
    qed
    show ?thesis
    proof (cases "scan ?st ?m")
      case (Closed k)
      from scan_Closed_pos [OF _ Closed] len have k: "0 < k" "k \<le> ?q" by auto
      have "\<not> unwind ?st (?m @ mirrored (drop p (elided cl ! l) @ whole_lines cl (l + 1) l'))"
        if "p < length (elided cl ! l)"
        using unwind_take [OF _ Closed, where v = "mirrored (drop p (elided cl ! l) @ whole_lines cl (l + 1) l')"] that by auto
      with later have no: "\<not> bracketed (span_text cl l p l' e)" if "l < l'" "p < length (elided cl ! l)"
        using that by blast
      have yes: "p < length ?w \<and> bracketed (span_text cl l' p l' e) \<longleftrightarrow> p = ?q - k"
        unfolding same here using Closed by simp
      have res: "ReverseCloseExpression cl l' ?q = Inr (?w, l', int (?q - k))"
        unfolding step Closed by (simp add: backward_result_def)
      show ?thesis unfolding res using no yes by (cases "l = l'") auto
    next
      case Mismatch
      then have "\<not> unwind ?st (?m @ v)" for v using scan_Mismatch by blast
      moreover have "ReverseCloseExpression cl l' ?q \<noteq> Inr (x, l, int p)"
        unfolding step using Mismatch
        by (cases l') (simp_all add: backward_result_def pending_def reverse_loop.simps)
      ultimately show ?thesis using Mismatch here same later by (cases "l = l'") auto
    next
      case (Pending st')
      note pe = scan_Pending [OF _ Pending]
      have "CHR ''>'' \<notin> set [?c]" using na by simp
      from mirror_pending [OF this, of ?m st'] Pending
      have st': "map mirror st' \<noteq> []" "CHR ''>'' \<notin> set (map mirror st')" using pe by auto
      have "ReverseCloseExpression cl l' ?q = reverse_loop cl ?w l' (Some (map mirror st'))"
        unfolding step using Pending by (simp add: backward_result_def)
      moreover have "map mirror (map mirror st') = st'" by (simp add: comp_def)
      ultimately show ?thesis
        using reverse_loop_iff [OF assms(1) st' less_imp_le [OF assms(2)], where line = ?w and x = x and l = l and p = p] pe here same later Pending
        by (cases "l = l'") auto
    qed
  qed
qed

subsection \<open>Both searches find the bracketed text, and each undoes the other\<close>

text \<open>A small file with a call that spans two lines, for the witnesses below.\<close>

definition two_lines :: CleansedLines where
  "two_lines = \<lparr>elided = [''x = f(a[i],'', ''  (b));''], cl_lines = [], raw_lines = [],
                  lines_without_raw_strings = [], num_lines = 2\<rparr>"

lemma two_lines_plain: "plain_file two_lines" by code_simp

theorem close_expression_sound_witness:
  "\<exists>line l e. CloseExpression two_lines 0 5 = Inr (line, l, e) \<and> l \<le> 2"
proof -
  have "lines_ok two_lines" "0 < num_lines two_lines" "5 < length (elided two_lines ! 0)"
    "elided two_lines ! 0 ! 5 \<in> set ''([{''" "num_lines two_lines = 2" by code_simp+
  from close_expression_sound [OF this(1-4)] this(5) show ?thesis by auto
qed

text \<open>
  C16: in a file without angle brackets, \<open>CloseExpression\<close> started at a
  position of the file returns the place \<open>(l', e)\<close> exactly when the text from the position to
  that place is an opening bracket, balanced text and the closing bracket of the same kind; so it
  gives up exactly when there is no such place.
\<close>

theorem close_expression_spec:
  assumes "plain_file cl" and "l < num_lines cl" and "pos < length (elided cl ! l)" and "0 < e"
  shows "CloseExpression cl l pos = Inr (x, l', int e) \<longleftrightarrow>
     l \<le> l' \<and> l' < num_lines cl \<and> x = elided cl ! l' \<and> e \<le> length x \<and> bracketed (span_text cl l pos l' e)"
  using assms by (rule close_iff)

theorem close_expression_spec_witness:
  "CloseExpression two_lines 0 5 = Inr (''  (b));'', 1, int 6) \<and> bracketed ''(a[i],  (b))''"
proof -
  have hyps: "0 < num_lines two_lines" "5 < length (elided two_lines ! 0)" by code_simp+
  have "CloseExpression two_lines 0 5 = Inr (''  (b));'', 1, int 6)" by code_simp
  moreover from close_expression_spec [OF two_lines_plain hyps, of 6 "''  (b));''" 1] this
  have "bracketed (span_text two_lines 0 5 1 6)" by simp
  moreover have "span_text two_lines 0 5 1 6 = ''(a[i],  (b))''" by code_simp
  ultimately show ?thesis by simp
qed

text \<open>
  C17: in a file without angle brackets, \<open>CloseExpression\<close> from \<open>(l, pos)\<close>
  ends just past \<open>(l', e - 1)\<close> exactly when \<open>ReverseCloseExpression\<close> from \<open>(l', e - 1)\<close> ends at
  \<open>(l, pos)\<close>.
\<close>

theorem expression_roundtrip:
  assumes "plain_file cl" and "l < num_lines cl" and "pos < length (elided cl ! l)"
    and "l' < num_lines cl" and "0 < e" and "e \<le> length (elided cl ! l')"
  shows "CloseExpression cl l pos = Inr (elided cl ! l', l', int e) \<longleftrightarrow>
     ReverseCloseExpression cl l' (e - 1) = Inr (elided cl ! l, l, int pos)"
  using close_iff [OF assms(1-3,5), of "elided cl ! l'" l'] reverse_iff [OF assms(1,4-6), of "elided cl ! l" l pos] assms
  by simp

theorem expression_roundtrip_witness:
  "ReverseCloseExpression two_lines 1 5 = Inr (''x = f(a[i],'', 0, int 5)"
proof -
  have hyps: "0 < num_lines two_lines" "5 < length (elided two_lines ! 0)" "1 < num_lines two_lines"
    "6 \<le> length (elided two_lines ! 1)" by code_simp+
  have "CloseExpression two_lines 0 5 = Inr (elided two_lines ! 1, 1, int 6)" by code_simp
  with expression_roundtrip [OF two_lines_plain hyps(1-3) _ hyps(4)]
  have "ReverseCloseExpression two_lines 1 (6 - 1) = Inr (elided two_lines ! 0, 0, int 5)" by simp
  moreover have "elided two_lines ! 0 = ''x = f(a[i],''" by code_simp
  ultimately show ?thesis by simp
qed

subsection \<open>A search moves forward\<close>

lemma end_step_index: "end_step line i st = Inl (e, st') \<Longrightarrow> e = -1 \<or> e = int i + 1"
  by (auto simp: end_step_def Let_def split: if_splits)

lemma end_loop_index: "end_loop line is st = (e, st') \<Longrightarrow> e = -1 \<or> (\<exists>i \<in> set is. e = int i + 1)"
  by (induction "is" arbitrary: st) (auto split: sum.splits dest: end_step_index)

lemma close_loop_later:
  "close_loop cl x l st = Inr (x', l', e) \<Longrightarrow> e < 0 \<or> (l < l' \<and> l' < NumLines cl)"
proof (induction cl x l st rule: close_loop.induct)
  case (1 cl x l st)
  show ?case
  proof (cases "pending st \<and> l + 1 < NumLines cl")
    case True
    with 1(2) obtain line where line: "py_idx (elided cl) (int (l + 1)) = Inr line"
      by (subst (asm) close_loop.simps) (auto simp: rbind_Inr_iff)
    obtain e1 st1 where f: "FindEndOfExpressionInLine line 0 (the st) = (e1, st1)" by fastforce
    from 1(2) True line f have "(if e1 > -1 then Inr (line, l + 1, e1) else close_loop cl line (l + 1) st1)
        = Inr (x', l', e)" by (subst (asm) close_loop.simps) (simp del: of_nat_add of_nat_Suc)
    with 1(1) [OF True line f [symmetric]] True show ?thesis by (auto split: if_splits)
  next
    case False
    with 1(2) show ?thesis by (subst (asm) close_loop.simps) auto
  qed
qed

lemma close_progress:
  assumes "CloseExpression cl l p = Inr (x, l', e)" and "py_idx (elided cl) (int l) = Inr line"
    and "p < length line" and "line ! p = CHR ''<''"
  shows "e < 0 \<or> (l' = l \<and> int p + 1 < e \<and> e \<le> int (length line)) \<or> (l < l' \<and> l' < NumLines cl)"
proof -
  obtain e1 st1 where f: "FindEndOfExpressionInLine line p [] = (e1, st1)" by fastforce
  have "[p..<length line] = p # [p + 1..<length line]" using assms(3) by (simp add: upt_conv_Cons)
  then have "case end_step line p [] of Inl r \<Rightarrow> r = (e1, st1)
    | Inr st \<Rightarrow> end_loop line [p + 1..<length line] st = (e1, st1)"
    using f by (simp add: FindEndOfExpressionInLine_def split: sum.splits)
  moreover have "end_step line p [] = Inl r \<Longrightarrow> fst r = -1" for r
    using assms(4) by (auto simp: end_step_def Let_def split: if_splits)
  ultimately have e1: "e1 = -1 \<or> (int p + 1 < e1 \<and> e1 \<le> int (length line))"
    by (force split: sum.splits dest: end_loop_index)
  have ix: "py_idx line (int p) = Inr (line ! p)" using assms(3) by simp
  from assms(1,2,4) ix f
  have "(x, l', e) = (line, NumLines cl, -1) \<or>
      (if e1 > -1 then Inr (line, l, e1) else close_loop cl line l st1) = (Inr (x, l', e) :: _ res)"
    by (auto simp: CloseExpression_def split: if_splits)
  then show ?thesis
  proof
    assume c: "(if e1 > -1 then Inr (line, l, e1) else close_loop cl line l st1) = (Inr (x, l', e) :: _ res)"
    show ?thesis
    proof (cases "e1 > -1")
      case False
      with c have "close_loop cl line l st1 = Inr (x, l', e)" by simp
      from close_loop_later [OF this] show ?thesis by blast
    qed (use c e1 in auto)
  qed simp
qed

subsection \<open>Both searches return\<close>

text \<open>
  Started on any position of the file, a search raises nothing, and its result is either that nothing was found
  or a position of the file, with the line it is on.
\<close>

definition found_after :: "CleansedLines \<Rightarrow> nat \<Rightarrow> string \<times> nat \<times> int \<Rightarrow> bool" where
  "found_after cl l r = (case r of (line, l', e) \<Rightarrow>
     (l' = num_lines cl \<and> e = -1 \<and> line \<in> set (elided cl)) \<or>
     (l \<le> l' \<and> l' < num_lines cl \<and> line = elided cl ! l' \<and> 0 < e \<and> e \<le> int (length line)))"

definition found_before :: "CleansedLines \<Rightarrow> nat \<Rightarrow> string \<times> nat \<times> int \<Rightarrow> bool" where
  "found_before cl l r = (case r of (line, l', e) \<Rightarrow>
     (l' = 0 \<and> e = -1) \<or> (l' \<le> l \<and> line = elided cl ! l' \<and> 0 \<le> e \<and> e < int (length line)))"

lemma FindEnd_index: "FindEndOfExpressionInLine line k st = (e, st') \<Longrightarrow> e = -1 \<or> (int k < e \<and> e \<le> int (length line))"
  unfolding FindEndOfExpressionInLine_def by (drule end_loop_index) auto

lemma close_loop_lands:
  "lines_ok cl \<Longrightarrow> line \<in> set (elided cl) \<Longrightarrow> lands (found_after cl l) (close_loop cl line l st)"
proof (induction cl line l st rule: close_loop.induct)
  case (1 cl line l st)
  show ?case
  proof (cases "pending st \<and> l + 1 < NumLines cl")
    case True
    then have l: "l + 1 < length (elided cl)" using 1(2) by (simp add: lines_ok_def NumLines_def)
    let ?line = "elided cl ! (l + 1)"
    obtain e st' where f: "FindEndOfExpressionInLine ?line 0 (the st) = (e, st')" by fastforce
    have x: "py_idx (elided cl) (int (l + 1)) = Inr ?line" using l by (rule py_idx_nat)
    have run: "close_loop cl line l st = (if e > -1 then Inr (?line, l + 1, e) else close_loop cl ?line (l + 1) st')"
      using True x f by (subst close_loop.simps) (simp del: of_nat_add of_nat_Suc)
    have "lands (found_after cl (l + 1)) (close_loop cl ?line (l + 1) st')" if "\<not> e > -1"
      using 1(1) [OF True x f [symmetric] that 1(2)] l by simp
    then show ?thesis
      using FindEnd_index [OF f] l 1(2) unfolding run
      by (auto simp: found_after_def lines_ok_def elim!: lands_mono split: prod.splits)
  next
    case False
    with 1(3) show ?thesis by (subst close_loop.simps) (auto simp: found_after_def NumLines_def)
  qed
qed

lemma CloseExpression_lands:
  assumes "lines_ok cl" "l < num_lines cl" "p < length (elided cl ! l)"
  shows "lands (found_after cl l) (CloseExpression cl l p)"
proof -
  let ?line = "elided cl ! l"
  have ix: "py_idx (elided cl) (int l) = Inr ?line" "py_idx ?line (int p) = Inr (?line ! p)"
    and mem: "?line \<in> set (elided cl)"
    using assms by (simp_all add: lines_ok_def)
  obtain e st where f: "FindEndOfExpressionInLine ?line p [] = (e, st)" by fastforce
  show ?thesis
    using close_loop_lands [OF assms(1) mem, of l st] FindEnd_index [OF f] mem assms(2)
    unfolding CloseExpression_def ix rbind_simps f by (auto simp: found_after_def NumLines_def)
qed

lemma start_step_index: "start_step line i st = Inl (e, st') \<Longrightarrow> e = -1 \<or> e = int i"
  by (auto simp: start_step_def Let_def split: if_splits)

lemma start_loop_index: "start_loop line n st = (e, st') \<Longrightarrow> e = -1 \<or> (0 \<le> e \<and> e < int n)"
proof (induction line n st rule: start_loop.induct)
  case (2 line i st)
  show ?case
  proof (cases "start_step line i st")
    case (Inl r)
    with 2 show ?thesis by (cases r) (auto dest: start_step_index)
  next
    case (Inr r)
    obtain skip st1 where r: "r = (skip, st1)" by (cases r)
    from 2(2) Inr r have "start_loop line (if skip then i - 1 else i) st1 = (e, st')" by simp
    from 2(1) [OF Inr r [symmetric] this] show ?thesis by (auto split: if_splits)
  qed
qed simp

lemma FindStart_index:
  "FindStartOfExpressionInLine line (int p) st = (e, st') \<Longrightarrow> e = -1 \<or> (0 \<le> e \<and> e \<le> int p)"
  unfolding FindStartOfExpressionInLine_def by (drule start_loop_index) auto

lemma reverse_loop_lands:
  "lines_ok cl \<Longrightarrow> l < num_lines cl \<Longrightarrow> lands (found_before cl l) (reverse_loop cl line l st)"
proof (induction l arbitrary: line st)
  case 0
  then show ?case by (simp add: reverse_loop.simps found_before_def)
next
  case (Suc l)
  show ?case
  proof (cases "pending st")
    case True
    let ?line = "elided cl ! l"
    have x: "py_idx (elided cl) (int l) = Inr ?line" using Suc.prems by (simp add: lines_ok_def)
    obtain e st' where f: "FindStartOfExpressionInLine ?line (int (length ?line) - 1) (the st) = (e, st')" by fastforce
    then have e: "e = -1 \<or> (0 \<le> e \<and> e < int (length ?line))"
      unfolding FindStartOfExpressionInLine_def by (auto dest!: start_loop_index)
    have run: "reverse_loop cl line (Suc l) st = (if e > -1 then Inr (?line, l, e) else reverse_loop cl ?line l st')"
      using True x f by (simp add: reverse_loop.simps)
    have "lands (found_before cl l) (reverse_loop cl ?line l st')" using Suc by simp
    with e show ?thesis unfolding run
      by (auto simp: found_before_def elim!: lands_mono split: prod.splits)
  next
    case False
    then show ?thesis by (simp add: reverse_loop.simps found_before_def)
  qed
qed

lemma ReverseCloseExpression_lands:
  assumes "lines_ok cl" "l < num_lines cl" "p < length (elided cl ! l)"
  shows "lands (found_before cl l) (ReverseCloseExpression cl l p)"
proof -
  let ?line = "elided cl ! l"
  have ix: "py_idx (elided cl) (int l) = Inr ?line" "py_idx ?line (int p) = Inr (?line ! p)"
    using assms by (simp_all add: lines_ok_def)
  obtain e st where f: "FindStartOfExpressionInLine ?line (int p) [] = (e, st)" by fastforce
  show ?thesis
    using reverse_loop_lands [OF assms(1,2), of ?line st] FindStart_index [OF f] assms(3)
    unfolding ReverseCloseExpression_def ix rbind_simps f by (auto simp: found_before_def)
qed

end
