(* ===== verification/Paths.thy ===== *)
theory Paths
  imports Py_Prelude
begin

section \<open>The path functions of the standard library\<close>

text \<open>
  What \<^verbatim>\<open>src/cpplint.py\<close> uses of \<open>os.path\<close> on a POSIX system, with the algorithms of
  Python 2.7's \<open>posixpath\<close> and \<open>genericpath\<close>, and \<open>os.path.exists\<close> and the working directory as
  the fields of an environment.
\<close>

record env =
  fs_exists :: "string \<Rightarrow> bool"
  fs_cwd :: string

abbreviation slash :: char where "slash \<equiv> CHR ''/''"

subsection \<open>Splitting\<close>

text \<open>\<open>rfind\<close> of a character, as the text before and after its last occurrence.\<close>

definition py_rpartition :: "char \<Rightarrow> string \<Rightarrow> (string \<times> string) option" where
  "py_rpartition d p =
     (if d \<in> set p
      then Some (rev (tl (dropWhile (\<lambda>c. c \<noteq> d) (rev p))), rev (takeWhile (\<lambda>c. c \<noteq> d) (rev p)))
      else None)"

definition rstrip_char :: "char \<Rightarrow> string \<Rightarrow> string" where
  "rstrip_char d p = rev (dropWhile (\<lambda>c. c = d) (rev p))"

text \<open>The part up to and including the last slash, and the rest.\<close>

definition last_slash :: "string \<Rightarrow> string \<times> string" where
  "last_slash p = (case py_rpartition slash p of None \<Rightarrow> ([], p) | Some (h, t) \<Rightarrow> (h @ [slash], t))"

definition path_split :: "string \<Rightarrow> string \<times> string" where
  "path_split p =
     (let (hd_part, tail) = last_slash p
      in (if list_all (\<lambda>c. c = slash) hd_part then hd_part else rstrip_char slash hd_part, tail))"

definition dirname :: "string \<Rightarrow> string" where "dirname p = fst (path_split p)"

definition basename :: "string \<Rightarrow> string" where "basename p = snd (path_split p)"

text \<open>Leading periods of the last component do not start an extension.\<close>

definition splitext :: "string \<Rightarrow> string \<times> string" where
  "splitext p =
     (let (hd_part, tail) = last_slash p
      in case py_rpartition (CHR ''.'') tail of
           None \<Rightarrow> (p, [])
         | Some (root, ext) \<Rightarrow>
             if list_all (\<lambda>c. c = CHR ''.'') root then (p, []) else (hd_part @ root, CHR ''.'' # ext))"

subsection \<open>Joining and normalising\<close>

definition path_join :: "string \<Rightarrow> string \<Rightarrow> string" where
  "path_join a b =
     (if py_startswith b [slash] then b
      else if a = [] \<or> py_endswith a [slash] then a @ b
      else a @ [slash] @ b)"

definition norm_step :: "nat \<Rightarrow> string \<Rightarrow> string list \<Rightarrow> string list" where
  "norm_step initial_slashes c new_comps =
     (if c = [] \<or> c = ''.'' then new_comps
      else if c \<noteq> ''..'' \<or> (initial_slashes = 0 \<and> new_comps = []) \<or>
              (new_comps \<noteq> [] \<and> last new_comps = ''..'')
      then new_comps @ [c]
      else if new_comps \<noteq> [] then butlast new_comps else new_comps)"

definition normpath :: "string \<Rightarrow> string" where
  "normpath path =
     (if path = [] then ''.''
      else let initial_slashes =
                 (if py_startswith path ''/'' then
                    if py_startswith path ''//'' \<and> \<not> py_startswith path ''///'' then 2 else 1
                  else 0::nat);
               comps = fold (norm_step initial_slashes) (py_split_on slash path) [];
               result = replicate initial_slashes slash @ py_join ''/'' comps
           in if result = [] then ''.'' else result)"

definition abspath :: "env \<Rightarrow> string \<Rightarrow> string" where
  "abspath env path = normpath (if py_startswith path ''/'' then path else path_join (fs_cwd env) path)"

text \<open>\<open>os.path.commonprefix\<close> of two paths works character by character.\<close>

fun commonprefix :: "string \<Rightarrow> string \<Rightarrow> string" where
  "commonprefix (x # xs) (y # ys) = (if x = y then x # commonprefix xs ys else [])"
| "commonprefix _ _ = []"

subsection \<open>Facts\<close>

lemma takeWhile_dropWhile_rev: "rev (dropWhile P (rev p)) @ rev (takeWhile P (rev p)) = p"
  by (metis rev_append rev_rev_ident takeWhile_dropWhile_id)

lemma py_rpartition_Some:
  assumes "py_rpartition d p = Some (h, t)"
  shows "p = h @ d # t \<and> d \<notin> set t"
proof -
  from assms have d: "d \<in> set p" and h: "h = rev (tl (dropWhile (\<lambda>c. c \<noteq> d) (rev p)))"
    and t: "t = rev (takeWhile (\<lambda>c. c \<noteq> d) (rev p))"
    by (auto simp: py_rpartition_def split: if_splits)
  from d have "dropWhile (\<lambda>c. c \<noteq> d) (rev p) \<noteq> []" by simp
  then have "dropWhile (\<lambda>c. c \<noteq> d) (rev p) = d # tl (dropWhile (\<lambda>c. c \<noteq> d) (rev p))"
    using hd_dropWhile [of "\<lambda>c. c \<noteq> d" "rev p"] by (cases "dropWhile (\<lambda>c. c \<noteq> d) (rev p)") auto
  then have "rev (dropWhile (\<lambda>c. c \<noteq> d) (rev p)) = h @ [d]" unfolding h by (metis rev.simps(2))
  with takeWhile_dropWhile_rev [of "\<lambda>c. c \<noteq> d" p] have "p = h @ d # t" unfolding t by simp
  moreover have "d \<notin> set t" unfolding t by (auto dest: set_takeWhileD)
  ultimately show ?thesis by blast
qed

lemma py_rpartition_None: "py_rpartition d p = None \<longleftrightarrow> d \<notin> set p"
  by (simp add: py_rpartition_def)

lemma last_slash_split:
  assumes "last_slash p = (h, t)"
  shows "p = h @ t \<and> slash \<notin> set t \<and> (h = [] \<or> last h = slash)"
  using assms by (auto simp: last_slash_def py_rpartition_None split: option.splits dest: py_rpartition_Some)

lemma last_occurrence_unique:
  assumes "d \<notin> set t" "d \<notin> set t'" "h @ d # t = h' @ d # t'"
  shows "h = h' \<and> t = t'"
proof -
  have tw: "takeWhile (\<lambda>c. c \<noteq> d) (rev (x @ d # y)) = rev y" if "d \<notin> set y" for x y
    using that by (induction y rule: rev_induct) auto
  from tw [OF assms(1), of h] tw [OF assms(2), of h'] assms(3) have "t = t'" by simp
  with assms(3) show ?thesis by simp
qed

lemma last_slash_unique: "slash \<notin> set t \<Longrightarrow> h = [] \<or> last h = slash \<Longrightarrow> last_slash (h @ t) = (h, t)"
proof (cases "h = []")
  case False
  assume t: "slash \<notin> set t" "h = [] \<or> last h = slash"
  with False obtain h' where h: "h = h' @ [slash]" by (metis append_butlast_last_id)
  obtain a b where ab: "py_rpartition slash (h @ t) = Some (a, b)"
    using h by (cases "py_rpartition slash (h @ t)") (auto simp: py_rpartition_None)
  from py_rpartition_Some [OF this] have "h' @ slash # t = a @ slash # b" "slash \<notin> set b" using h by auto
  with last_occurrence_unique [of slash t b h' a] t(1) have "h' = a \<and> t = b" by blast
  with h ab show ?thesis by (simp add: last_slash_def)
qed (simp add: last_slash_def py_rpartition_def)

lemma rstrip_char_prefix: "prefix (rstrip_char d p) p"
  unfolding rstrip_char_def by (metis prefixI takeWhile_dropWhile_rev)

lemma dirname_prefix: "prefix (dirname p) p"
proof -
  obtain h t where s: "last_slash p = (h, t)" by fastforce
  have "prefix h p" using last_slash_split [OF s] by (auto simp: prefixI)
  moreover have "prefix (dirname p) h"
    using rstrip_char_prefix s by (auto simp: dirname_def path_split_def)
  ultimately show ?thesis using prefix_order.order_trans by blast
qed

lemma dirname_shorter: "dirname p \<noteq> p \<Longrightarrow> length (dirname p) < length p"
  using dirname_prefix [of p] by (metis prefix_length_less strict_prefixI)

lemma basename_no_slash: "slash \<notin> set (basename p)"
  using last_slash_split [of p] by (cases "last_slash p") (simp add: basename_def path_split_def)

lemma splitext_append: "fst (splitext p) @ snd (splitext p) = p"
  using last_slash_split [of p]
  by (auto simp: splitext_def split: option.splits prod.splits dest: py_rpartition_Some)

lemma splitext_extension: "snd (splitext p) = [] \<or> (\<exists>e. snd (splitext p) = CHR ''.'' # e \<and> CHR ''.'' \<notin> set e \<and> slash \<notin> set e)"
  using last_slash_split [of p]
  by (auto simp: splitext_def split: option.splits prod.splits dest!: py_rpartition_Some)

lemma commonprefix_prefix [simp]: "commonprefix a (a @ b) = a" "commonprefix a a = a"
  by (induction a) auto

lemma commonprefix_of_prefix: "prefix a b \<Longrightarrow> commonprefix a b = a"
  by (auto simp: prefix_def)

end
