(* ===== verification/File_Info.thy ===== *)
theory File_Info
  imports Paths
begin

section \<open>The class \<open>FileInfo\<close>\<close>

text \<open>
  \<open>FileInfo\<close> and \<open>_IsSourceExtension\<close> of \<^verbatim>\<open>src/cpplint.py\<close>.  An instance is its file name.
  The loop that climbs a Subversion checkout may not end, so it is a partial function and
  \<open>RepositoryName\<close> has \<open>Hangs\<close> among its outcomes; the last section says exactly when.
\<close>

definition IsSourceExtension :: "string \<Rightarrow> bool" where
  "IsSourceExtension s \<longleftrightarrow> s \<in> set [''c'', ''cc'', ''cpp'', ''cxx'']"

definition FullName :: "env \<Rightarrow> string \<Rightarrow> string" where
  "FullName env filename = py_replace [backslash] ''/'' (abspath env filename)"

partial_function (option) svn_loop :: "env \<Rightarrow> string \<Rightarrow> string \<Rightarrow> string option" where
  "svn_loop env root_dir one_up_dir =
     (if fs_exists env (path_join one_up_dir ''.svn'')
      then svn_loop env (dirname root_dir) (dirname one_up_dir)
      else Some root_dir)"

declare svn_loop.simps [code]

definition has_vcs :: "env \<Rightarrow> string \<Rightarrow> bool" where
  "has_vcs env d \<longleftrightarrow> fs_exists env (path_join d ''.git'') \<or> fs_exists env (path_join d ''.hg'') \<or>
     fs_exists env (path_join d ''.svn'')"

function vcs_loop :: "env \<Rightarrow> string \<Rightarrow> string \<Rightarrow> string" where
  "vcs_loop env root_dir current_dir =
     (if current_dir \<noteq> dirname current_dir
      then vcs_loop env (if has_vcs env current_dir then current_dir else root_dir) (dirname current_dir)
      else root_dir)"
  by pat_completeness auto
termination
  by (relation "measure (\<lambda>(env, root_dir, current_dir). length current_dir)") (auto intro: dirname_shorter)

declare vcs_loop.simps [simp del]

definition RepositoryName :: "env \<Rightarrow> string \<Rightarrow> string res" where
  "RepositoryName env filename =
     (let fullname = FullName env filename in
      if fs_exists env fullname then
        let project_dir = dirname fullname in
        if fs_exists env (path_join project_dir ''.svn'') then
          case svn_loop env project_dir (dirname project_dir) of
            None \<Rightarrow> Inl Hangs
          | Some root_dir \<Rightarrow> Inr (drop (length (commonprefix root_dir project_dir) + 1) fullname)
        else
          let root_dir = vcs_loop env project_dir project_dir in
          if has_vcs env root_dir
          then Inr (drop (length (commonprefix root_dir project_dir) + 1) fullname)
          else Inr fullname
      else Inr fullname)"

definition Split :: "env \<Rightarrow> string \<Rightarrow> (string \<times> string \<times> string) res" where
  "Split env filename =
     rbind (RepositoryName env filename) (\<lambda>googlename.
       case path_split googlename of (project, rest) \<Rightarrow>
         case splitext rest of (base, ext) \<Rightarrow> Inr (project, base, ext))"

definition BaseName :: "env \<Rightarrow> string \<Rightarrow> string res" where
  "BaseName env filename = rbind (Split env filename) (\<lambda>(project, base, ext). Inr base)"

definition Extension :: "env \<Rightarrow> string \<Rightarrow> string res" where
  "Extension env filename = rbind (Split env filename) (\<lambda>(project, base, ext). Inr ext)"

definition NoExtension :: "env \<Rightarrow> string \<Rightarrow> string res" where
  "NoExtension env filename =
     rbind (Split env filename) (\<lambda>(project, base, ext). Inr (py_join ''/'' [project, base]))"

definition IsSource :: "env \<Rightarrow> string \<Rightarrow> bool res" where
  "IsSource env filename = rbind (Extension env filename) (\<lambda>ext. Inr (IsSourceExtension (drop 1 ext)))"

subsection \<open>Where the name starts\<close>

text \<open>The directories from \<open>d\<close> upwards, without the file system root.\<close>

function ancestors :: "string \<Rightarrow> string list" where
  "ancestors d = (if d \<noteq> dirname d then d # ancestors (dirname d) else [])"
  by pat_completeness auto
termination
  by (relation "measure length") (auto intro: dirname_shorter)

declare ancestors.simps [simp del]

lemma vcs_loop_outermost:
  "vcs_loop env r d = (case filter (has_vcs env) (ancestors d) of [] \<Rightarrow> r | ds \<Rightarrow> last ds)"
proof (induction d arbitrary: r rule: ancestors.induct)
  case (1 d)
  then show ?case
    by (subst vcs_loop.simps, subst ancestors.simps) (auto split: list.splits)
qed

text \<open>A directory that is not the root is followed by a slash.\<close>

lemma dirname_cut:
  assumes "dirname (dirname p) \<noteq> dirname p"
  shows "\<exists>r. p = dirname p @ slash # r"
proof -
  obtain h t where s: "last_slash p = (h, t)" by fastforce
  note p = last_slash_split [OF s]
  show ?thesis
  proof (cases "list_all (\<lambda>c. c = slash) h")
    case True
    then have d: "dirname p = h" using s by (simp add: dirname_def path_split_def)
    from p have "last_slash (h @ []) = (h, [])" by (intro last_slash_unique) auto
    then have "dirname h = h" using True by (simp add: dirname_def path_split_def)
    with d assms show ?thesis by simp
  next
    case False
    then have d: "dirname p = rstrip_char slash h" using s by (simp add: dirname_def path_split_def)
    from False p obtain h' where h: "h = h' @ [slash]" by (cases h rule: rev_cases) auto
    have "h = rstrip_char slash h @ rev (takeWhile (\<lambda>c. c = slash) (rev h))"
      unfolding rstrip_char_def by (simp only: takeWhile_dropWhile_rev)
    moreover have "set (takeWhile (\<lambda>c. c = slash) (rev h)) \<subseteq> {slash}" by (auto dest: set_takeWhileD)
    moreover have "takeWhile (\<lambda>c. c = slash) (rev h) \<noteq> []" unfolding h by simp
    ultimately obtain s' where "h = rstrip_char slash h @ slash # s'"
      by (cases "rev (takeWhile (\<lambda>c. c = slash) (rev h))") auto
    with p d show ?thesis by (metis append.assoc append_Cons)
  qed
qed

lemma ancestor_cut: "d \<in> set (ancestors p) \<Longrightarrow> d = p \<or> (\<exists>r. p = d @ slash # r)"
proof (induction p rule: ancestors.induct)
  case (1 p)
  from 1(2) have ne: "p \<noteq> dirname p" and m: "d = p \<or> d \<in> set (ancestors (dirname p))"
    by (subst (asm) ancestors.simps, simp split: if_splits)+
  show ?case
  proof (cases "d = p")
    case False
    with m have d: "d \<in> set (ancestors (dirname p))" by blast
    then have "dirname (dirname p) \<noteq> dirname p" by (subst (asm) ancestors.simps) (auto split: if_splits)
    then obtain r where r: "p = dirname p @ slash # r" using dirname_cut by blast
    from 1(1) [OF ne d] show ?thesis
    proof
      assume "\<exists>r'. dirname p = d @ slash # r'"
      then obtain r' where "dirname p = d @ slash # r'" by blast
      with r have "p = d @ slash # (r' @ slash # r)" by simp
      then show ?thesis by blast
    qed (use r in auto)
  qed simp
qed

lemma ancestors_proper: "d \<in> set (ancestors p) \<Longrightarrow> dirname d \<noteq> d"
  by (induction p rule: ancestors.induct) (metis ancestors.simps list.distinct(1) list.set_cases set_ConsD)

lemma ancestor_of_file: "d \<in> set (ancestors (dirname p)) \<Longrightarrow> \<exists>r. p = d @ slash # r"
proof -
  assume d: "d \<in> set (ancestors (dirname p))"
  then have "dirname (dirname p) \<noteq> dirname p" by (subst (asm) ancestors.simps) (auto split: if_splits)
  then obtain r where r: "p = dirname p @ slash # r" using dirname_cut by blast
  from ancestor_cut [OF d] show ?thesis
  proof
    assume "\<exists>r'. dirname p = d @ slash # r'"
    then obtain r' where "dirname p = d @ slash # r'" by blast
    with r have "p = d @ slash # (r' @ slash # r)" by simp
    then show ?thesis by blast
  qed (use r in auto)
qed

lemma has_vcs_loop:
  assumes "filter (has_vcs env) (ancestors d) \<noteq> []"
  shows "has_vcs env (vcs_loop env r d) \<and> vcs_loop env r d = last (filter (has_vcs env) (ancestors d))"
proof -
  let ?ds = "filter (has_vcs env) (ancestors d)"
  have "last ?ds \<in> set ?ds" using assms by (rule last_in_set)
  then show ?thesis using assms by (auto simp: vcs_loop_outermost split: list.splits)
qed


definition git_tree :: env where
  "git_tree = \<lparr>fs_exists = (\<lambda>p. p \<in> set [''/r/a/b.cc'', ''/r/.git'', ''/r/a/.git'']), fs_cwd = ''/r/a''\<rparr>"


subsection \<open>When the climb of a Subversion checkout ends\<close>

lemma svn_loop_ends:
  "\<not> fs_exists env (path_join ((dirname ^^ n) d) ''.svn'') \<Longrightarrow> svn_loop env r d \<noteq> None"
proof (induction n arbitrary: r d)
  case 0
  then show ?case by (subst svn_loop.simps) simp
next
  case (Suc n)
  then have "svn_loop env (dirname r) (dirname d) \<noteq> None" by (simp add: funpow_swap1)
  then show ?case by (subst svn_loop.simps) simp
qed

lemma svn_loop_top:
  assumes "svn_loop env r d = Some r'"
  shows "\<exists>n. \<not> fs_exists env (path_join ((dirname ^^ n) d) ''.svn'')"
proof (rule svn_loop.raw_induct
    [where P = "\<lambda>env r d r'. \<exists>n. \<not> fs_exists env (path_join ((dirname ^^ n) d) ''.svn'')", OF _ assms])
  fix loop env r d r'
  assume IH: "\<And>env r d r'. loop env r d = Some r' \<Longrightarrow> \<exists>n. \<not> fs_exists env (path_join ((dirname ^^ n) d) ''.svn'')"
    and step: "(if fs_exists env (path_join d ''.svn'') then loop env (dirname r) (dirname d) else Some r) = Some r'"
  show "\<exists>n. \<not> fs_exists env (path_join ((dirname ^^ n) d) ''.svn'')"
  proof (cases "fs_exists env (path_join d ''.svn'')")
    case True
    with step have "loop env (dirname r) (dirname d) = Some r'" by simp
    from IH [OF this] obtain n where "\<not> fs_exists env (path_join ((dirname ^^ n) (dirname d)) ''.svn'')" by blast
    then have "\<not> fs_exists env (path_join ((dirname ^^ Suc n) d) ''.svn'')" by (simp add: funpow_swap1)
    then show ?thesis by blast
  next
    case False
    then have "\<not> fs_exists env (path_join ((dirname ^^ 0) d) ''.svn'')" by simp
    then show ?thesis by blast
  qed
qed

lemma RepositoryName_outcome:
  "RepositoryName env filename =
     (if fs_exists env (FullName env filename) \<and>
         (\<forall>n. fs_exists env (path_join ((dirname ^^ (n + 1)) (FullName env filename)) ''.svn''))
      then Inl Hangs
      else Inr (projr (RepositoryName env filename)))"
proof -
  let ?full = "FullName env filename" let ?dir = "dirname ?full"
  have shift: "(dirname ^^ (n + 1)) ?full = (dirname ^^ n) ?dir" for n by (simp add: funpow_swap1)
  have hang: "svn_loop env ?dir (dirname ?dir) = None \<longleftrightarrow>
      (\<forall>n. fs_exists env (path_join ((dirname ^^ Suc n) ?dir) ''.svn''))"
  proof -
    have "(dirname ^^ Suc n) ?dir = (dirname ^^ n) (dirname ?dir)" for n by (simp add: funpow_swap1)
    then show ?thesis using svn_loop_ends [of env _ "dirname ?dir" ?dir] svn_loop_top [of env ?dir "dirname ?dir"]
      by (metis not_Some_eq)
  qed
  show ?thesis
  proof (cases "fs_exists env ?full \<and> fs_exists env (path_join ?dir ''.svn'')")
    case True
    then have "(\<forall>n. fs_exists env (path_join ((dirname ^^ n) ?dir) ''.svn'')) \<longleftrightarrow>
        (\<forall>n. fs_exists env (path_join ((dirname ^^ Suc n) ?dir) ''.svn''))"
      by (metis funpow_0 not0_implies_Suc)
    with True hang show ?thesis unfolding shift
      by (cases "svn_loop env ?dir (dirname ?dir)") (simp_all add: RepositoryName_def Let_def)
  next
    case False
    then have "\<not> (fs_exists env ?full \<and> (\<forall>n. fs_exists env (path_join ((dirname ^^ n) ?dir) ''.svn'')))"
      by (metis funpow_0)
    with False show ?thesis unfolding shift
      by (auto simp: RepositoryName_def Let_def)
  qed
qed

subsection \<open>Directory, base name and extension\<close>

lemma Split_parts:
  assumes "Split env filename = Inr (project, base, ext)"
  shows "\<exists>g. RepositoryName env filename = Inr g \<and> project = dirname g \<and> base @ ext = basename g \<and>
     slash \<notin> set (base @ ext) \<and> (ext = [] \<or> (\<exists>e. ext = CHR ''.'' # e))"
proof -
  from assms obtain g where r: "RepositoryName env filename = Inr g"
    and "(case path_split g of (project, rest) \<Rightarrow> case splitext rest of (base, ext) \<Rightarrow> Inr (project, base, ext))
      = (Inr (project, base, ext) :: (string \<times> string \<times> string) res)"
    by (auto simp: Split_def rbind_Inr_iff)
  then have g: "project = fst (path_split g)" "splitext (snd (path_split g)) = (base, ext)"
    by (auto split: prod.splits)
  with r splitext_append [of "basename g"] splitext_extension [of "basename g"] basename_no_slash [of g]
  show ?thesis by (fastforce simp: dirname_def basename_def)
qed

lemma Split_returns: "RepositoryName env filename = Inr g \<Longrightarrow> returns (Split env filename)"
  by (simp add: Split_def split: prod.split)

text \<open>
  C30: \<open>RepositoryName\<close> returns, without exception, unless the file
  exists and every directory above it, the root of the file system included, holds \<^verbatim>\<open>.svn\<close>; then
  it never returns.
\<close>

theorem repository_name_returns_iff:
  "if fs_exists env (FullName env filename) \<and>
      (\<forall>n. fs_exists env (path_join ((dirname ^^ (n + 1)) (FullName env filename)) ''.svn''))
   then RepositoryName env filename = Inl Hangs
   else returns (RepositoryName env filename)"
  using RepositoryName_outcome [of env filename] by (metis returns_simps(1))

end
