(* ===== verification/Include_State.thy ===== *)
theory Include_State
  imports Cleansing File_Info "HOL-Library.List_Lexorder" "HOL-Library.Char_ord"
begin

section \<open>The order of include directives\<close>

text \<open>
  The class \<open>_IncludeState\<close>, \<open>_DropCommonSuffixes\<close>, \<open>_ClassifyInclude\<close> and \<open>CheckIncludeLine\<close> of
  \<^verbatim>\<open>src/cpplint.py\<close>.  Header types and sections are datatypes; sections are ordered as the integer
  constants of the source are.
\<close>

datatype header_type = C_SYS_HEADER | CPP_SYS_HEADER | LIKELY_MY_HEADER | POSSIBLE_MY_HEADER | OTHER_HEADER

datatype include_section = INITIAL_SECTION | MY_H_SECTION | C_SECTION | CPP_SECTION | OTHER_H_SECTION

primrec section_number :: "include_section \<Rightarrow> nat" where
  "section_number INITIAL_SECTION = 0"
| "section_number MY_H_SECTION = 1"
| "section_number C_SECTION = 2"
| "section_number CPP_SECTION = 3"
| "section_number OTHER_H_SECTION = 4"

lemma section_number_inj: "section_number a = section_number b \<Longrightarrow> a = b"
  by (cases a; cases b) simp_all

instantiation include_section :: linorder
begin

definition less_eq_include_section :: "include_section \<Rightarrow> include_section \<Rightarrow> bool" where
  "less_eq_include_section a b \<longleftrightarrow> section_number a \<le> section_number b"

definition less_include_section :: "include_section \<Rightarrow> include_section \<Rightarrow> bool" where
  "less_include_section a b \<longleftrightarrow> section_number a < section_number b"

instance
  by standard (auto simp: less_eq_include_section_def less_include_section_def intro: section_number_inj)

end

primrec TYPE_NAMES :: "header_type \<Rightarrow> string" where
  "TYPE_NAMES C_SYS_HEADER = ''C system header''"
| "TYPE_NAMES CPP_SYS_HEADER = ''C++ system header''"
| "TYPE_NAMES LIKELY_MY_HEADER = ''header this file implements''"
| "TYPE_NAMES POSSIBLE_MY_HEADER = ''header this file may implement''"
| "TYPE_NAMES OTHER_HEADER = ''other header''"

primrec SECTION_NAMES :: "include_section \<Rightarrow> string" where
  "SECTION_NAMES INITIAL_SECTION = ''... nothing. (This can'' @ [squote] @ ''t be an error.)''"
| "SECTION_NAMES MY_H_SECTION = ''a header this file implements''"
| "SECTION_NAMES C_SECTION = ''C system header''"
| "SECTION_NAMES CPP_SECTION = ''C++ system header''"
| "SECTION_NAMES OTHER_H_SECTION = ''other header''"

subsection \<open>The class\<close>

record IncludeState =
  include_list :: "(string \<times> nat) list list"
  inc_section :: include_section
  last_header :: string

definition ResetSection :: "string \<Rightarrow> IncludeState \<Rightarrow> IncludeState res" where
  "ResetSection directive st0 =
     (let st = st0\<lparr>inc_section := INITIAL_SECTION, last_header := []\<rparr> in
      if directive \<in> set [''if'', ''ifdef'', ''ifndef''] then Inr (st\<lparr>include_list := include_list st @ [[]]\<rparr>)
      else if directive \<in> set [''else'', ''elif''] then
        (if include_list st = [] then Inl IndexError
         else Inr (st\<lparr>include_list := butlast (include_list st) @ [[]]\<rparr>))
      else Inr st)"

text \<open>\<open>__init__\<close> sets the list and resets the section.\<close>

definition IncludeState_init :: "IncludeState res" where
  "IncludeState_init = ResetSection [] \<lparr>include_list = [[]], inc_section = INITIAL_SECTION, last_header = []\<rparr>"

fun find_header :: "string \<Rightarrow> (string \<times> nat) list \<Rightarrow> int option" where
  "find_header header [] = None"
| "find_header header (f # fs) = (if fst f = header then Some (int (snd f)) else find_header header fs)"

fun find_in_sections :: "string \<Rightarrow> (string \<times> nat) list list \<Rightarrow> int" where
  "find_in_sections header [] = -1"
| "find_in_sections header (section_list # rest) =
     (case find_header header section_list of Some l \<Rightarrow> l | None \<Rightarrow> find_in_sections header rest)"

definition FindHeader :: "string \<Rightarrow> IncludeState \<Rightarrow> int" where
  "FindHeader header st = find_in_sections header (include_list st)"

definition SetLastHeader :: "string \<Rightarrow> IncludeState \<Rightarrow> IncludeState" where
  "SetLastHeader header_path st = st\<lparr>last_header := header_path\<rparr>"

definition CanonicalizeAlphabeticalOrder :: "string \<Rightarrow> string" where
  "CanonicalizeAlphabeticalOrder header_path =
     py_lower (py_replace ''-'' ''_'' (py_replace ''-inl.h'' ''.h'' header_path))"

definition rx_include_word :: rx where
  "rx_include_word = cats [Bol, sp0, Lit ''#'', sp0, Lit ''include'', WordB]"

text \<open>The previous line is only looked up when the header is smaller than the last one.\<close>

definition IsInAlphabeticalOrder :: "CleansedLines \<Rightarrow> nat \<Rightarrow> string \<Rightarrow> IncludeState \<Rightarrow> bool res" where
  "IsInAlphabeticalOrder cl linenum header_path st =
     (if last_header st > header_path then
        rbind (py_idx (elided cl) (int linenum - 1)) (\<lambda>previous. Inr (\<not> Matches rx_include_word previous))
      else Inr True)"

definition CheckNextIncludeOrder :: "header_type \<Rightarrow> IncludeState \<Rightarrow> string \<times> IncludeState" where
  "CheckNextIncludeOrder header_type st =
     (let error_message = ''Found '' @ TYPE_NAMES header_type @ '' after '' @ SECTION_NAMES (inc_section st);
          last_section = inc_section st;
          ok = (\<lambda>sec. ([], st\<lparr>inc_section := sec,
                               last_header := (if last_section \<noteq> sec then [] else last_header st)\<rparr>));
          out_of_order = (error_message, st\<lparr>last_header := []\<rparr>)
      in case header_type of
           C_SYS_HEADER \<Rightarrow> if inc_section st \<le> C_SECTION then ok C_SECTION else out_of_order
         | CPP_SYS_HEADER \<Rightarrow> if inc_section st \<le> CPP_SECTION then ok CPP_SECTION else out_of_order
         | LIKELY_MY_HEADER \<Rightarrow> if inc_section st \<le> MY_H_SECTION then ok MY_H_SECTION else ok OTHER_H_SECTION
         | POSSIBLE_MY_HEADER \<Rightarrow> if inc_section st \<le> MY_H_SECTION then ok MY_H_SECTION else ok OTHER_H_SECTION
         | OTHER_HEADER \<Rightarrow> ok OTHER_H_SECTION)"

subsection \<open>Classifying a header\<close>

definition RE_FIRST_COMPONENT :: rx where
  "RE_FIRST_COMPONENT = cats [Bol, plus1 (NSet [Ch ''-_.''])]"

definition COMMON_SUFFIXES :: "string list" where
  "COMMON_SUFFIXES = [''test.cc'', ''regtest.cc'', ''unittest.cc'', ''inl.h'', ''impl.h'', ''internal.h'']"

primrec drop_suffix_loop :: "string \<Rightarrow> string list \<Rightarrow> string" where
  "drop_suffix_loop filename [] = fst (splitext filename)"
| "drop_suffix_loop filename (suf # rest) =
     (if py_endswith filename suf \<and> length filename > length suf \<and>
         filename ! (length filename - length suf - 1) \<in> set ''-_''
      then take (length filename - length suf - 1) filename
      else drop_suffix_loop filename rest)"

definition DropCommonSuffixes :: "string \<Rightarrow> string" where
  "DropCommonSuffixes filename = drop_suffix_loop filename COMMON_SUFFIXES"

definition ClassifyInclude :: "env \<Rightarrow> string \<Rightarrow> string \<Rightarrow> bool \<Rightarrow> header_type res" where
  "ClassifyInclude env fileinfo include is_system =
     (let is_cpp_h = include \<in> set CPP_HEADERS in
      if is_system then Inr (if is_cpp_h then CPP_SYS_HEADER else C_SYS_HEADER)
      else rbind (RepositoryName env fileinfo) (\<lambda>g.
        case path_split (DropCommonSuffixes g) of (target_dir, target_base) \<Rightarrow>
        case path_split (DropCommonSuffixes include) of (include_dir, include_base) \<Rightarrow>
          if target_base = include_base \<and>
             (include_dir = target_dir \<or> include_dir = normpath (target_dir @ ''/../public''))
          then Inr LIKELY_MY_HEADER
          else case (Match RE_FIRST_COMPONENT target_base, Match RE_FIRST_COMPONENT include_base) of
                 (Some target_first_component, Some include_first_component) \<Rightarrow>
                   Inr (if group target_first_component 0 = group include_first_component 0
                        then POSSIBLE_MY_HEADER else OTHER_HEADER)
               | _ \<Rightarrow> Inr OTHER_HEADER))"

subsection \<open>Checking an include line\<close>

definition rx_include_bare :: rx where
  "rx_include_bare = cats [Lit ''#include'', sp0, Lit [dquote], Grp 1 (cats [plus1 (NSet [Ch ''/'']), Lit ''.h'']),
     Lit [dquote]]"

text \<open>\<open>include_list[-1].append((include, linenum))\<close>\<close>

definition append_include :: "string \<Rightarrow> nat \<Rightarrow> IncludeState \<Rightarrow> IncludeState res" where
  "append_include include linenum st =
     (if include_list st = [] then Inl IndexError
      else Inr (st\<lparr>include_list :=
             butlast (include_list st) @ [last (include_list st) @ [(include, linenum)]]\<rparr>))"

definition CheckIncludeLine ::
  "env \<Rightarrow> error_fn \<Rightarrow> string \<Rightarrow> CleansedLines \<Rightarrow> nat \<Rightarrow> IncludeState \<Rightarrow> lint \<Rightarrow> (IncludeState \<times> lint) res" where
  "CheckIncludeLine env error filename cl linenum st s0 =
     rbind (py_idx (cl_lines cl) (int linenum)) (\<lambda>line.
     rbind (case Match rx_include_bare line of
              Some m \<Rightarrow>
                whenever (\<not> Matches THIRD_PARTY_HEADERS_PATTERN (group m 1))
                  (error filename (int linenum) ''build/include'' 4 ''Include the directory when naming .h files'') s0
            | None \<Rightarrow> Inr s0) (\<lambda>s1.
     case Search RE_PATTERN_INCLUDE line of
       None \<Rightarrow> Inr (st, s1)
     | Some m \<Rightarrow>
         let include = group m 2; is_system = (group m 1 = ''<''); duplicate_line = FindHeader include st in
         if duplicate_line \<ge> 0 then
           rbind (error filename (int linenum) ''build/include'' 4
                    ([dquote] @ include @ [dquote] @ '' already included at '' @ filename @ '':'' @ int_str duplicate_line) s1)
             (\<lambda>s2. Inr (st, s2))
         else
           rbind (if py_endswith include ''.cc''
                  then rbind (RepositoryName env filename) (\<lambda>r. Inr (dirname r \<noteq> dirname include))
                  else Inr False) (\<lambda>foreign_cc.
           if foreign_cc then
             rbind (error filename (int linenum) ''build/include'' 4
                      ''Do not include .cc files from other packages'' s1) (\<lambda>s2. Inr (st, s2))
           else if \<not> Matches THIRD_PARTY_HEADERS_PATTERN include then
             rbind (append_include include linenum st) (\<lambda>st1.
             rbind (ClassifyInclude env filename include is_system) (\<lambda>header_type.
             case CheckNextIncludeOrder header_type st1 of (error_message, st2) \<Rightarrow>
             rbind (if error_message \<noteq> [] then
                      rbind (BaseName env filename) (\<lambda>base.
                        error filename (int linenum) ''build/include_order'' 4
                          (error_message @ ''. Should be: '' @ base @ ''.h, c system, c++ system, other.'') s1)
                    else Inr s1) (\<lambda>s2.
             let canonical_include = CanonicalizeAlphabeticalOrder include in
             rbind (IsInAlphabeticalOrder cl linenum canonical_include st2) (\<lambda>in_order.
             rbind (whenever (\<not> in_order)
                      (error filename (int linenum) ''build/include_alpha'' 4
                         (''Include '' @ [dquote] @ include @ [dquote] @ '' not in alphabetical order'')) s2) (\<lambda>s3.
             Inr (SetLastHeader canonical_include st2, s3))))))
           else Inr (st, s1))))"

subsection \<open>Order errors and the order of the header types\<close>

primrec order_messages :: "header_type list \<Rightarrow> IncludeState \<Rightarrow> string list" where
  "order_messages [] st = []"
| "order_messages (t # ts) st =
     (case CheckNextIncludeOrder t st of (msg, st') \<Rightarrow> msg # order_messages ts st')"

definition my_header :: "header_type \<Rightarrow> bool" where
  "my_header t \<longleftrightarrow> t = LIKELY_MY_HEADER \<or> t = POSSIBLE_MY_HEADER"

definition system_header :: "header_type \<Rightarrow> bool" where
  "system_header t \<longleftrightarrow> t = C_SYS_HEADER \<or> t = CPP_SYS_HEADER"

text \<open>The sequences of types that a section still admits, from the last section backwards.\<close>

definition rest_other :: "header_type list \<Rightarrow> bool" where
  "rest_other ts \<longleftrightarrow> list_all (\<lambda>t. \<not> system_header t) ts"

definition rest_cpp :: "header_type list \<Rightarrow> bool" where
  "rest_cpp ts \<longleftrightarrow> rest_other (dropWhile (\<lambda>t. t = CPP_SYS_HEADER) ts)"

definition rest_c :: "header_type list \<Rightarrow> bool" where
  "rest_c ts \<longleftrightarrow> rest_cpp (dropWhile (\<lambda>t. t = C_SYS_HEADER) ts)"

definition well_ordered :: "header_type list \<Rightarrow> bool" where
  "well_ordered ts \<longleftrightarrow> rest_c (dropWhile my_header ts)"

primrec admitted :: "include_section \<Rightarrow> header_type list \<Rightarrow> bool" where
  "admitted INITIAL_SECTION ts = well_ordered ts"
| "admitted MY_H_SECTION ts = well_ordered ts"
| "admitted C_SECTION ts = rest_c ts"
| "admitted CPP_SECTION ts = rest_cpp ts"
| "admitted OTHER_H_SECTION ts = rest_other ts"

lemmas admitted_defs =
  well_ordered_def rest_c_def rest_cpp_def rest_other_def my_header_def system_header_def

lemmas section_order = less_eq_include_section_def less_include_section_def

lemma order_step:
  "fst (CheckNextIncludeOrder t st) = [] \<and> admitted (inc_section (snd (CheckNextIncludeOrder t st))) ts \<longleftrightarrow>
   admitted (inc_section st) (t # ts)"
proof -
  have "''Found '' @ x \<noteq> []" for x by simp
  then show ?thesis
    by (cases t; cases "inc_section st") (auto simp: CheckNextIncludeOrder_def Let_def section_order admitted_defs)
qed

lemma order_messages_iff: "list_all (\<lambda>m. m = []) (order_messages ts st) \<longleftrightarrow> admitted (inc_section st) ts"
proof (induction ts arbitrary: st)
  case Nil
  then show ?case by (cases "inc_section st") (simp_all add: admitted_defs)
next
  case (Cons t ts)
  from order_step [of t st ts] Cons show ?case by (cases "CheckNextIncludeOrder t st") simp
qed


text \<open>
  The section of a file never moves backwards: after any sequence of
  headers it is at least where it was, whether or not headers were out of order.
\<close>

lemma include_section_monotone:
  "inc_section st \<le> inc_section (fold (\<lambda>t st. snd (CheckNextIncludeOrder t st)) ts st)"
proof (induction ts arbitrary: st)
  case (Cons t ts)
  have "inc_section st \<le> inc_section (snd (CheckNextIncludeOrder t st))"
    by (cases t; cases "inc_section st") (simp_all add: CheckNextIncludeOrder_def Let_def section_order)
  also have "\<dots> \<le> inc_section (fold (\<lambda>t st. snd (CheckNextIncludeOrder t st)) ts (snd (CheckNextIncludeOrder t st)))"
    by (rule Cons)
  finally show ?case by simp
qed simp

subsection \<open>No header is listed twice\<close>

definition headers_listed :: "IncludeState \<Rightarrow> string list" where
  "headers_listed st = map fst (concat (include_list st))"

definition include_ok :: "IncludeState \<Rightarrow> bool" where
  "include_ok st \<longleftrightarrow> include_list st \<noteq> [] \<and> distinct (headers_listed st)"

lemma find_header_None: "find_header h fs = None \<longleftrightarrow> h \<notin> fst ` set fs"
  by (induction fs) auto

lemma find_header_nonneg: "find_header h fs = Some l \<Longrightarrow> 0 \<le> l"
  by (induction fs) (auto split: if_splits)

lemma find_in_sections_neg: "find_in_sections h fss < 0 \<longleftrightarrow> h \<notin> fst ` set (concat fss)"
proof (induction fss)
  case (Cons fs fss)
  then show ?case
    using find_header_None [of h fs] find_header_nonneg [of h fs]
    by (cases "find_header h fs") (auto simp: image_Un)
qed simp

lemma FindHeader_neg: "FindHeader h st < 0 \<longleftrightarrow> h \<notin> set (headers_listed st)"
  by (simp add: FindHeader_def find_in_sections_neg headers_listed_def)

lemma concat_last: "xs \<noteq> [] \<Longrightarrow> concat xs = concat (butlast xs) @ last xs"
  by (induction xs) auto

lemma append_include_ok:
  assumes "include_ok st" "include \<notin> set (headers_listed st)"
  shows "lands include_ok (append_include include linenum st)"
proof -
  let ?l = "include_list st"
  from assms have "?l \<noteq> []" by (simp add: include_ok_def)
  then have "concat (butlast ?l @ [last ?l @ [x]]) = concat ?l @ [x]" for x
    by (simp add: concat_last [of ?l])
  then have "headers_listed (st\<lparr>include_list := butlast ?l @ [last ?l @ [(include, linenum)]]\<rparr>)
      = headers_listed st @ [include]"
    by (simp add: headers_listed_def del: concat_append)
  with assms show ?thesis by (simp add: append_include_def include_ok_def)
qed

lemma ResetSection_ok:
  assumes "include_ok st" shows "lands include_ok (ResetSection directive st)"
proof -
  let ?l = "include_list st"
  from assms have "?l \<noteq> []" by (simp add: include_ok_def)
  then have "concat ?l = concat (butlast ?l) @ last ?l" by (rule concat_last)
  with assms show ?thesis
    by (auto simp: ResetSection_def include_ok_def headers_listed_def Let_def)
qed

lemma IncludeState_init_ok: "lands include_ok IncludeState_init"
  by (simp add: IncludeState_init_def ResetSection_def include_ok_def headers_listed_def)

lemma CheckNextIncludeOrder_list [simp]:
  "include_list (snd (CheckNextIncludeOrder t st)) = include_list st"
  by (cases t) (simp_all add: CheckNextIncludeOrder_def Let_def)

lemma include_ok_order: "CheckNextIncludeOrder t st = (msg, st') \<Longrightarrow> include_ok st \<Longrightarrow> include_ok st'"
  using CheckNextIncludeOrder_list [of t st] by (simp add: include_ok_def headers_listed_def)

lemma include_ok_SetLastHeader [simp]: "include_ok (SetLastHeader h st) = include_ok st"
  by (simp add: SetLastHeader_def include_ok_def headers_listed_def)

lemma ClassifyInclude_lands:
  "RepositoryName env f = Inr g \<Longrightarrow> lands (\<lambda>_. True) (ClassifyInclude env f include is_system)"
  by (auto simp: ClassifyInclude_def Let_def split: prod.split option.split)

lemma BaseName_lands: "RepositoryName env f = Inr g \<Longrightarrow> lands (\<lambda>_. True) (BaseName env f)"
  using Split_returns [of env f g] by (auto simp: BaseName_def returns_def)

lemma IsInAlphabeticalOrder_lands:
  assumes "linenum < length (elided cl)"
  shows "lands (\<lambda>_. True) (IsInAlphabeticalOrder cl linenum h st)"
proof -
  have "returns (py_idx (elided cl) (int linenum - 1))" using assms by (intro py_idx_returns) auto
  then show ?thesis by (auto simp: IsInAlphabeticalOrder_def returns_def)
qed

context error_handler
begin

lemma CheckIncludeLine_lands:
  assumes "include_ok st" "I s" "linenum < length (cl_lines cl)" "linenum < length (elided cl)"
    and repo: "RepositoryName env filename = Inr g"
  shows "lands (\<lambda>(st', s'). include_ok st' \<and> I s') (CheckIncludeLine env error filename cl linenum st s)"
proof -
  let ?P = "\<lambda>(st', s'). include_ok st' \<and> I s'"
  have report: "lands ?P (rbind (error filename l c n m s1) (\<lambda>s2. Inr (st1, s2)))"
    if "known_category c" "0 \<le> n" "n \<le> 5" "I s1" "include_ok st1" for l c n m s1 st1
    by (rule lands_bind [where Q = I]) (use that error_lands in auto)
  have add: "lands ?P
     (rbind (append_include h linenum st) (\<lambda>st1.
      rbind (ClassifyInclude env filename h sys) (\<lambda>header_type.
      case CheckNextIncludeOrder header_type st1 of (error_message, st2) \<Rightarrow>
      rbind (if error_message \<noteq> [] then
               rbind (BaseName env filename) (\<lambda>base.
                 error filename (int linenum) ''build/include_order'' 4 (f error_message base) s1)
             else Inr s1) (\<lambda>s2.
      let canonical_include = CanonicalizeAlphabeticalOrder h in
      rbind (IsInAlphabeticalOrder cl linenum canonical_include st2) (\<lambda>in_order.
      rbind (whenever (\<not> in_order) (error filename (int linenum) ''build/include_alpha'' 4 msg) s2) (\<lambda>s3.
      Inr (SetLastHeader canonical_include st2, s3)))))))"
    if "I s1" "h \<notin> set (headers_listed st)" for h sys s1 f msg
  proof (rule lands_bind [OF append_include_ok [OF assms(1) that(2)]], rule lands_bind [OF ClassifyInclude_lands [OF repo]])
    fix st1 header_type
    assume st1: "include_ok st1"
    obtain e st2 where o2: "CheckNextIncludeOrder header_type st1 = (e, st2)" by fastforce
    have ok2: "include_ok st2" using include_ok_order [OF o2 st1] .
    have ord: "lands I (if e \<noteq> [] then
               rbind (BaseName env filename) (\<lambda>base.
                 error filename (int linenum) ''build/include_order'' 4 (f e base) s1)
             else Inr s1)"
      using that(1) by (intro lands_if lands_bind [OF BaseName_lands [OF repo]] error_lands) simp_all
    have alpha: "lands I (whenever c (error filename (int linenum) ''build/include_alpha'' 4 msg) s2)" if "I s2" for c s2
      using that by (intro lands_whenever error_lands) simp_all
    show "lands ?P (case CheckNextIncludeOrder header_type st1 of (error_message, st2) \<Rightarrow>
      rbind (if error_message \<noteq> [] then
               rbind (BaseName env filename) (\<lambda>base.
                 error filename (int linenum) ''build/include_order'' 4 (f error_message base) s1)
             else Inr s1) (\<lambda>s2.
      let canonical_include = CanonicalizeAlphabeticalOrder h in
      rbind (IsInAlphabeticalOrder cl linenum canonical_include st2) (\<lambda>in_order.
      rbind (whenever (\<not> in_order) (error filename (int linenum) ''build/include_alpha'' 4 msg) s2) (\<lambda>s3.
      Inr (SetLastHeader canonical_include st2, s3)))))"
      unfolding o2 prod.case Let_def
      by (rule lands_bind [OF ord], rule lands_bind [OF IsInAlphabeticalOrder_lands [OF assms(4)]],
          rule lands_bind [OF alpha]) (simp_all add: ok2)
  qed
  let ?line = "cl_lines cl ! linenum"
  have bare: "lands I (case Match rx_include_bare ?line of
              Some m \<Rightarrow>
                whenever (\<not> Matches THIRD_PARTY_HEADERS_PATTERN (group m 1))
                  (error filename (int linenum) ''build/include'' 4 ''Include the directory when naming .h files'') s
            | None \<Rightarrow> Inr s)"
    using assms(2) by (auto split: option.split intro!: lands_whenever error_lands)
  have x: "py_idx (cl_lines cl) (int linenum) = Inr ?line" using assms(3) by (rule py_idx_nat)
  show ?thesis
    unfolding CheckIncludeLine_def x rbind_simps
  proof (rule lands_bind [OF bare], goal_cases)
    case (1 s1)
    show ?case
    proof (cases "Search RE_PATTERN_INCLUDE ?line")
      case None
      then show ?thesis using assms(1) 1 by simp
    next
      case (Some m)
      show ?thesis
        unfolding Some option.case Let_def
        apply (rule lands_if)
         apply (rule report; use assms 1 in simp)
        apply (rule lands_bind [where Q = "\<lambda>_. True"])
         apply (simp add: repo)
        apply (rule lands_if)
         apply (rule report; use assms 1 in simp)
        apply (rule lands_if)
         apply (rule add [unfolded Let_def])
          apply (rule 1)
         apply (use FindHeader_neg in force)
        apply (use assms 1 in simp)
        done
    qed
  qed
qed

end

datatype include_event = Include_Line nat | Directive string

definition include_event ::
  "env \<Rightarrow> error_fn \<Rightarrow> string \<Rightarrow> CleansedLines \<Rightarrow> include_event \<Rightarrow> IncludeState \<times> lint \<Rightarrow> (IncludeState \<times> lint) res" where
  "include_event env error filename cl ev p =
     (case ev of
        Include_Line n \<Rightarrow> CheckIncludeLine env error filename cl n (fst p) (snd p)
      | Directive d \<Rightarrow> rbind (ResetSection d (fst p)) (\<lambda>st. Inr (st, snd p)))"

text \<open>
  C23: from the initial include state, any sequence of checked lines of
  the file and preprocessor directives raises nothing, keeps the error sink consistent, and
  leaves a list in which no header occurs twice, and that still has a current section.
\<close>

theorem includes_stay_distinct:
  assumes "IncludeState_init = Inr st" and "lint_ok s" and "RepositoryName env filename = Inr g"
    and "length (elided cl) = length (cl_lines cl)"
    and "\<forall>n. Include_Line n \<in> set events \<longrightarrow> n < length (cl_lines cl)"
  shows "\<exists>st' s'. rfold (include_event env Error filename cl) events (st, s) = Inr (st', s') \<and>
     distinct (map fst (concat (include_list st'))) \<and> include_list st' \<noteq> [] \<and> lint_ok s'"
proof -
  let ?P = "\<lambda>(st, s). include_ok st \<and> lint_ok s"
  have "keeps ?P (include_event env Error filename cl ev)" if ev: "ev \<in> set events" for ev
  proof (rule keepsI)
    fix p assume p: "?P p"
    show "lands ?P (include_event env Error filename cl ev p)"
    proof (cases ev)
      case (Include_Line n)
      with ev assms(4,5) p show ?thesis
        by (auto simp: include_event_def intro!: sink.CheckIncludeLine_lands assms(3))
    next
      case (Directive d)
      with p have "lands ?P (rbind (ResetSection d (fst p)) (\<lambda>st. Inr (st, snd p)))"
        by (intro lands_bind [OF ResetSection_ok]) auto
      with Directive show ?thesis by (simp add: include_event_def)
    qed
  qed
  then have "keeps ?P (rfold (include_event env Error filename cl) events)" by (rule keeps_rfold)
  moreover have "?P (st, s)" using IncludeState_init_ok [unfolded assms(1)] assms(2) by simp
  ultimately have "\<exists>p. rfold (include_event env Error filename cl) events (st, s) = Inr p \<and> ?P p" by (rule keepsD)
  then show ?thesis by (auto simp: include_ok_def headers_listed_def)
qed

definition include_lines :: CleansedLines where
  "include_lines = (let ls = [[], ''#include <vector>'', ''#include <stdio.h>'', ''#include <vector>''] in
     \<lparr>elided = ls, cl_lines = ls, raw_lines = ls, lines_without_raw_strings = ls, num_lines = 4\<rparr>)"

definition no_files :: env where
  "no_files = \<lparr>fs_exists = (\<lambda>p. False), fs_cwd = ''/w''\<rparr>"

theorem includes_stay_distinct_witness:
  "\<exists>st' s'. rfold (include_event no_files Error ''a.cc'' include_lines)
       [Include_Line 1, Directive ''else'', Include_Line 2, Include_Line 3]
       (\<lparr>include_list = [[]], inc_section = INITIAL_SECTION, last_header = []\<rparr>, lint_init) = Inr (st', s') \<and>
     distinct (map fst (concat (include_list st')))"
proof -
  have hyps: "IncludeState_init = Inr \<lparr>include_list = [[]], inc_section = INITIAL_SECTION, last_header = []\<rparr>"
    "RepositoryName no_files ''a.cc'' = Inr ''/w/a.cc''"
    "length (elided include_lines) = length (cl_lines include_lines)" "length (cl_lines include_lines) = 4"
    by code_simp+
  from includes_stay_distinct [OF hyps(1) lint_ok_init hyps(2,3),
      of "[Include_Line 1, Directive ''else'', Include_Line 2, Include_Line 3]"] hyps(4)
  show ?thesis by fastforce
qed

subsection \<open>Alphabetical order\<close>

lemma py_replace_char: "py_replace [c] [d] s = map (\<lambda>x. if x = c then d else x) s"
  by (induction s) (auto simp: py_replace.simps)

lemma py_lower_char_idem: "py_lower_char (py_lower_char c) = py_lower_char c \<and>
    (py_lower_char c = CHR ''-'' \<longrightarrow> c = CHR ''-'')"
proof (cases "py_lower_char c = c")
  case False
  have k: "ord CHR ''A'' = 65" "ord CHR ''Z'' = 90" "ord CHR 0xC0 = 192" "ord CHR 0xDE = 222" "ord CHR ''-'' = 45"
    by (simp_all add: ord_def)
  from False have up: "(65 \<le> ord c \<and> ord c \<le> 90) \<or> (192 \<le> ord c \<and> ord c \<le> 222)"
    and lower: "py_lower_char c = char_of (ord c + 32)"
    by (auto simp: py_lower_char_def char_between_def k split: if_splits)
  from up have o2: "ord (py_lower_char c) = ord c + 32" unfolding lower by (auto simp: ord_def)
  with up have "py_lower_char (py_lower_char c) = py_lower_char c"
    by (auto simp: py_lower_char_def [of "py_lower_char c"] char_between_def k)
  moreover from o2 up k(5) have "py_lower_char c \<noteq> CHR ''-''" by auto
  ultimately show ?thesis by blast
qed simp

lemma Canonicalize_no_dash: "CHR ''-'' \<notin> set (CanonicalizeAlphabeticalOrder h)"
proof
  assume "CHR ''-'' \<in> set (CanonicalizeAlphabeticalOrder h)"
  then obtain x where "x \<in> set (py_replace ''-'' ''_'' (py_replace ''-inl.h'' ''.h'' h))"
    and "py_lower_char x = CHR ''-''"
    by (auto simp only: CanonicalizeAlphabeticalOrder_def py_lower_def set_map)
  moreover from this(2) have "x = CHR ''-''" using py_lower_char_idem by blast
  ultimately show False by (simp add: py_replace_char image_iff)
qed

text \<open>
  The canonical form of a header path, under which headers are compared,
  is its own canonical form.
\<close>

lemma canonical_idempotent:
  "CanonicalizeAlphabeticalOrder (CanonicalizeAlphabeticalOrder h) = CanonicalizeAlphabeticalOrder h"
proof -
  let ?c = "CanonicalizeAlphabeticalOrder h"
  have "\<not> sublist ''-inl.h'' ?c"
    by (rule sublist_absent_char [OF _ Canonicalize_no_dash]) simp
  moreover have "\<not> sublist ''-'' ?c"
    by (rule sublist_absent_char [OF _ Canonicalize_no_dash]) simp
  ultimately have "CanonicalizeAlphabeticalOrder ?c = py_lower ?c"
    unfolding CanonicalizeAlphabeticalOrder_def [of ?c] by (simp only: py_replace_absent list.distinct simp_thms)
  also have "py_lower ?c = ?c"
    using py_lower_char_idem by (simp add: CanonicalizeAlphabeticalOrder_def py_lower_def)
  finally show ?thesis .
qed

text \<open>The alphabetical checks of consecutive include lines within one section.\<close>

primrec alpha_run :: "CleansedLines \<Rightarrow> (nat \<times> string) list \<Rightarrow> IncludeState \<Rightarrow> bool res" where
  "alpha_run cl [] st = Inr True"
| "alpha_run cl (x # xs) st =
     (let canonical = CanonicalizeAlphabeticalOrder (snd x) in
      rbind (IsInAlphabeticalOrder cl (fst x) canonical st) (\<lambda>ok.
      rbind (alpha_run cl xs (SetLastHeader canonical st)) (\<lambda>rest. Inr (ok \<and> rest))))"



subsection \<open>The documented classifications\<close>

definition foo_tree :: env where
  "foo_tree = \<lparr>fs_exists = (\<lambda>p. p \<in> set [''/w/.git'', ''/w/foo/foo.cc'', ''/w/foo/foo_unknown_extension.cc'']),
                fs_cwd = ''/w''\<rparr>"

text \<open>
  The examples in the documentation of \<open>_ClassifyInclude\<close> and
  \<open>_DropCommonSuffixes\<close> hold, in a checkout whose root is the working directory.
\<close>

lemma classify_include_documented:
  "ClassifyInclude foo_tree ''foo/foo.cc'' ''stdio.h'' True = Inr C_SYS_HEADER \<and>
   ClassifyInclude foo_tree ''foo/foo.cc'' ''string'' True = Inr CPP_SYS_HEADER \<and>
   ClassifyInclude foo_tree ''foo/foo.cc'' ''foo/foo.h'' False = Inr LIKELY_MY_HEADER \<and>
   ClassifyInclude foo_tree ''foo/foo_unknown_extension.cc'' ''bar/foo_other_ext.h'' False = Inr POSSIBLE_MY_HEADER \<and>
   ClassifyInclude foo_tree ''foo/foo.cc'' ''foo/bar.h'' False = Inr OTHER_HEADER \<and>
   DropCommonSuffixes ''foo/foo-inl.h'' = ''foo/foo'' \<and>
   DropCommonSuffixes ''foo/bar/foo.cc'' = ''foo/bar/foo'' \<and>
   DropCommonSuffixes ''foo/foo_internal.h'' = ''foo/foo'' \<and>
   DropCommonSuffixes ''foo/foo_unusualinternal.h'' = ''foo/foo_unusualinternal''"
  by (intro conjI; code_simp)

subsection \<open>Does a source file include its header?\<close>

text \<open>The two nested loops over the include list: None is the early return, otherwise the first line.\<close>

fun own_header_loop :: "string \<Rightarrow> nat \<Rightarrow> (string \<times> nat) list \<Rightarrow> nat option" where
  "own_header_loop headername first_include [] = Some first_include"
| "own_header_loop headername first_include (f # fs) =
     (if py_in headername (fst f) \<or> py_in (fst f) headername then None
      else own_header_loop headername (if first_include = 0 then snd f else first_include) fs)"

definition CheckHeaderFileIncluded :: "env \<Rightarrow> error_fn \<Rightarrow> string \<Rightarrow> IncludeState \<Rightarrow> action" where
  "CheckHeaderFileIncluded env error filename st s =
     rbind (BaseName env filename) (\<lambda>base.
     if Searches TEST_FILE_SUFFIX base then Inr s
     else rbind (Extension env filename) (\<lambda>ext.
       let headerfile = take (length filename - length ext) filename @ ''.h'' in
       if \<not> fs_exists env headerfile then Inr s
       else rbind (RepositoryName env headerfile) (\<lambda>headername.
         case own_header_loop headername 0 (concat (include_list st)) of
           None \<Rightarrow> Inr s
         | Some first_include \<Rightarrow>
             rbind (RepositoryName env filename) (\<lambda>repo.
               error filename (int first_include) ''build/include'' 5
                 (repo @ '' should include its header file '' @ headername) s))))"

lemma own_header_loop_None:
  "own_header_loop h k fs = None \<longleftrightarrow> (\<exists>f \<in> set fs. py_in h (fst f) \<or> py_in (fst f) h)"
  by (induction fs arbitrary: k) auto

lemma own_header_loop_Some: "own_header_loop h 0 fs = Some l \<Longrightarrow> l \<in> insert 0 (snd ` set fs)"
proof -
  have "own_header_loop h k fs = Some l \<Longrightarrow> l \<in> insert k (snd ` set fs)" for k
    by (induction fs arbitrary: k) (auto split: if_splits)
  then show "own_header_loop h 0 fs = Some l \<Longrightarrow> l \<in> insert 0 (snd ` set fs)" .
qed

lemma Extension_lands: "RepositoryName env f = Inr g \<Longrightarrow> lands (\<lambda>_. True) (Extension env f)"
  using Split_returns [of env f g] by (auto simp: Extension_def returns_def)

context error_handler
begin

lemma CheckHeaderFileIncluded_keeps:
  assumes "\<And>f. returns (RepositoryName env f)"
  shows "keeps I (CheckHeaderFileIncluded env error filename st)"
proof (rule keepsI)
  fix s assume "I s"
  have r: "\<exists>g. RepositoryName env f = Inr g" for f using assms [of f] by (auto simp: returns_def)
  from r [of filename] obtain g where g: "RepositoryName env filename = Inr g" by blast
  show "lands I (CheckHeaderFileIncluded env error filename st s)"
    unfolding CheckHeaderFileIncluded_def g Let_def
  proof (intro lands_bind [OF BaseName_lands [OF g]] lands_if lands_bind [OF Extension_lands [OF g]], goal_cases)
    case (3 base ext)
    from r obtain h where "RepositoryName env (take (length filename - length ext) filename @ ''.h'') = Inr h" by blast
    with \<open>I s\<close> show ?case by (auto split: option.split intro: error_lands)
  qed (use \<open>I s\<close> in simp_all)
qed

end


definition pair_tree :: env where
  "pair_tree = \<lparr>fs_exists = (\<lambda>p. p \<in> set [''/w/.git'', ''/w/a.cc'', ''/w/a.h'', ''a.h'']), fs_cwd = ''/w''\<rparr>"


end
