(* ===== verification/Function_State.thy ===== *)
theory Function_State
  imports Cleansing
begin

section \<open>The length of functions\<close>

text \<open>
  The class \<open>_FunctionState\<close>, \<open>CheckForFunctionLengths\<close> and \<open>IsBlankLine\<close> of
  \<^verbatim>\<open>src/cpplint.py\<close>.  \<open>2**_VerboseLevel()\<close> is a fraction for a negative verbosity; comparisons
  with it are written with integers, and \<open>'%d'\<close> of it rounds down.  The division of two integers
  rounds down, and the logarithm of zero raises.
\<close>

record FunctionState =
  in_a_function :: bool
  lines_in_function :: nat
  current_function :: string

definition FunctionState_init :: FunctionState where
  "FunctionState_init = \<lparr>in_a_function = False, lines_in_function = 0, current_function = []\<rparr>"

definition NORMAL_TRIGGER :: nat where "NORMAL_TRIGGER = 250"
definition TEST_TRIGGER :: nat where "TEST_TRIGGER = 400"

definition fs_Begin :: "string \<Rightarrow> FunctionState \<Rightarrow> FunctionState" where
  "fs_Begin function_name fs = \<lparr>in_a_function = True, lines_in_function = 0, current_function = function_name\<rparr>"

definition fs_Count :: "FunctionState \<Rightarrow> FunctionState" where
  "fs_Count fs = (if in_a_function fs then fs\<lparr>lines_in_function := lines_in_function fs + 1\<rparr> else fs)"

definition fs_End :: "FunctionState \<Rightarrow> FunctionState" where
  "fs_End fs = fs\<lparr>in_a_function := False\<rparr>"

definition rx_test_name :: rx where
  "rx_test_name = cats [Lit ''T'', Grp 1 (alts [Lit ''EST'', Lit ''est''])]"

text \<open>\<open>int(math.log(n, 2))\<close>\<close>

fun floor_log2 :: "nat \<Rightarrow> nat" where
  "floor_log2 n = (if n < 2 then 0 else floor_log2 (n div 2) + 1)"

declare floor_log2.simps [simp del]

definition int_log2 :: "nat \<Rightarrow> nat res" where
  "int_log2 n = (if n = 0 then Inl (ValueError ''math domain error'') else Inr (floor_log2 n))"

definition base_trigger :: "FunctionState \<Rightarrow> nat" where
  "base_trigger fs = (if Matches rx_test_name (current_function fs) then TEST_TRIGGER else NORMAL_TRIGGER)"

text \<open>\<open>n > base * 2**v\<close> and \<open>'%d' % (base * 2**v)\<close>\<close>

definition exceeds_trigger :: "nat \<Rightarrow> nat \<Rightarrow> int \<Rightarrow> bool" where
  "exceeds_trigger n base v = (if 0 \<le> v then base * 2 ^ nat v < n else base < n * 2 ^ nat (- v))"

definition shown_trigger :: "nat \<Rightarrow> int \<Rightarrow> nat" where
  "shown_trigger base v = (if 0 \<le> v then base * 2 ^ nat v else base div 2 ^ nat (- v))"

definition size_message :: "FunctionState \<Rightarrow> nat \<Rightarrow> string" where
  "size_message fs trigger =
     ''Small and focused functions are preferred: '' @ current_function fs @ '' has '' @
     nat_str (lines_in_function fs) @ '' non-comment lines (error triggered by exceeding '' @
     nat_str trigger @ '' lines).''"

definition fs_Check :: "error_fn \<Rightarrow> string \<Rightarrow> int \<Rightarrow> FunctionState \<Rightarrow> action" where
  "fs_Check error filename linenum fs s =
     (if \<not> in_a_function fs then Inr s
      else let base = base_trigger fs; v = verbose_level (cpplint_state s) in
        if exceeds_trigger (lines_in_function fs) base v then
          rbind (int_log2 (lines_in_function fs div base)) (\<lambda>level.
            let error_level = (if level > 5 then 5 else level) in
            error filename linenum ''readability/fn_size'' (int error_level)
              (size_message fs (shown_trigger base v)) s)
        else Inr s)"

subsection \<open>Blank lines\<close>

definition IsBlankLine :: "string \<Rightarrow> bool" where
  "IsBlankLine line \<longleftrightarrow> line = [] \<or> py_isspace line"

subsection \<open>\<open>CheckForFunctionLengths\<close>\<close>

definition rx_function_start :: rx where
  "rx_function_start = cats [Grp 1 (cats [Set [Wd],
     star (Grp 2 (alts [Set [Wd], Lit ''::'', Lit ''*'', Lit ''&'', Set [Sp]]))]), Lit ''('']"

definition rx_all_caps :: rx where
  "rx_all_caps = cats [plus1 (Set [Rg (CHR ''A'') (CHR ''Z''), Ch ''_'']), Eol]"

definition rx_declaration :: rx where
  "rx_declaration = Grp 1 (alts [Lit '';'', Lit ''}''])"

definition rx_function_name :: rx where
  "rx_function_name = cats [Grp 1 (star (Grp 2 (alts [Set [Wd], Lit '':'']))), Lit ''('']"

definition rx_parameters :: rx where
  "rx_parameters = Grp 1 (cats [Lit ''('', any0, Lit '')''])"

definition rx_function_end :: rx where
  "rx_function_end = cats [Bol, Lit ''}'', sp0, Eol]"

definition starting_func :: "string \<Rightarrow> bool res" where
  "starting_func line =
     (case Match rx_function_start line of
        None \<Rightarrow> Inr False
      | Some match_result \<Rightarrow>
          rbind (py_idx (py_split (group match_result 1)) (- 1)) (\<lambda>function_name.
            Inr (function_name = ''TEST'' \<or> function_name = ''TEST_F'' \<or> \<not> Matches rx_all_caps function_name)))"

text \<open>The loop that looks for the body; its result says whether it was found.\<close>

primrec body_loop ::
  "CleansedLines \<Rightarrow> string \<Rightarrow> nat list \<Rightarrow> string \<Rightarrow> FunctionState \<Rightarrow> (bool \<times> FunctionState) res" where
  "body_loop cl line [] joined_line fs = Inr (False, fs)"
| "body_loop cl line (n # ns) joined_line fs =
     rbind (py_idx (cl_lines cl) (int n)) (\<lambda>start_line.
       let joined_line = joined_line @ '' '' @ py_lstrip start_line in
       if Searches rx_declaration start_line then Inr (True, fs)
       else if Searches (Lit ''{'') start_line then
         (case Search rx_function_name line of
            None \<Rightarrow> Inl AttributeError
          | Some m \<Rightarrow>
              let function = group m 1 in
              if Matches (Lit ''TEST'') function then
                (case Search rx_parameters joined_line of
                   Some p \<Rightarrow> Inr (True, fs_Begin (function @ group p 1) fs)
                 | None \<Rightarrow> Inr (True, fs_Begin function fs))
              else Inr (True, fs_Begin (function @ ''()'') fs))
       else body_loop cl line ns joined_line fs)"

definition CheckForFunctionLengths ::
  "error_fn \<Rightarrow> string \<Rightarrow> CleansedLines \<Rightarrow> nat \<Rightarrow> FunctionState \<Rightarrow> lint \<Rightarrow> (FunctionState \<times> lint) res" where
  "CheckForFunctionLengths error filename cl linenum fs s =
     rbind (py_idx (cl_lines cl) (int linenum)) (\<lambda>line.
     rbind (starting_func line) (\<lambda>starting.
       if starting then
         rbind (body_loop cl line [linenum..<NumLines cl] [] fs) (\<lambda>(body_found, fs').
         rbind (whenever (\<not> body_found)
                  (error filename (int linenum) ''readability/fn_size'' 5
                     ''Lint failed to find start of function body.'') s) (\<lambda>s'.
         Inr (fs', s')))
       else if Matches rx_function_end line then
         rbind (fs_Check error filename (int linenum) fs s) (\<lambda>s'. Inr (fs_End fs, s'))
       else if \<not> Matches rx_blank line then Inr (fs_Count fs, s)
       else Inr (fs, s)))"

subsection \<open>The confidence of a report\<close>

lemma floor_log2_bounds: "0 < n \<Longrightarrow> 2 ^ floor_log2 n \<le> n \<and> n < 2 ^ (floor_log2 n + 1)"
proof (induction n rule: floor_log2.induct)
  case (1 n)
  show ?case
  proof (cases "n < 2")
    case True
    with 1 show ?thesis by (simp add: floor_log2.simps)
  next
    case False
    with 1 have "2 ^ floor_log2 (n div 2) \<le> n div 2" "n div 2 < 2 ^ (floor_log2 (n div 2) + 1)" by auto
    then have "2 ^ (floor_log2 (n div 2) + 1) \<le> n" "n < 2 ^ (floor_log2 (n div 2) + 2)" by auto
    with False show ?thesis by (simp add: floor_log2.simps [of n])
  qed
qed

lemma floor_log2_least: "2 ^ k \<le> n \<Longrightarrow> k \<le> floor_log2 n"
proof (rule ccontr)
  assume "2 ^ k \<le> n" "\<not> k \<le> floor_log2 n"
  then have "floor_log2 n + 1 \<le> k" by simp
  then have "(2::nat) ^ (floor_log2 n + 1) \<le> 2 ^ k" by (intro power_increasing) auto
  with \<open>2 ^ k \<le> n\<close> have "2 ^ (floor_log2 n + 1) \<le> n" by linarith
  moreover from \<open>2 ^ k \<le> n\<close> have "0 < n" by (metis less_le_trans zero_less_numeral zero_less_power)
  ultimately show False using floor_log2_bounds [of n] by linarith
qed

lemma base_trigger_pos: "0 < base_trigger fs"
  by (simp add: base_trigger_def NORMAL_TRIGGER_def TEST_TRIGGER_def)



text \<open>
  C28: the end of a function raises, with the sink itself raising
  nothing, exactly when the verbosity is negative and the function is longer than the scaled limit
  but shorter than the base limit: the logarithm of zero is taken.
\<close>

theorem function_size_raises_iff:
  assumes "\<And>c m. returns (error filename linenum ''readability/fn_size'' c m s)"
  shows "returns (fs_Check error filename linenum fs s) \<longleftrightarrow>
     \<not> (in_a_function fs \<and> verbose_level (cpplint_state s) < 0 \<and>
        lines_in_function fs < base_trigger fs \<and>
        base_trigger fs < lines_in_function fs * 2 ^ nat (- verbose_level (cpplint_state s)))"
proof -
  let ?v = "verbose_level (cpplint_state s)" and ?n = "lines_in_function fs" and ?b = "base_trigger fs"
  have z: "?n div ?b = 0 \<longleftrightarrow> ?n < ?b" using base_trigger_pos [of fs] by (simp add: div_eq_0_iff)
  have "\<not> ?n < ?b" if "exceeds_trigger ?n ?b ?v" "0 \<le> ?v"
  proof -
    from that have "?b * 2 ^ nat ?v < ?n" by (simp add: exceeds_trigger_def)
    moreover have "?b * 1 \<le> ?b * 2 ^ nat ?v" by (intro mult_le_mono2) simp
    ultimately show ?thesis by linarith
  qed
  then show ?thesis
    using assms z by (auto simp: fs_Check_def Let_def int_log2_def exceeds_trigger_def split: if_splits)
qed

theorem function_size_raises_iff_witness:
  "\<not> returns (fs_Check Error ''a.cc'' 9 \<lparr>in_a_function = True, lines_in_function = 130, current_function = ''f()''\<rparr>
     (snd (g_SetVerboseLevel (- 1) lint_init)))"
proof -
  let ?s = "snd (g_SetVerboseLevel (- 1) lint_init)"
  let ?fs = "\<lparr>in_a_function = True, lines_in_function = 130, current_function = ''f()''\<rparr>"
  have "lint_ok ?s" using lint_ok_init by (simp add: g_SetVerboseLevel_def SetVerboseLevel_def lint_ok_def state_ok_def counts_ok_def)
  then have "returns (Error ''a.cc'' 9 ''readability/fn_size'' c m ?s)" for c m
    using keepsD [OF Error_keeps] by (fastforce simp: returns_def)
  moreover have "base_trigger ?fs = 250" "verbose_level (cpplint_state ?s) = - 1" by code_simp+
  ultimately show ?thesis using function_size_raises_iff [of Error "''a.cc''" 9 ?s ?fs] by simp
qed

subsection \<open>The lines that are counted\<close>

lemma function_name_found: "CHR ''('' \<in> set line \<Longrightarrow> Searches rx_function_name line"
proof -
  assume "CHR ''('' \<in> set line"
  then obtain a b where line: "line = a @ CHR ''('' # b" by (meson split_list)
  let ?st = "MS (rev a) (CHR ''('' # b) []"
  have "?st \<in> set (mt (star (Grp 2 (alts [Set [Wd], Lit '':'']))) ?st)" by (rule mt_star_self)
  then have "capture 1 ?st ?st \<in> set (mt (Grp 1 (star (Grp 2 (alts [Set [Wd], Lit '':''])))) ?st)" by simp
  then have "MS (CHR ''('' # rev a) b [(1, [])] \<in> set (mt rx_function_name ?st)"
    unfolding rx_function_name_def by (auto simp: capture_def intro!: bexI)
  then show ?thesis unfolding line by (rule SearchesI)
qed

lemma starting_func_paren: "starting_func line = Inr True \<Longrightarrow> CHR ''('' \<in> set line"
proof (rule ccontr)
  assume s: "starting_func line = Inr True" and "CHR ''('' \<notin> set line"
  then have "\<not> sublist ''('' line" by (intro sublist_absent_char [of "CHR ''(''"]) simp_all
  moreover have "needs ''('' rx_function_start" by (simp add: rx_function_start_def)
  ultimately have "\<not> Matches rx_function_start line" by (intro needs_no_Match)
  with s show False by (simp add: starting_func_def Matches_def)
qed

text \<open>The first word of a matched declaration exists, so nothing is raised.\<close>

lemma starting_func_returns: "returns (starting_func line)"
proof (cases "Match rx_function_start line")
  case (Some m)
  from Some obtain c w where g: "group m 1 = c # w" "word_char c"
  proof (rule Match_SomeE)
    fix st
    assume st: "st \<in> set (mt rx_function_start (MS [] line []))" and m: "m = mk_match (MS [] line []) st"
    let ?tail = "star (Grp 2 (alts [Set [Wd], Lit ''::'', Lit ''*'', Lit ''&'', Set [Sp]]))"
    from st obtain st3 where st3: "st3 \<in> set (mt (Grp 1 (cats [Set [Wd], ?tail])) (MS [] line []))"
      and "st \<in> set (mt (Lit ''('') st3)"
      unfolding rx_function_start_def mt_cats_two by blast
    then have caps: "mcaps st = mcaps st3" by (simp add: mlit_iff)
    from st3 obtain st2 w where st2: "st2 \<in> set (mt (cats [Set [Wd], ?tail]) (MS [] line []))"
      and rest: "mrest (MS [] line []) = w @ mrest st2" "st3 = MS (mprev st2) (mrest st2) ((1, w) # mcaps st2)"
      unfolding mt_Grp_iff by blast
    from rest have w: "line = w @ mrest st2" and "mcaps st3 = (1, w) # mcaps st2" by simp_all
    with caps have st': "mcaps st = (1, w) # mcaps st2" by simp
    from st2 obtain st1 where st1: "st1 \<in> set (mt (Set [Wd]) (MS [] line []))" and "st2 \<in> set (mt ?tail st1)"
      unfolding mt_cats_two by blast
    then have "advances st1 st2" by (rule_tac mt_advances)
    then have "length (mrest st2) \<le> length (mrest st1)" by (rule advances_length)
    moreover from st1 obtain x where "word_char x" "line = x # mrest st1" by (auto simp: mone_iff)
    ultimately obtain w' where "w = x # w'" using w by (cases w) auto
    with st' m \<open>word_char x\<close> show thesis by (intro that) (auto simp: grp_def)
  qed
  then have "\<not> py_space c" by (auto simp: py_space_def word_char_def char_between_def ord_def)
  with g have "py_split (group m 1) \<noteq> []" by (subst py_split.simps) simp
  then have "returns (py_idx (py_split (group m 1)) (- 1))"
    by (intro py_idx_returns) (cases "py_split (group m 1)"; simp)+
  with Some show ?thesis by (auto simp: starting_func_def returns_def)
qed (simp add: starting_func_def)

definition check_lines ::
  "error_fn \<Rightarrow> string \<Rightarrow> CleansedLines \<Rightarrow> nat list \<Rightarrow> FunctionState \<times> lint \<Rightarrow> (FunctionState \<times> lint) res" where
  "check_lines error filename cl ns p =
     rfold (\<lambda>n p. CheckForFunctionLengths error filename cl n (fst p) (snd p)) ns p"

lemma body_lines_counted:
  assumes "in_a_function fs"
    and "\<forall>n \<in> set ns. n < length (cl_lines cl) \<and> starting_func (cl_lines cl ! n) = Inr False \<and>
           \<not> Matches rx_function_end (cl_lines cl ! n)"
  shows "check_lines error filename cl ns (fs, s) =
     Inr (fs\<lparr>lines_in_function := lines_in_function fs +
             length (filter (\<lambda>n. \<not> list_all ascii_space (cl_lines cl ! n)) ns)\<rparr>, s)"
  using assms
proof (induction ns arbitrary: fs)
  case Nil
  then show ?case by (simp add: check_lines_def)
next
  case (Cons n ns)
  then have n: "py_idx (cl_lines cl) (int n) = Inr (cl_lines cl ! n)" by simp
  let ?fs = "if list_all ascii_space (cl_lines cl ! n) then fs else fs_Count fs"
  from Cons.prems n have "CheckForFunctionLengths error filename cl n fs s = Inr (?fs, s)"
    by (simp add: CheckForFunctionLengths_def Matches_blank)
  then have "check_lines error filename cl (n # ns) (fs, s) = check_lines error filename cl ns (?fs, s)"
    by (simp add: check_lines_def)
  moreover have "in_a_function ?fs" using Cons.prems by (simp add: fs_Count_def)
  ultimately show ?case using Cons by (simp add: fs_Count_def)
qed

text \<open>
  C26: a function that starts on a line with an opening brace and no
  semicolon or closing brace, whose body lines neither start nor end a function, and that ends
  with a closing brace in the first column, is checked at its end with the number of body lines
  that are not blank; the lines before the end leave the sink alone, and afterwards no function
  is tracked.
\<close>

theorem function_lines_counted:
  assumes "a < b" and "b < length (cl_lines cl)" and "NumLines cl = length (cl_lines cl)"
    and "starting_func (cl_lines cl ! a) = Inr True" and "Searches (Lit ''{'') (cl_lines cl ! a)"
    and "\<not> Searches rx_declaration (cl_lines cl ! a)"
    and "\<forall>n \<in> set [a + 1..<b]. starting_func (cl_lines cl ! n) = Inr False \<and>
           \<not> Matches rx_function_end (cl_lines cl ! n)"
    and "starting_func (cl_lines cl ! b) = Inr False" and "Matches rx_function_end (cl_lines cl ! b)"
  shows "\<exists>name.
     let fs' = \<lparr>in_a_function = True,
                lines_in_function = length (filter (\<lambda>n. \<not> list_all ascii_space (cl_lines cl ! n)) [a + 1..<b]),
                current_function = name\<rparr>
     in check_lines error filename cl [a..<b + 1] (fs, s) =
          rbind (fs_Check error filename (int b) fs' s) (\<lambda>s'. Inr (fs_End fs', s'))"
proof -
  let ?start = "cl_lines cl ! a"
  from assms have ix: "py_idx (cl_lines cl) (int a) = Inr ?start" "py_idx (cl_lines cl) (int b) = Inr (cl_lines cl ! b)"
    by simp_all
  obtain m where m: "Search rx_function_name ?start = Some m"
    using function_name_found [OF starting_func_paren [OF assms(4)]] by (auto simp: Searches_def)
  have "[a..<NumLines cl] = a # [a + 1..<NumLines cl]" using assms(1-3) by (simp add: upt_conv_Cons)
  then have "\<exists>name. body_loop cl ?start [a..<NumLines cl] [] fs = Inr (True, fs_Begin name fs)"
    using assms(5,6) m ix(1) by (auto simp: Let_def split: option.split)
  then obtain name where "body_loop cl ?start [a..<NumLines cl] [] fs = Inr (True, fs_Begin name fs)" by blast
  then have first: "CheckForFunctionLengths error filename cl a fs s = Inr (fs_Begin name fs, s)"
    using assms(4) ix(1) by (simp add: CheckForFunctionLengths_def)
  let ?fs = "\<lparr>in_a_function = True,
      lines_in_function = length (filter (\<lambda>n. \<not> list_all ascii_space (cl_lines cl ! n)) [a + 1..<b]),
      current_function = name\<rparr>"
  have body: "check_lines error filename cl [a + 1..<b] (fs_Begin name fs, s) = Inr (?fs, s)"
    using body_lines_counted [of "fs_Begin name fs" "[a + 1..<b]" cl error filename s] assms(2,7)
    by (simp add: fs_Begin_def)
  have last_line: "CheckForFunctionLengths error filename cl b ?fs s =
      rbind (fs_Check error filename (int b) ?fs s) (\<lambda>s'. Inr (fs_End ?fs, s'))"
    using assms(8,9) ix(2) by (simp add: CheckForFunctionLengths_def)
  have "[a..<b + 1] = a # [a + 1..<b] @ [b]"
  proof -
    have "[a..<b + 1] = a # [a + 1..<b + 1]" using assms(1) by (simp add: upt_conv_Cons del: upt_Suc)
    moreover have "[a + 1..<b + 1] = [a + 1..<b] @ [b]" using assms(1) by simp
    ultimately show ?thesis by simp
  qed
  then have "check_lines error filename cl [a..<b + 1] (fs, s) = CheckForFunctionLengths error filename cl b ?fs s"
    using first body by (simp add: check_lines_def rfold_append)
  with last_line show ?thesis by (auto simp: Let_def)
qed

definition small_function :: CleansedLines where
  "small_function = (let ls = [[], ''void f(int a) {'', ''  g(a);'', [], ''  h(a);'', ''}''] in
     \<lparr>elided = ls, cl_lines = ls, raw_lines = ls, lines_without_raw_strings = ls, num_lines = 6\<rparr>)"

theorem function_lines_counted_witness:
  "\<exists>fs'. check_lines Error ''a.cc'' small_function [1..<6] (FunctionState_init, lint_init) = Inr (fs', lint_init) \<and>
     lines_in_function fs' = 2 \<and> \<not> in_a_function fs'"
proof -
  have h: "5 < length (cl_lines small_function)" "NumLines small_function = length (cl_lines small_function)"
    "starting_func (cl_lines small_function ! 1) = Inr True" "Searches (Lit ''{'') (cl_lines small_function ! 1)"
    "\<not> Searches rx_declaration (cl_lines small_function ! 1)"
    "\<forall>n \<in> set [1 + 1..<5]. starting_func (cl_lines small_function ! n) = Inr False \<and>
       \<not> Matches rx_function_end (cl_lines small_function ! n)"
    "starting_func (cl_lines small_function ! 5) = Inr False"
    "Matches rx_function_end (cl_lines small_function ! 5)" by code_simp+
  have n: "length (filter (\<lambda>n. \<not> list_all ascii_space (cl_lines small_function ! n)) [1 + 1..<5]) = 2" by code_simp
  have "fs_Check Error ''a.cc'' 5 \<lparr>in_a_function = True, lines_in_function = 2, current_function = name\<rparr> lint_init
      = Inr lint_init" for name
    by (simp add: fs_Check_def Let_def exceeds_trigger_def base_trigger_def NORMAL_TRIGGER_def TEST_TRIGGER_def
        lint_init_def CppLintState_init_def)
  with function_lines_counted [OF _ h, of Error "''a.cc''" FunctionState_init lint_init] show ?thesis
    unfolding n by (auto simp: Let_def fs_End_def)
qed

end
