(* ===== verification/Nesting.thy ===== *)
theory Nesting
  imports Expressions
begin

section \<open>The nesting state\<close>

text \<open>
  The block classes, \<open>_PreprocessorInfo\<close> and \<open>NestingState\<close> of \<^verbatim>\<open>src/cpplint.py\<close>.
  A block is a record with the fields of \<open>_BlockInfo\<close> and a kind that carries the fields of the
  derived class.  Stacks have their top at the head.  The objects of the source have an
  identity, which one check compares: every block has a number, fresh for every block created
  or copied by \<open>deepcopy\<close>.
\<close>

datatype asm_state = NO_ASM | INSIDE_ASM | END_ASM | BLOCK_ASM

record class_info =
  class_name :: string
  is_derived :: bool
  access :: string
  is_struct :: bool
  class_indent :: nat
  last_line :: nat

datatype block_kind = Plain_Block | ExternC_Block | Class_Block class_info | Namespace_Block string

record BlockInfo =
  block_id :: nat
  starting_linenum :: nat
  seen_open_brace :: bool
  open_parentheses :: int
  inline_asm :: asm_state
  check_namespace_indentation :: bool
  kind :: block_kind

definition BlockInfo_init :: "nat \<Rightarrow> nat \<Rightarrow> bool \<Rightarrow> BlockInfo" where
  "BlockInfo_init ident linenum seen =
     \<lparr>block_id = ident, starting_linenum = linenum, seen_open_brace = seen, open_parentheses = 0,
      inline_asm = NO_ASM, check_namespace_indentation = False, kind = Plain_Block\<rparr>"

definition IsBlockInfo :: "BlockInfo \<Rightarrow> bool" where
  "IsBlockInfo b \<longleftrightarrow> kind b = Plain_Block"

definition ExternCInfo_init :: "nat \<Rightarrow> nat \<Rightarrow> BlockInfo" where
  "ExternCInfo_init ident linenum = BlockInfo_init ident linenum True\<lparr>kind := ExternC_Block\<rparr>"

definition is_class :: "BlockInfo \<Rightarrow> bool" where
  "is_class b \<longleftrightarrow> (\<exists>c. kind b = Class_Block c)"

definition is_namespace :: "BlockInfo \<Rightarrow> bool" where
  "is_namespace b \<longleftrightarrow> (\<exists>n. kind b = Namespace_Block n)"

lemma is_class_code [code]: "is_class b = (case kind b of Class_Block _ \<Rightarrow> True | _ \<Rightarrow> False)"
  by (auto simp: is_class_def split: block_kind.splits)

lemma is_namespace_code [code]: "is_namespace b = (case kind b of Namespace_Block _ \<Rightarrow> True | _ \<Rightarrow> False)"
  by (auto simp: is_namespace_def split: block_kind.splits)

subsection \<open>Classes\<close>

definition rx_indent :: rx where
  "rx_indent = cats [Bol, Grp 1 (star (Lit '' '')), Set [NSp]]"

definition GetIndentLevel :: "string \<Rightarrow> nat" where
  "GetIndentLevel line = (case Match rx_indent line of Some m \<Rightarrow> length (group m 1) | None \<Rightarrow> 0)"

text \<open>The loop that looks for the end of the class; 0 when it is not found.\<close>

primrec class_last_line :: "CleansedLines \<Rightarrow> int \<Rightarrow> nat list \<Rightarrow> nat res" where
  "class_last_line cl depth [] = Inr 0"
| "class_last_line cl depth (i # is) =
     rbind (py_idx (elided cl) (int i)) (\<lambda>line.
       let depth = depth + int (py_count ''{'' line) - int (py_count ''}'' line) in
       if depth = 0 then Inr i else class_last_line cl depth is)"

definition ClassInfo_init :: "nat \<Rightarrow> string \<Rightarrow> string \<Rightarrow> CleansedLines \<Rightarrow> nat \<Rightarrow> BlockInfo res" where
  "ClassInfo_init ident name class_or_struct cl linenum =
     rbind (py_idx (raw_lines cl) (int linenum)) (\<lambda>raw.
     rbind (class_last_line cl 0 [linenum..<NumLines cl]) (\<lambda>end_line.
       Inr (BlockInfo_init ident linenum False\<lparr>
         check_namespace_indentation := True,
         kind := Class_Block \<lparr>class_name = name, is_derived = False,
           access = (if class_or_struct = ''struct'' then ''public'' else ''private''),
           is_struct = (class_or_struct = ''struct''),
           class_indent = GetIndentLevel raw, last_line = end_line\<rparr>\<rparr>)))"

definition rx_bare_colon :: rx where
  "rx_bare_colon = cats [Grp 1 (alts [Bol, NSet [Ch '':'']]), Lit '':'', Grp 2 (alts [Eol, NSet [Ch '':'']])]"

text \<open>\<open>CheckBegin\<close> of a class; for the other blocks it does nothing.\<close>

definition CheckBegin :: "CleansedLines \<Rightarrow> nat \<Rightarrow> BlockInfo \<Rightarrow> BlockInfo res" where
  "CheckBegin cl linenum b =
     (case kind b of
        Class_Block c \<Rightarrow>
          rbind (py_idx (elided cl) (int linenum)) (\<lambda>line.
            Inr (if Searches rx_bare_colon line then b\<lparr>kind := Class_Block (c\<lparr>is_derived := True\<rparr>)\<rparr> else b))
      | _ \<Rightarrow> Inr b)"

text \<open>The class name consists of word characters and colons, so it matches itself in the pattern.\<close>

definition rx_disallow :: "string \<Rightarrow> rx" where
  "rx_disallow name = cats [WordB,
     Grp 1 (alts [Lit ''DISALLOW_COPY_AND_ASSIGN'', Lit ''DISALLOW_IMPLICIT_CONSTRUCTORS'']),
     Lit ''('', Lit name, Lit '')'']"

definition rx_closing_brace :: rx where
  "rx_closing_brace = cats [Bol, Grp 1 (star (Lit '' '')), Lit ''}'']"

primrec disallow_loop ::
  "error_fn \<Rightarrow> string \<Rightarrow> CleansedLines \<Rightarrow> string \<Rightarrow> nat list \<Rightarrow> bool \<Rightarrow> action" where
  "disallow_loop error filename cl name [] seen_last s = Inr s"
| "disallow_loop error filename cl name (i # is) seen_last s =
     rbind (py_idx (elided cl) (int i)) (\<lambda>line.
       case Search (rx_disallow name) line of
         Some m \<Rightarrow>
           whenever seen_last
             (error filename (int i) ''readability/constructors'' 3
                (group m 1 @ '' should be the last thing in the class'')) s
       | None \<Rightarrow> disallow_loop error filename cl name is (seen_last \<or> \<not> Matches rx_blank line) s)"

text \<open>\<open>xrange(linenum - 1, starting_linenum, -1)\<close>\<close>

definition down_to :: "nat \<Rightarrow> nat \<Rightarrow> nat list" where
  "down_to linenum start = rev [start + 1..<linenum]"

definition class_described :: "class_info \<Rightarrow> string" where
  "class_described c = (if is_struct c then ''struct '' else ''class '') @ class_name c"

definition Class_CheckEnd :: "error_fn \<Rightarrow> string \<Rightarrow> CleansedLines \<Rightarrow> nat \<Rightarrow> BlockInfo \<Rightarrow> class_info \<Rightarrow> action" where
  "Class_CheckEnd error filename cl linenum b c s =
     rbind (disallow_loop error filename cl (class_name c) (down_to linenum (starting_linenum b)) False s) (\<lambda>s.
     rbind (py_idx (elided cl) (int linenum)) (\<lambda>line.
       case Match rx_closing_brace line of
         Some indent \<Rightarrow>
           whenever (length (group indent 1) \<noteq> class_indent c)
             (error filename (int linenum) ''whitespace/indent'' 3
                (''Closing brace should be aligned with beginning of '' @ class_described c)) s
       | None \<Rightarrow> Inr s))"

subsection \<open>Namespaces\<close>

definition NamespaceInfo_init :: "nat \<Rightarrow> string option \<Rightarrow> nat \<Rightarrow> BlockInfo" where
  "NamespaceInfo_init ident name linenum =
     BlockInfo_init ident linenum False\<lparr>
       check_namespace_indentation := True,
       kind := Namespace_Block (case name of None \<Rightarrow> [] | Some n \<Rightarrow> n)\<rparr>"

definition rx_comment_open :: rx where
  "rx_comment_open = Grp 1 (alts [Lit ''//'', Lit ''/*''])"

definition rx_namespace_comment :: rx where
  "rx_namespace_comment = cats [Bol, sp0, Lit ''}'', star (Lit '';''), sp0, rx_comment_open, any0, WordB,
     Lit ''namespace'', WordB]"

text \<open>\<open>re.escape\<close> makes the name match itself.\<close>

definition rx_named_end :: "string \<Rightarrow> rx" where
  "rx_named_end name = cats [Bol, sp0, Lit ''}'', star (Lit '';''), sp0, rx_comment_open, any0, WordB,
     Lit ''namespace'', sp1, Lit name, star (Set [Sp, Ch ''*/.'', Ch [backslash]]), Eol]"

definition rx_anonymous_end :: rx where
  "rx_anonymous_end = cats [Bol, sp0, Lit ''}'', star (Lit '';''), sp0, rx_comment_open, any0, WordB,
     Lit ''namespace'', star (Set [Sp, Ch ''*/.'', Ch [backslash]]), Eol]"

definition rx_anonymous_text :: rx where
  "rx_anonymous_text = cats [Bol, sp0, Lit ''}'', any0, WordB,
     Grp 1 (alts [Lit ''namespace anonymous'', Lit ''anonymous namespace'']), WordB]"

definition Namespace_CheckEnd :: "error_fn \<Rightarrow> string \<Rightarrow> CleansedLines \<Rightarrow> nat \<Rightarrow> BlockInfo \<Rightarrow> string \<Rightarrow> action" where
  "Namespace_CheckEnd error filename cl linenum b name s =
     rbind (py_idx (raw_lines cl) (int linenum)) (\<lambda>line.
       if int linenum - int (starting_linenum b) < 10 \<and> \<not> Matches rx_namespace_comment line then Inr s
       else if name \<noteq> [] then
         whenever (\<not> Matches (rx_named_end name) line)
           (error filename (int linenum) ''readability/namespace'' 5
              (''Namespace should be terminated with '' @ [dquote] @ ''// namespace '' @ name @ [dquote])) s
       else if \<not> Matches rx_anonymous_end line then
         (if Matches rx_anonymous_text line then
            error filename (int linenum) ''readability/namespace'' 5
              (''Anonymous namespace should be terminated with '' @ [dquote] @ ''// namespace'' @ [dquote] @
               '' or '' @ [dquote] @ ''// anonymous namespace'' @ [dquote]) s
          else
            error filename (int linenum) ''readability/namespace'' 5
              (''Anonymous namespace should be terminated with '' @ [dquote] @ ''// namespace'' @ [dquote]) s)
       else Inr s)"

text \<open>\<open>CheckEnd\<close>, dispatched on the class of the block.\<close>

definition CheckEnd :: "error_fn \<Rightarrow> string \<Rightarrow> CleansedLines \<Rightarrow> nat \<Rightarrow> BlockInfo \<Rightarrow> action" where
  "CheckEnd error filename cl linenum b =
     (case kind b of
        Class_Block c \<Rightarrow> Class_CheckEnd error filename cl linenum b c
      | Namespace_Block name \<Rightarrow> Namespace_CheckEnd error filename cl linenum b name
      | _ \<Rightarrow> Inr)"

subsection \<open>The state\<close>

record PreprocessorInfo =
  stack_before_if :: "BlockInfo list"
  stack_before_else :: "BlockInfo list"
  seen_else :: bool

definition PreprocessorInfo_init :: "BlockInfo list \<Rightarrow> PreprocessorInfo" where
  "PreprocessorInfo_init bs = \<lparr>stack_before_if = bs, stack_before_else = [], seen_else = False\<rparr>"

record NestingState =
  stack :: "BlockInfo list"
  previous_stack_top :: "BlockInfo option"
  pp_stack :: "PreprocessorInfo list"
  next_id :: nat

definition NestingState_init :: NestingState where
  "NestingState_init = \<lparr>stack = [], previous_stack_top = None, pp_stack = [], next_id = 0\<rparr>"

definition SeenOpenBrace :: "NestingState \<Rightarrow> bool" where
  "SeenOpenBrace ns \<longleftrightarrow> stack ns = [] \<or> seen_open_brace (hd (stack ns))"

definition InNamespaceBody :: "NestingState \<Rightarrow> bool" where
  "InNamespaceBody ns \<longleftrightarrow> stack ns \<noteq> [] \<and> is_namespace (hd (stack ns))"

definition InExternC :: "NestingState \<Rightarrow> bool" where
  "InExternC ns \<longleftrightarrow> stack ns \<noteq> [] \<and> kind (hd (stack ns)) = ExternC_Block"

definition InClassDeclaration :: "NestingState \<Rightarrow> bool" where
  "InClassDeclaration ns \<longleftrightarrow> stack ns \<noteq> [] \<and> is_class (hd (stack ns))"

definition InAsmBlock :: "NestingState \<Rightarrow> bool" where
  "InAsmBlock ns \<longleftrightarrow> stack ns \<noteq> [] \<and> inline_asm (hd (stack ns)) \<noteq> NO_ASM"

definition push :: "BlockInfo \<Rightarrow> NestingState \<Rightarrow> NestingState" where
  "push b ns = ns\<lparr>stack := b # stack ns, next_id := next_id ns + 1\<rparr>"

definition pop :: "NestingState \<Rightarrow> NestingState" where
  "pop ns = ns\<lparr>stack := tl (stack ns)\<rparr>"

text \<open>An assignment to fields of \<open>self.stack[-1]\<close>.\<close>

definition set_top :: "BlockInfo \<Rightarrow> NestingState \<Rightarrow> NestingState" where
  "set_top b ns = ns\<lparr>stack := b # tl (stack ns)\<rparr>"

text \<open>\<open>copy.deepcopy\<close> of a stack: the same blocks with new identities.\<close>

primrec deepcopy :: "nat \<Rightarrow> BlockInfo list \<Rightarrow> BlockInfo list" where
  "deepcopy n [] = []"
| "deepcopy n (b # bs) = b\<lparr>block_id := n\<rparr> # deepcopy (n + 1) bs"

subsection \<open>Template arguments\<close>

definition rx_template_token :: rx where
  "rx_template_token = cats [Bol, star (NSet [Ch ''{};=[].<>'']), Grp 1 Dot]"

lemma consumes_Dot: "consumes Dot w \<Longrightarrow> \<exists>x. w = [x]"
  by (auto simp: consumes_def mone_iff)

lemma template_token_parts:
  assumes "Match rx_template_token t = Some m"
  shows "\<exists>x. group m 1 = [x] \<and> group m 0 \<noteq> [] \<and> length (group m 0) \<le> length t \<and> t ! (length (group m 0) - 1) = x"
proof -
  from Match_layout [OF assms [unfolded rx_template_token_def]]
  obtain w x u where p: "t = w @ [x] @ u" "m_text m = w @ [x]" "m_caps m = [(1, [x])]"
    by (auto simp: list_all2_Cons1 dest!: consumes_Dot)
  then show ?thesis by (auto simp: grp_def nth_append)
qed

function InTemplateArgumentList :: "CleansedLines \<Rightarrow> nat \<Rightarrow> nat \<Rightarrow> bool res" where
  "InTemplateArgumentList cl linenum pos =
     (if linenum < NumLines cl then
        rbind (py_idx (elided cl) (int linenum)) (\<lambda>line.
          case Match rx_template_token (drop pos line) of
            None \<Rightarrow> InTemplateArgumentList cl (linenum + 1) 0
          | Some m \<Rightarrow>
              let token = group m 1; pos1 = pos + length (group m 0) in
              if token \<in> set [''{'', ''}'', '';''] then Inr False
              else if token \<in> set [''>'', ''='', ''['', '']'', ''.''] then Inr True
              else if token \<noteq> ''<'' then
                (if pos1 + 1 \<ge> length line then InTemplateArgumentList cl (linenum + 1) 0
                 else InTemplateArgumentList cl linenum (pos1 + 1))
              else
                rbind (CloseExpression cl linenum (pos1 - 1)) (\<lambda>r.
                  case r of (_, end_line, end_pos) \<Rightarrow>
                    if end_pos < 0 then Inr False
                    else InTemplateArgumentList cl end_line (nat end_pos)))
      else Inr False)"
  by pat_completeness auto
termination
proof (relation "measures [\<lambda>(cl, l, p). NumLines cl - l, \<lambda>(cl, l, p). length (elided cl ! l) - p]", goal_cases)
  case (4 cl l p line m token pos1)
  then show ?case
    by (auto simp: py_idx_def split: if_splits)
next
  case (5 cl l p line m token pos1 r x y end_line end_pos)
  from 5(2) have line: "line = elided cl ! l" by (auto simp: py_idx_def split: if_splits)
  from template_token_parts [OF 5(3)] 5(4-8)
  have t: "group m 0 \<noteq> []" "length (group m 0) \<le> length (drop p line)"
    "drop p line ! (length (group m 0) - 1) = CHR ''<''" by auto
  then have n: "0 < length (group m 0)" by blast
  from t(2) have "length (group m 0) \<le> length line - p" by simp
  with n have "p + length (group m 0) \<le> length line" by arith
  with n 5(5) have pos: "pos1 - 1 < length line" "p < pos1" by arith+
  from t(3) n 5(5) \<open>p + length (group m 0) \<le> length line\<close>
  have tok: "line ! (pos1 - 1) = CHR ''<''" by (simp add: add_diff_assoc)
  from 5(9,10,11) have "CloseExpression cl l (pos1 - 1) = Inr (x, end_line, end_pos)" by simp
  from close_progress [OF this 5(2) pos(1) tok] 5(12) pos(2) 5(1) line
  show ?case by auto
qed auto

declare InTemplateArgumentList.simps [simp del]

subsection \<open>Preprocessor directives\<close>

definition rx_pp_if :: rx where
  "rx_pp_if = cats [Bol, sp0, Lit ''#'', sp0, Grp 1 (alts [Lit ''if'', Lit ''ifdef'', Lit ''ifndef'']), WordB]"

definition rx_pp_else :: rx where
  "rx_pp_else = cats [Bol, sp0, Lit ''#'', sp0, Grp 1 (alts [Lit ''else'', Lit ''elif'']), WordB]"

definition rx_pp_endif :: rx where
  "rx_pp_endif = cats [Bol, sp0, Lit ''#'', sp0, Lit ''endif'', WordB]"

definition UpdatePreprocessor :: "string \<Rightarrow> NestingState \<Rightarrow> NestingState" where
  "UpdatePreprocessor line ns =
     (let n = next_id ns; k = length (stack ns) in
      if Matches rx_pp_if line then
        ns\<lparr>pp_stack := PreprocessorInfo_init (deepcopy n (stack ns)) # pp_stack ns, next_id := n + k\<rparr>
      else if Matches rx_pp_else line then
        (case pp_stack ns of
           [] \<Rightarrow> ns
         | p # ps \<Rightarrow>
             let p' = (if \<not> seen_else p
                       then p\<lparr>seen_else := True, stack_before_else := deepcopy n (stack ns)\<rparr> else p);
                 n' = (if \<not> seen_else p then n + k else n)
             in ns\<lparr>pp_stack := p' # ps, stack := deepcopy n' (stack_before_if p'),
                   next_id := n' + length (stack_before_if p')\<rparr>)
      else if Matches rx_pp_endif line then
        (case pp_stack ns of
           [] \<Rightarrow> ns
         | p # ps \<Rightarrow>
             ns\<lparr>stack := (if seen_else p then stack_before_else p else stack ns), pp_stack := ps\<rparr>)
      else ns)"

subsection \<open>\<open>Update\<close>\<close>

text \<open>Parentheses and inline assembly of the innermost block.\<close>

definition update_asm :: "string \<Rightarrow> BlockInfo \<Rightarrow> BlockInfo" where
  "update_asm line b0 =
     (let depth_change = int (py_count ''('' line) - int (py_count '')'' line);
          b = b0\<lparr>open_parentheses := open_parentheses b0 + depth_change\<rparr>
      in if inline_asm b = NO_ASM \<or> inline_asm b = END_ASM then
           (if depth_change \<noteq> 0 \<and> open_parentheses b = 1 \<and> Matches MATCH_ASM line
            then b\<lparr>inline_asm := INSIDE_ASM\<rparr> else b\<lparr>inline_asm := NO_ASM\<rparr>)
         else if inline_asm b = INSIDE_ASM \<and> open_parentheses b = 0 then b\<lparr>inline_asm := END_ASM\<rparr>
         else b)"

definition update_top_asm :: "string \<Rightarrow> NestingState \<Rightarrow> NestingState" where
  "update_top_asm line ns = (if stack ns \<noteq> [] then set_top (update_asm line (hd (stack ns))) ns else ns)"

definition rx_namespace_decl :: rx where
  "rx_namespace_decl = cats [Bol, sp0, Lit ''namespace'', WordB, sp0,
     opt (Grp 1 (plus1 (Set [Wd, Ch '':'']))), Grp 2 any0, Eol]"

lemma namespace_decl_shorter:
  assumes "Match rx_namespace_decl line = Some m" and "grp m 2 = Some w"
  shows "length w < length line"
  using assms(1)
proof (rule Match_SomeE)
  fix st
  assume st: "st \<in> set (mt rx_namespace_decl (MS [] line []))" and m: "m = mk_match (MS [] line []) st"
  let ?rest = "[WordB, sp0, opt (Grp 1 (plus1 (Set [Wd, Ch '':'']))), Grp 2 any0, Eol]"
  from st obtain s1 s2 s3 where s: "s1 \<in> set (mt Bol (MS [] line []))" "s2 \<in> set (mt sp0 s1)"
    "s3 \<in> set (mt (Lit ''namespace'') s2)" "st \<in> set (mt (cats ?rest) s3)"
    unfolding rx_namespace_decl_def mt_cats_Cons by blast
  from s(1) have s1: "s1 = MS [] line []" by (simp split: if_splits)
  have "mcaps s2 = mcaps s1" using s(2) by (intro capfree_caps [of sp0]) simp
  moreover have "length (mrest s2) \<le> length (mrest s1)" using mt_advances [OF s(2)] by (rule advances_length)
  moreover from s(3) have "mrest s2 = ''namespace'' @ mrest s3" "mcaps s3 = mcaps s2"
    unfolding mt_Lit_iff by blast+
  ultimately have caps: "mcaps s3 = []" and len: "length (mrest s3) < length line" by (simp_all add: s1)
  from grp_short [OF s(4), of "length (mrest s3)" 2 w] caps m assms(2)
  have "length w \<le> length (mrest s3)" by (simp add: short_caps_def caps_hold_def grp_def)
  with len show ?thesis by linarith
qed

text \<open>\<open>group(2)\<close> of a match; the pattern always sets it, otherwise the assignment to \<open>line\<close> would be None.\<close>

function namespace_loop :: "nat \<Rightarrow> string \<Rightarrow> NestingState \<Rightarrow> (string \<times> NestingState) res" where
  "namespace_loop linenum line ns =
     (case Match rx_namespace_decl line of
        None \<Rightarrow> Inr (line, ns)
      | Some m \<Rightarrow>
          (case grp m 2 of
             None \<Rightarrow> Inl AttributeError
           | Some line1 \<Rightarrow>
               let new_namespace = NamespaceInfo_init (next_id ns) (grp m 1) linenum in
               (case py_find ''{'' line1 of
                  Some k \<Rightarrow>
                    namespace_loop linenum (drop (k + 1) line1) (push (new_namespace\<lparr>seen_open_brace := True\<rparr>) ns)
                | None \<Rightarrow> namespace_loop linenum line1 (push new_namespace ns))))"
  by pat_completeness auto
termination
  by (relation "measure (\<lambda>(linenum, line, ns). length line)") (auto dest!: namespace_decl_shorter)

declare namespace_loop.simps [simp del]

definition rx_class_decl :: rx where
  "rx_class_decl = cats [Bol,
     Grp 1 (cats [sp0, opt (cats [Lit ''template'', sp0, Lit ''<'', star (Set [Wd, Sp, Ch ''<>,:'']), Lit ''>'', sp0]),
       Grp 2 (alts [Lit ''class'', Lit ''struct'']), sp1,
       star (cats [plus1 (Set [Rg (CHR ''A'') (CHR ''Z''), Ch ''_'']), sp1]),
       Grp 3 (cats [wd1, star (cats [Lit ''::'', wd1])])]),
     Grp 4 any0, Eol]"

definition class_step :: "CleansedLines \<Rightarrow> nat \<Rightarrow> string \<Rightarrow> NestingState \<Rightarrow> (string \<times> NestingState) res" where
  "class_step cl linenum line ns =
     (case Match rx_class_decl line of
        None \<Rightarrow> Inr (line, ns)
      | Some m \<Rightarrow>
          if stack ns = [] \<or> open_parentheses (hd (stack ns)) = 0 then
            rbind (InTemplateArgumentList cl linenum (length (group m 1))) (\<lambda>in_template.
              if \<not> in_template then
                rbind (ClassInfo_init (next_id ns) (group m 3) (group m 2) cl linenum) (\<lambda>b.
                  Inr (group m 4, push b ns))
              else Inr (line, ns))
          else Inr (line, ns))"

definition begin_step :: "CleansedLines \<Rightarrow> nat \<Rightarrow> NestingState \<Rightarrow> NestingState res" where
  "begin_step cl linenum ns =
     (if \<not> SeenOpenBrace ns
      then rbind (CheckBegin cl linenum (hd (stack ns))) (\<lambda>b. Inr (set_top b ns))
      else Inr ns)"

definition rx_access :: rx where
  "rx_access = cats [Bol, Grp 1 any0, WordB,
     Grp 2 (alts [Lit ''public'', Lit ''private'', Lit ''protected'', Lit ''signals'']),
     opt (Grp 3 (cats [sp1, opt (cats [Lit ''slots'', sp0])])), Lit '':'', alts [NSet [Ch '':''], Eol]]"

definition access_step ::
  "error_fn \<Rightarrow> string \<Rightarrow> nat \<Rightarrow> string \<Rightarrow> NestingState \<Rightarrow> lint \<Rightarrow> (NestingState \<times> lint) res" where
  "access_step error filename linenum line ns s =
     (case stack ns of
        [] \<Rightarrow> Inr (ns, s)
      | b # _ \<Rightarrow>
          (case kind b of
             Class_Block classinfo \<Rightarrow>
               (case Match rx_access line of
                  None \<Rightarrow> Inr (ns, s)
                | Some m \<Rightarrow>
                    let ns' = set_top (b\<lparr>kind := Class_Block (classinfo\<lparr>access := group m 2\<rparr>)\<rparr>) ns;
                        indent = group m 1;
                        slots = (case grp m 3 of None \<Rightarrow> [] | Some w \<Rightarrow> w)
                    in rbind (whenever (length indent \<noteq> class_indent classinfo + 1 \<and> Matches rx_blank indent)
                         (error filename (int linenum) ''whitespace/indent'' 3
                            (group m 2 @ slots @ '': should be indented +1 space inside '' @ class_described classinfo)) s)
                         (\<lambda>s'. Inr (ns', s')))
           | _ \<Rightarrow> Inr (ns, s)))"

definition rx_brace_token :: rx where
  "rx_brace_token = cats [Bol, star (NSet [Ch ''{;)}'']), Grp 1 (Set [Ch ''{;)}'']), Grp 2 any0, Eol]"

definition rx_extern_c :: rx where
  "rx_extern_c = cats [Bol, Lit ''extern'', sp0, Lit [dquote], star (NSet [Ch [dquote]]), Lit [dquote], sp0, Lit ''{'']"

text \<open>One brace, semicolon or closing parenthesis.\<close>

definition token_step ::
  "error_fn \<Rightarrow> string \<Rightarrow> CleansedLines \<Rightarrow> nat \<Rightarrow> string \<Rightarrow> string \<Rightarrow> NestingState \<Rightarrow> lint \<Rightarrow> (NestingState \<times> lint) res" where
  "token_step error filename cl linenum line token ns s =
     (if token = ''{'' then
        Inr (if \<not> SeenOpenBrace ns then set_top (hd (stack ns)\<lparr>seen_open_brace := True\<rparr>) ns
             else if Matches rx_extern_c line then push (ExternCInfo_init (next_id ns) linenum) ns
             else push (if Matches MATCH_ASM line
                        then BlockInfo_init (next_id ns) linenum True\<lparr>inline_asm := BLOCK_ASM\<rparr>
                        else BlockInfo_init (next_id ns) linenum True) ns, s)
      else if token = '';'' \<or> token = '')'' then
        Inr (if \<not> SeenOpenBrace ns then pop ns else ns, s)
      else if stack ns \<noteq> [] then
        rbind (CheckEnd error filename cl linenum (hd (stack ns)) s) (\<lambda>s'. Inr (pop ns, s'))
      else Inr (ns, s))"

lemma brace_token_parts:
  assumes "Match rx_brace_token line = Some m"
  shows "\<exists>w x rest t. line = w @ x # rest @ t \<and> group m 1 = [x] \<and> group m 2 = rest \<and> x \<in> set ''{;)}'' \<and>
     list_all (\<lambda>c. c \<notin> set ''{;)}'') w"
proof -
  from Match_layout [OF assms [unfolded rx_brace_token_def]]
  obtain w x rest t where p: "line = w @ [x] @ rest @ t" "m_caps m = [(2, rest), (1, [x])]"
    "cset [Ch ''{;)}''] x" "list_all (\<lambda>c. \<not> cset [Ch ''{;)}''] c) w"
    by (auto simp: list_all2_Cons1 simp del: cset_Ch)
  then show ?thesis
    by (intro exI [of _ w] exI [of _ x] exI [of _ rest] exI [of _ t]) (simp add: grp_def)
qed

function braces_loop ::
  "error_fn \<Rightarrow> string \<Rightarrow> CleansedLines \<Rightarrow> nat \<Rightarrow> string \<Rightarrow> NestingState \<Rightarrow> lint \<Rightarrow> (NestingState \<times> lint) res" where
  "braces_loop error filename cl linenum line ns s =
     (case Match rx_brace_token line of
        None \<Rightarrow> Inr (ns, s)
      | Some m \<Rightarrow>
          rbind (token_step error filename cl linenum line (group m 1) ns s) (\<lambda>p.
            braces_loop error filename cl linenum (group m 2) (fst p) (snd p)))"
  by pat_completeness auto
termination
  by (relation "measure (\<lambda>(error, filename, cl, linenum, line, ns, s). length line)")
    (auto dest!: brace_token_parts)

declare braces_loop.simps [simp del]

definition Update ::
  "error_fn \<Rightarrow> string \<Rightarrow> CleansedLines \<Rightarrow> nat \<Rightarrow> NestingState \<Rightarrow> lint \<Rightarrow> (NestingState \<times> lint) res" where
  "Update error filename cl linenum ns s =
     rbind (py_idx (elided cl) (int linenum)) (\<lambda>line.
     let ns1 = ns\<lparr>previous_stack_top := (if stack ns \<noteq> [] then Some (hd (stack ns)) else None)\<rparr>;
         ns2 = update_top_asm line (UpdatePreprocessor line ns1)
     in rbind (namespace_loop linenum line ns2) (\<lambda>(line3, ns3).
        rbind (class_step cl linenum line3 ns3) (\<lambda>(line4, ns4).
        rbind (begin_step cl linenum ns4) (\<lambda>ns5.
        rbind (access_step error filename linenum line4 ns5 s) (\<lambda>(ns6, s6).
        braces_loop error filename cl linenum line4 ns6 s6)))))"

definition InnermostClass :: "NestingState \<Rightarrow> BlockInfo option" where
  "InnermostClass ns = List.find is_class (stack ns)"

definition check_completed :: "error_fn \<Rightarrow> string \<Rightarrow> BlockInfo \<Rightarrow> action" where
  "check_completed error filename obj =
     (case kind obj of
        Class_Block c \<Rightarrow>
          error filename (int (starting_linenum obj)) ''build/class'' 5
            (''Failed to find complete declaration of class '' @ class_name c)
      | Namespace_Block name \<Rightarrow>
          error filename (int (starting_linenum obj)) ''build/namespaces'' 5
            (''Failed to find complete declaration of namespace '' @ name)
      | _ \<Rightarrow> Inr)"

definition CheckCompletedBlocks :: "error_fn \<Rightarrow> string \<Rightarrow> NestingState \<Rightarrow> action" where
  "CheckCompletedBlocks error filename ns = rfold (check_completed error filename) (rev (stack ns))"

subsection \<open>The searches return\<close>

lemma close_loop_returns: "lines_ok cl \<Longrightarrow> returns (close_loop cl x l st)"
proof (induction cl x l st rule: close_loop.induct)
  case (1 cl x l st)
  show ?case
  proof (cases "pending st \<and> l + 1 < NumLines cl")
    case True
    with 1(2) have line: "py_idx (elided cl) (int (l + 1)) = Inr (elided cl ! (l + 1))"
      by (intro py_idx_nat) (simp add: lines_ok_def NumLines_def)
    obtain e st1 where f: "FindEndOfExpressionInLine (elided cl ! (l + 1)) 0 (the st) = (e, st1)" by fastforce
    from 1(1) [OF True line f [symmetric] _ 1(2)] True line f show ?thesis
      by (subst close_loop.simps) (auto simp del: of_nat_add of_nat_Suc)
  next
    case False
    then show ?thesis by (subst close_loop.simps) auto
  qed
qed

lemma close_returns:
  assumes "lines_ok cl" "py_idx (elided cl) (int l) = Inr line" "p < length line"
  shows "returns (CloseExpression cl l p)"
proof -
  have "py_idx line (int p) = Inr (line ! p)" using assms(3) by simp
  with assms close_loop_returns [OF assms(1)] show ?thesis
    by (auto simp: CloseExpression_def split: prod.split)
qed

lemma lines_ok_idx: "lines_ok cl \<Longrightarrow> l < NumLines cl \<Longrightarrow> py_idx (elided cl) (int l) = Inr (elided cl ! l)"
  by (simp add: lines_ok_def NumLines_def)

lemma InTemplateArgumentList_returns: "lines_ok cl \<Longrightarrow> returns (InTemplateArgumentList cl l p)"
proof (induction cl l p rule: InTemplateArgumentList.induct)
  case (1 cl l p)
  show ?case
  proof (cases "l < NumLines cl")
    case True
    note line = lines_ok_idx [OF 1(5) True]
    let ?line = "elided cl ! l"
    show ?thesis
    proof (cases "Match rx_template_token (drop p ?line)")
      case None
      with 1(1) [OF True line None 1(5)] True line show ?thesis
        by (subst InTemplateArgumentList.simps) simp
    next
      case (Some m)
      let ?pos1 = "p + length (group m 0)"
      note IH = 1(2-4) [OF True line Some refl refl]
      from template_token_parts [OF Some] have "0 < length (group m 0)" "length (group m 0) \<le> length ?line - p"
        by auto
      then have "?pos1 - 1 < length ?line" by arith
      from close_returns [OF 1(5) line this] obtain r where r: "CloseExpression cl l (?pos1 - 1) = Inr r"
        by (auto simp: returns_def)
      from IH 1(5) True line Some r show ?thesis
        by (subst InTemplateArgumentList.simps) (auto simp: Let_def split: prod.split)
    qed
  next
    case False
    then show ?thesis by (subst InTemplateArgumentList.simps) simp
  qed
qed

lemma class_last_line_returns:
  "lines_ok cl \<Longrightarrow> \<forall>i \<in> set is. i < NumLines cl \<Longrightarrow> returns (class_last_line cl d is)"
  by (induction "is" arbitrary: d) (simp_all add: lines_ok_idx Let_def)

subsection \<open>The invariant\<close>

text \<open>
  Every block of a stack started before line \<open>n\<close> and has an identity below \<open>k\<close>; no two blocks of
  a stack are the same object.
\<close>

definition good_stack :: "nat \<Rightarrow> nat \<Rightarrow> BlockInfo list \<Rightarrow> bool" where
  "good_stack n k bs \<longleftrightarrow> (\<forall>b \<in> set bs. starting_linenum b < n \<and> block_id b < k) \<and> distinct (map block_id bs)"

definition nesting_ok :: "nat \<Rightarrow> NestingState \<Rightarrow> bool" where
  "nesting_ok n ns \<longleftrightarrow> good_stack n (next_id ns) (stack ns) \<and>
     (\<forall>p \<in> set (pp_stack ns). good_stack n (next_id ns) (stack_before_if p) \<and>
                               good_stack n (next_id ns) (stack_before_else p))"

lemma good_stack_simps [simp]:
  "good_stack n k []"
  "good_stack n k (b # bs) \<longleftrightarrow>
     starting_linenum b < n \<and> block_id b < k \<and> block_id b \<notin> block_id ` set bs \<and> good_stack n k bs"
  by (auto simp: good_stack_def)

lemma good_stack_mono: "good_stack n k bs \<Longrightarrow> n \<le> n' \<Longrightarrow> k \<le> k' \<Longrightarrow> good_stack n' k' bs"
  by (fastforce simp: good_stack_def)

lemma nesting_ok_mono: "nesting_ok n ns \<Longrightarrow> n \<le> n' \<Longrightarrow> nesting_ok n' ns"
  by (auto simp: nesting_ok_def intro: good_stack_mono)

lemma deepcopy_ids: "block_id ` set (deepcopy k bs) = {k..<k + length bs}"
proof (induction bs arbitrary: k)
  case (Cons b bs)
  have "{k..<k + length (b # bs)} = insert k {Suc k..<Suc k + length bs}" by auto
  with Cons [of "Suc k"] show ?case by simp
qed simp

lemma deepcopy_good: "good_stack n k bs \<Longrightarrow> good_stack n (k' + length bs) (deepcopy k' bs)"
proof (induction bs arbitrary: k')
  case (Cons b bs)
  have "k' \<notin> block_id ` set (deepcopy (k' + 1) bs)" unfolding deepcopy_ids by simp
  with Cons.IH [of "k' + 1"] Cons.prems show ?case by simp
qed simp

lemma push_ok:
  "nesting_ok n ns \<Longrightarrow> starting_linenum b < n \<Longrightarrow> block_id b = next_id ns \<Longrightarrow> nesting_ok n (push b ns)"
  by (fastforce simp: nesting_ok_def push_def good_stack_def)

lemma pop_ok: "nesting_ok n ns \<Longrightarrow> nesting_ok n (pop ns)"
  by (cases "stack ns") (auto simp: nesting_ok_def pop_def)

lemma set_top_ok:
  assumes "nesting_ok n ns" "stack ns \<noteq> []"
    and "starting_linenum b = starting_linenum (hd (stack ns))" "block_id b = block_id (hd (stack ns))"
  shows "nesting_ok n (set_top b ns)"
  using assms by (cases "stack ns") (auto simp: nesting_ok_def set_top_def)

lemma UpdatePreprocessor_ok:
  assumes "nesting_ok n ns" shows "nesting_ok n (UpdatePreprocessor line ns)"
proof -
  let ?k = "next_id ns"
  have up: "good_stack n ?k bs \<Longrightarrow> good_stack n (?k + j) bs" for bs j
    by (erule good_stack_mono) simp_all
  have copy: "good_stack n ?k bs \<Longrightarrow> good_stack n (?k + i + length bs + j) (deepcopy (?k + i) bs)" for bs i j
    by (drule deepcopy_good [of n ?k bs "?k + i"], erule good_stack_mono) simp_all
  from copy [of "stack ns" 0 0] assms
  have if_case: "nesting_ok n (ns\<lparr>pp_stack := PreprocessorInfo_init (deepcopy ?k (stack ns)) # pp_stack ns,
      next_id := ?k + length (stack ns)\<rparr>)"
    by (auto simp: nesting_ok_def PreprocessorInfo_init_def intro: up)
  show ?thesis
  proof (cases "pp_stack ns")
    case Nil
    with if_case assms show ?thesis by (simp add: UpdatePreprocessor_def Let_def)
  next
    case (Cons p ps)
    from assms Cons have p: "good_stack n ?k (stack_before_if p)" "good_stack n ?k (stack_before_else p)"
      "good_stack n ?k (stack ns)"
      and ps: "\<forall>p \<in> set ps. good_stack n ?k (stack_before_if p) \<and> good_stack n ?k (stack_before_else p)"
      by (auto simp: nesting_ok_def)
    have first_else: "nesting_ok n (ns\<lparr>pp_stack := p\<lparr>seen_else := True, stack_before_else := deepcopy ?k (stack ns)\<rparr> # ps,
        stack := deepcopy (?k + length (stack ns)) (stack_before_if p),
        next_id := ?k + length (stack ns) + length (stack_before_if p)\<rparr>)"
      using copy [OF p(1), of "length (stack ns)" 0] copy [OF p(3), of 0 "length (stack_before_if p)"] p ps
      by (auto simp: nesting_ok_def intro: up [of _ "length (stack ns) + length (stack_before_if p)", simplified add.assoc [symmetric]])
    have later_else: "nesting_ok n (ns\<lparr>pp_stack := p # ps, stack := deepcopy ?k (stack_before_if p),
        next_id := ?k + length (stack_before_if p)\<rparr>)"
      using copy [OF p(1), of 0 0] p ps by (auto simp: nesting_ok_def intro: up)
    have endif: "nesting_ok n (ns\<lparr>stack := (if seen_else p then stack_before_else p else stack ns), pp_stack := ps\<rparr>)"
      using p ps by (simp add: nesting_ok_def)
    have c: "pp_stack (ns\<lparr>pp_stack := x\<rparr>) = x" for x by simp
    show ?thesis
      using if_case first_else later_else endif assms Cons
      by (simp add: UpdatePreprocessor_def Let_def split: if_split)
  qed
qed

lemma update_asm_fields [simp]:
  "starting_linenum (update_asm line b) = starting_linenum b" "block_id (update_asm line b) = block_id b"
  by (simp_all add: update_asm_def Let_def)

lemma update_top_asm_ok: "nesting_ok n ns \<Longrightarrow> nesting_ok n (update_top_asm line ns)"
  by (auto simp: update_top_asm_def intro!: set_top_ok)

lemma namespace_decl_group: "Match rx_namespace_decl line = Some m \<Longrightarrow> grp m 2 \<noteq> None"
proof (erule Match_SomeE)
  fix st assume st: "st \<in> set (mt rx_namespace_decl (MS [] line []))" and m: "m = mk_match (MS [] line []) st"
  let ?pre = "[Bol, sp0, Lit ''namespace'', WordB, sp0, opt (Grp 1 (plus1 (Set [Wd, Ch '':''])))]"
  from st obtain s6 s7 s8 where s: "s7 \<in> set (mt (Grp 2 any0) s6)" "s8 \<in> set (mt Eol s7)"
    "st \<in> set (mt (cats []) s8)"
    unfolding rx_namespace_decl_def mt_cats_Cons by blast
  from s(1) obtain w st1 where "s7 = MS (mprev st1) (mrest st1) ((2, w) # mcaps st1)" unfolding mt_Grp_iff by blast
  with s(2,3) m show "grp m 2 \<noteq> None" by (auto simp: grp_def split: if_splits)
qed

lemma namespace_loop_ok:
  "nesting_ok n ns \<Longrightarrow> linenum < n \<Longrightarrow> lands (\<lambda>r. nesting_ok n (snd r)) (namespace_loop linenum line ns)"
proof (induction linenum line ns rule: namespace_loop.induct)
  case (1 linenum line ns)
  show ?case
  proof (cases "Match rx_namespace_decl line")
    case None
    with 1(3) show ?thesis by (subst namespace_loop.simps) simp
  next
    case (Some m)
    from namespace_decl_group [OF Some] obtain line1 where l1: "grp m 2 = Some line1" by blast
    let ?b = "NamespaceInfo_init (next_id ns) (grp m 1) linenum"
    have ok: "nesting_ok n (push ?b ns)" "nesting_ok n (push (?b\<lparr>seen_open_brace := True\<rparr>) ns)"
      using 1(3,4) by (auto intro!: push_ok simp: NamespaceInfo_init_def BlockInfo_init_def)
    show ?thesis
      using 1(1) [OF Some l1 refl _ ok(1) 1(4)] 1(2) [OF Some l1 refl _ ok(2) 1(4)] Some l1
      by (subst namespace_loop.simps) (simp add: Let_def split: option.split)
  qed
qed

lemma ClassInfo_init_ok:
  assumes "lines_ok cl" "length (raw_lines cl) = num_lines cl" "linenum < num_lines cl"
  shows "lands (\<lambda>b. starting_linenum b = linenum \<and> block_id b = ident) (ClassInfo_init ident name cs cl linenum)"
proof -
  have "returns (class_last_line cl 0 [linenum..<NumLines cl])"
    using assms(1) by (intro class_last_line_returns) auto
  then obtain e where "class_last_line cl 0 [linenum..<NumLines cl] = Inr e" by (auto simp: returns_def)
  with assms show ?thesis by (simp add: ClassInfo_init_def BlockInfo_init_def)
qed

lemma class_step_ok:
  assumes "lines_ok cl" "length (raw_lines cl) = num_lines cl" "linenum < num_lines cl"
    and "nesting_ok n ns" "linenum < n"
  shows "lands (\<lambda>r. nesting_ok n (snd r)) (class_step cl linenum line ns)"
proof (cases "Match rx_class_decl line")
  case None
  with assms(4) show ?thesis by (simp add: class_step_def)
next
  case (Some m)
  have t: "lands (\<lambda>_. True) (InTemplateArgumentList cl linenum p)" for p
    using InTemplateArgumentList_returns [OF assms(1)] by (auto simp: lands_def returns_def)
  have "lands (\<lambda>r. nesting_ok n (snd r))
      (rbind (ClassInfo_init (next_id ns) a b cl linenum) (\<lambda>b. Inr (c, push b ns)))" for a b c
    by (rule lands_bind [OF ClassInfo_init_ok [OF assms(1-3)]]) (use assms(4,5) push_ok in auto)
  with Some assms(4) show ?thesis
    by (auto simp: class_step_def intro!: lands_bind [OF t])
qed

lemma begin_step_ok:
  assumes "lines_ok cl" "linenum < num_lines cl" "nesting_ok n ns"
  shows "lands (nesting_ok n) (begin_step cl linenum ns)"
proof (cases "SeenOpenBrace ns")
  case False
  then have "stack ns \<noteq> []" by (simp add: SeenOpenBrace_def)
  have ix: "py_idx (elided cl) (int linenum) = Inr (elided cl ! linenum)"
    using assms(1,2) by (intro lines_ok_idx) (simp_all add: NumLines_def)
  have "lands (\<lambda>b. starting_linenum b = starting_linenum (hd (stack ns)) \<and> block_id b = block_id (hd (stack ns)))
      (CheckBegin cl linenum (hd (stack ns)))"
    using ix by (auto simp: CheckBegin_def split: block_kind.split)
  then show ?thesis
    using False \<open>stack ns \<noteq> []\<close> assms(3) by (auto simp: begin_step_def intro!: lands_bind set_top_ok elim: lands_mono)
qed (use assms in \<open>simp add: begin_step_def\<close>)

context error_handler
begin

lemma access_step_lands:
  assumes "nesting_ok n ns" "I s"
  shows "lands (\<lambda>(ns', s'). nesting_ok n ns' \<and> I s') (access_step error filename linenum line ns s)"
proof (cases "stack ns")
  case (Cons b bs)
  have "lands (\<lambda>(ns', s'). nesting_ok n ns' \<and> I s')
      (rbind (whenever c (error filename l ''whitespace/indent'' 3 msg) s) (\<lambda>s'. Inr (set_top (b\<lparr>kind := k\<rparr>) ns, s')))"
    for c l msg k
    by (rule lands_bind [where Q = I])
      (use assms Cons in \<open>auto intro!: lands_whenever error_lands set_top_ok\<close>)
  with assms Cons show ?thesis
    by (auto simp: access_step_def Let_def split: block_kind.split option.split)
qed (use assms in \<open>simp add: access_step_def\<close>)

lemma disallow_loop_lands:
  "lines_ok cl \<Longrightarrow> \<forall>i \<in> set is. i < NumLines cl \<Longrightarrow> I s \<Longrightarrow> lands I (disallow_loop error filename cl name is seen s)"
  by (induction "is" arbitrary: seen)
    (auto simp: lines_ok_idx split: option.split intro!: lands_whenever error_lands)

lemma CheckEnd_lands:
  assumes "lines_ok cl" "length (raw_lines cl) = num_lines cl" "linenum < num_lines cl" "I s"
  shows "lands I (CheckEnd error filename cl linenum b s)"
proof -
  have ix: "py_idx (elided cl) (int linenum) = Inr (elided cl ! linenum)"
    "py_idx (raw_lines cl) (int linenum) = Inr (raw_lines cl ! linenum)"
    using assms by (auto intro: lines_ok_idx simp: NumLines_def)
  have "lands I (disallow_loop error filename cl name (down_to linenum k) False s)" for name k
    using assms by (intro disallow_loop_lands) (auto simp: down_to_def NumLines_def)
  then have "lands I (Class_CheckEnd error filename cl linenum b c s)" for c
    unfolding Class_CheckEnd_def ix rbind_simps
    by (rule lands_bind) (auto split: option.split intro!: lands_whenever error_lands)
  moreover have "lands I (Namespace_CheckEnd error filename cl linenum b name s)" for name
    using assms(4) by (auto simp: Namespace_CheckEnd_def ix intro!: lands_whenever error_lands)
  ultimately show ?thesis using assms(4) by (auto simp: CheckEnd_def split: block_kind.split)
qed

lemma token_step_lands:
  assumes "lines_ok cl" "length (raw_lines cl) = num_lines cl" "linenum < num_lines cl" "linenum < n"
    and "nesting_ok n ns" "I s"
  shows "lands (\<lambda>(ns', s'). nesting_ok n ns' \<and> I s') (token_step error filename cl linenum line token ns s)"
proof -
  have top: "nesting_ok n (set_top (hd (stack ns)\<lparr>seen_open_brace := True\<rparr>) ns)" if "\<not> SeenOpenBrace ns"
    using that assms(5) by (intro set_top_ok) (auto simp: SeenOpenBrace_def)
  have new: "nesting_ok n (push (ExternCInfo_init (next_id ns) linenum) ns)"
    "nesting_ok n (push (BlockInfo_init (next_id ns) linenum True) ns)"
    "nesting_ok n (push (BlockInfo_init (next_id ns) linenum True\<lparr>inline_asm := BLOCK_ASM\<rparr>) ns)"
    using assms(4,5) by (auto intro!: push_ok simp: ExternCInfo_init_def BlockInfo_init_def)
  have close: "lands (\<lambda>(ns', s'). nesting_ok n ns' \<and> I s')
      (rbind (CheckEnd error filename cl linenum b s) (\<lambda>s'. Inr (pop ns, s')))" for b
    by (rule lands_bind [OF CheckEnd_lands [OF assms(1-3,6)]]) (use assms(5) pop_ok in auto)
  show ?thesis
    using top new close pop_ok [OF assms(5)] assms(5,6) by (auto simp: token_step_def)
qed

lemma braces_loop_lands:
  assumes "lines_ok cl" "length (raw_lines cl) = num_lines cl" "linenum < num_lines cl" "linenum < n"
  shows "nesting_ok n ns \<Longrightarrow> I s \<Longrightarrow>
    lands (\<lambda>(ns', s'). nesting_ok n ns' \<and> I s') (braces_loop error filename cl linenum line ns s)"
proof (induction "length line" arbitrary: line ns s rule: less_induct)
  case less
  show ?case
  proof (cases "Match rx_brace_token line")
    case None
    with less.prems show ?thesis by (subst braces_loop.simps) simp
  next
    case (Some m)
    then have "length (group m 2) < length line" by (auto dest!: brace_token_parts)
    with less.hyps have "nesting_ok n (fst p) \<Longrightarrow> I (snd p) \<Longrightarrow>
        lands (\<lambda>(ns', s'). nesting_ok n ns' \<and> I s') (braces_loop error filename cl linenum (group m 2) (fst p) (snd p))" for p
      by blast
    then have "lands (\<lambda>(ns', s'). nesting_ok n ns' \<and> I s')
        (rbind (token_step error filename cl linenum line (group m 1) ns s)
           (\<lambda>p. braces_loop error filename cl linenum (group m 2) (fst p) (snd p)))"
      by (intro lands_bind [OF token_step_lands [OF assms less.prems]]) auto
    then show ?thesis using Some by (subst braces_loop.simps) simp
  qed
qed

lemma Update_lands:
  assumes "lines_ok cl" "length (raw_lines cl) = num_lines cl" "linenum < num_lines cl" "linenum < n"
    and "nesting_ok n ns" "I s"
  shows "lands (\<lambda>(ns', s'). nesting_ok n ns' \<and> I s') (Update error filename cl linenum ns s)"
proof -
  let ?line = "elided cl ! linenum"
  have ix: "py_idx (elided cl) (int linenum) = Inr ?line"
    using assms by (auto intro: lines_ok_idx simp: NumLines_def)
  have "nesting_ok n (ns\<lparr>previous_stack_top := t\<rparr>)" for t
    using assms(5) by (simp add: nesting_ok_def)
  then have ok2: "nesting_ok n (update_top_asm ?line (UpdatePreprocessor ?line (ns\<lparr>previous_stack_top := t\<rparr>)))" for t
    by (intro update_top_asm_ok UpdatePreprocessor_ok)
  show ?thesis
    unfolding Update_def ix rbind_simps Let_def
    apply (rule lands_bind [OF namespace_loop_ok [OF ok2 assms(4)]])
    apply (clarsimp split: prod.splits)
    apply (rule lands_bind [OF class_step_ok [OF assms(1-3) _ assms(4)]], assumption)
    apply (clarsimp split: prod.splits)
    apply (rule lands_bind [OF begin_step_ok [OF assms(1,3)]], assumption)
    apply (rule lands_bind [OF access_step_lands [OF _ assms(6)]], assumption)
    apply (clarsimp split: prod.splits)
    apply (rule braces_loop_lands [OF assms(1-4)]; simp)
    done
qed

lemma CheckCompletedBlocks_keeps: "keeps I (CheckCompletedBlocks error filename ns)"
  unfolding CheckCompletedBlocks_def
  by (intro keeps_rfold) (auto simp: check_completed_def split: block_kind.split intro: keeps_intros error_keeps)

end

end
