(* ===== verification/Nesting_Laws.thy ===== *)
theory Nesting_Laws
  imports Nesting
begin

section \<open>What the nesting state computes\<close>

text \<open>
  The nesting state over a whole file: the pass always succeeds; the lines of \<open>#else\<close> branches
  have no influence on the stack; and the size of the stack is the brace depth.
\<close>

subsection \<open>States that differ in the identities of their blocks only\<close>

definition forget :: "BlockInfo \<Rightarrow> BlockInfo" where
  "forget b = b\<lparr>block_id := 0\<rparr>"

definition pp_shape :: "PreprocessorInfo \<Rightarrow> BlockInfo list \<times> BlockInfo list \<times> bool" where
  "pp_shape p = (map forget (stack_before_if p), map forget (stack_before_else p), seen_else p)"

definition alike :: "NestingState \<Rightarrow> NestingState \<Rightarrow> bool" where
  "alike ns ns' \<longleftrightarrow> map forget (stack ns) = map forget (stack ns') \<and>
     map pp_shape (pp_stack ns) = map pp_shape (pp_stack ns')"

text \<open>Two computations either raise the same exception or both return, with related values.\<close>

definition matched :: "('a \<Rightarrow> 'b \<Rightarrow> bool) \<Rightarrow> 'a res \<Rightarrow> 'b res \<Rightarrow> bool" where
  "matched R = rel_sum (=) R"

lemma matched_simps [simp]:
  "matched R (Inr x) (Inr y) \<longleftrightarrow> R x y"
  "matched R (Inl e) (Inl e') \<longleftrightarrow> e = e'"
  by (simp_all add: matched_def)

lemma matched_bind:
  "matched Q m m' \<Longrightarrow> (\<And>x y. Q x y \<Longrightarrow> matched R (f x) (g y)) \<Longrightarrow> matched R (rbind m f) (rbind m' g)"
  by (cases m; cases m') (auto simp: matched_def)

lemma matched_same: "(\<And>x. m = Inr x \<Longrightarrow> matched R (f x) (g x)) \<Longrightarrow> matched R (rbind m f) (rbind m g)"
  by (cases m) auto

lemma forget_iff:
  "forget b = forget c \<longleftrightarrow> starting_linenum b = starting_linenum c \<and> seen_open_brace b = seen_open_brace c \<and>
     open_parentheses b = open_parentheses c \<and> inline_asm b = inline_asm c \<and>
     check_namespace_indentation b = check_namespace_indentation c \<and> kind b = kind c"
  by (cases b; cases c) (auto simp: forget_def)

lemma forget_deepcopy [simp]: "map forget (deepcopy n bs) = map forget bs"
  by (induction bs arbitrary: n) (simp_all add: forget_iff)

lemma alike_refl [simp]: "alike ns ns"
  by (simp add: alike_def)

lemma alike_sym: "alike ns ns' \<Longrightarrow> alike ns' ns"
  by (simp add: alike_def)

lemma alike_trans: "alike ns ns' \<Longrightarrow> alike ns' ns'' \<Longrightarrow> alike ns ns''"
  by (simp add: alike_def)

lemma alike_Nil: "alike ns ns' \<Longrightarrow> stack ns = [] \<longleftrightarrow> stack ns' = []"
  by (metis alike_def map_is_Nil_conv)

lemma alike_top:
  assumes "alike ns ns'" "stack ns \<noteq> []" shows "forget (hd (stack ns)) = forget (hd (stack ns'))"
  using assms by (cases "stack ns"; cases "stack ns'") (auto simp: alike_def)

lemma alike_SeenOpenBrace: "alike ns ns' \<Longrightarrow> SeenOpenBrace ns = SeenOpenBrace ns'"
  using alike_top [of ns ns'] alike_Nil [of ns ns'] by (auto simp: SeenOpenBrace_def forget_iff)

lemma alike_push: "alike ns ns' \<Longrightarrow> forget b = forget c \<Longrightarrow> alike (push b ns) (push c ns')"
  by (simp add: alike_def push_def)

lemma alike_pop: "alike ns ns' \<Longrightarrow> alike (pop ns) (pop ns')"
  by (simp add: alike_def pop_def map_tl)

lemma alike_set_top: "alike ns ns' \<Longrightarrow> forget b = forget c \<Longrightarrow> alike (set_top b ns) (set_top c ns')"
  by (simp add: alike_def set_top_def map_tl)

lemma alike_previous: "alike ns ns' \<Longrightarrow> alike (ns\<lparr>previous_stack_top := t\<rparr>) (ns'\<lparr>previous_stack_top := t'\<rparr>)"
  by (simp add: alike_def)

text \<open>Every step of \<open>Update\<close> maps such states to such states.\<close>

lemma alike_UpdatePreprocessor:
  assumes "alike ns ns'" shows "alike (UpdatePreprocessor line ns) (UpdatePreprocessor line ns')"
proof (cases "pp_stack ns")
  case Nil
  with assms have "pp_stack ns' = []" by (simp add: alike_def)
  with Nil assms show ?thesis
    by (simp add: alike_def UpdatePreprocessor_def Let_def PreprocessorInfo_init_def pp_shape_def)
next
  case (Cons p ps)
  with assms obtain q qs where q: "pp_stack ns' = q # qs" "pp_shape p = pp_shape q" "map pp_shape ps = map pp_shape qs"
    by (auto simp: alike_def)
  with Cons assms show ?thesis
    by (auto simp add: alike_def UpdatePreprocessor_def Let_def PreprocessorInfo_init_def pp_shape_def)
qed

lemma alike_update_top_asm: "alike ns ns' \<Longrightarrow> alike (update_top_asm line ns) (update_top_asm line ns')"
  using alike_Nil [of ns ns'] alike_top [of ns ns']
  by (auto simp: update_top_asm_def update_asm_def Let_def forget_iff intro!: alike_set_top)

lemma alike_namespace_loop:
  "alike ns ns' \<Longrightarrow> matched (\<lambda>(l, a) (l', b). l = l' \<and> alike a b)
     (namespace_loop linenum line ns) (namespace_loop linenum line ns')"
proof (induction linenum line ns arbitrary: ns' rule: namespace_loop.induct)
  case (1 linenum line ns)
  show ?case
  proof (cases "Match rx_namespace_decl line")
    case None
    with 1(3) show ?thesis by (simp add: namespace_loop.simps)
  next
    case (Some m)
    show ?thesis
    proof (cases "grp m 2")
      case None
      with Some show ?thesis by (simp add: namespace_loop.simps)
    next
      case (Some line1)
      have n: "forget (NamespaceInfo_init i nm linenum) = forget (NamespaceInfo_init j nm linenum)"
        "forget (NamespaceInfo_init i nm linenum\<lparr>seen_open_brace := True\<rparr>) =
         forget (NamespaceInfo_init j nm linenum\<lparr>seen_open_brace := True\<rparr>)" for i j nm
        by (simp_all add: forget_iff NamespaceInfo_init_def BlockInfo_init_def)
      note IH = 1(1,2) [OF \<open>Match rx_namespace_decl line = Some m\<close> Some refl]
      show ?thesis
        using IH alike_push [OF 1(3) n(1)] alike_push [OF 1(3) n(2)] \<open>Match rx_namespace_decl line = Some m\<close> Some
        by (subst (1 2) namespace_loop.simps) (simp add: Let_def split: option.split)
    qed
  qed
qed

lemma ClassInfo_init_alike:
  "matched (\<lambda>b c. forget b = forget c) (ClassInfo_init i name cs cl linenum) (ClassInfo_init j name cs cl linenum)"
  by (auto simp: ClassInfo_init_def forget_iff BlockInfo_init_def intro!: matched_same)

lemma alike_class_step:
  assumes "alike ns ns'"
  shows "matched (\<lambda>(l, a) (l', b). l = l' \<and> alike a b) (class_step cl linenum line ns) (class_step cl linenum line ns')"
proof -
  have "open_parentheses (hd (stack ns)) = open_parentheses (hd (stack ns'))" if "stack ns \<noteq> []"
    using alike_top [OF assms that] by (simp add: forget_iff)
  with assms alike_Nil [OF assms] show ?thesis
    by (auto simp: class_step_def split: option.split
        intro!: matched_same matched_bind [OF ClassInfo_init_alike] alike_push)
qed

lemma alike_begin_step:
  assumes "alike ns ns'"
  shows "matched alike (begin_step cl linenum ns) (begin_step cl linenum ns')"
proof -
  have "matched (\<lambda>b c. forget b = forget c) (CheckBegin cl linenum b) (CheckBegin cl linenum c)"
    if "forget b = forget c" for b c
    using that by (auto simp: CheckBegin_def forget_iff intro!: matched_same split: block_kind.split)
  moreover have "forget (hd (stack ns)) = forget (hd (stack ns'))" if "\<not> SeenOpenBrace ns"
    using that by (intro alike_top [OF assms]) (simp add: SeenOpenBrace_def)
  ultimately show ?thesis
    using assms alike_SeenOpenBrace [OF assms]
    by (auto simp: begin_step_def intro!: matched_bind alike_set_top)
qed

context error_handler
begin

text \<open>Two runs of the same handler from states that satisfy the invariant of the sink.\<close>

abbreviation both :: "lint \<Rightarrow> lint \<Rightarrow> bool" where
  "both s s' \<equiv> I s \<and> I s'"

lemma matched_lands: "lands I m \<Longrightarrow> lands I m' \<Longrightarrow> matched both m m'"
  by (auto simp: lands_def)

lemma matched_error:
  "known_category category \<Longrightarrow> 0 \<le> confidence \<Longrightarrow> confidence \<le> 5 \<Longrightarrow> both s s' \<Longrightarrow>
   matched both (error filename linenum category confidence message s) (error filename linenum category confidence message s')"
  by (intro matched_lands error_lands) simp_all

lemma matched_whenever:
  "both s s' \<Longrightarrow> (c \<Longrightarrow> matched both (a s) (a s')) \<Longrightarrow> matched both (whenever c a s) (whenever c a s')"
  by (simp add: whenever_def)

lemma matched_disallow_loop:
  "both s s' \<Longrightarrow> matched both (disallow_loop error filename cl name is seen s) (disallow_loop error filename cl name is seen s')"
  by (induction "is" arbitrary: seen)
    (auto split: option.split intro!: matched_same matched_whenever matched_error)

lemma matched_CheckEnd:
  assumes "both s s'" "forget b = forget c"
  shows "matched both (CheckEnd error filename cl linenum b s) (CheckEnd error filename cl linenum c s')"
proof -
  from assms(2) have f: "starting_linenum b = starting_linenum c" "kind b = kind c" by (simp_all add: forget_iff)
  have "matched both (Class_CheckEnd error filename cl linenum b k s) (Class_CheckEnd error filename cl linenum c k s')" for k
    unfolding Class_CheckEnd_def f
    by (rule matched_bind [OF matched_disallow_loop [OF assms(1)]])
      (auto split: option.split intro!: matched_same matched_whenever matched_error)
  moreover have "matched both (Namespace_CheckEnd error filename cl linenum b n s) (Namespace_CheckEnd error filename cl linenum c n s')" for n
    unfolding Namespace_CheckEnd_def f
    using assms(1) by (auto intro!: matched_same matched_whenever matched_error)
  ultimately show ?thesis using assms(1) by (simp add: CheckEnd_def f split: block_kind.split)
qed

definition both_alike :: "NestingState \<times> lint \<Rightarrow> NestingState \<times> lint \<Rightarrow> bool" where
  "both_alike p q \<longleftrightarrow> alike (fst p) (fst q) \<and> both (snd p) (snd q)"

lemma both_alike_simps [simp]: "both_alike (a, s) (b, s') \<longleftrightarrow> alike a b \<and> both s s'"
  by (simp add: both_alike_def)

lemma matched_access_step:
  assumes "alike ns ns'" "both s s'"
  shows "matched both_alike (access_step error filename linenum line ns s) (access_step error filename linenum line ns' s')"
proof (cases "stack ns")
  case Nil
  with assms alike_Nil [OF assms(1)] show ?thesis by (simp add: access_step_def)
next
  case (Cons b bs)
  with alike_Nil [OF assms(1)] obtain c cs where c: "stack ns' = c # cs" by (cases "stack ns'") auto
  with alike_top [OF assms(1)] Cons have f: "forget b = forget c" by simp
  then have k: "kind b = kind c" "forget (b\<lparr>kind := x\<rparr>) = forget (c\<lparr>kind := x\<rparr>)" for x by (simp_all add: forget_iff)
  have "matched both_alike
      (rbind (whenever d (error filename l ''whitespace/indent'' 3 msg) s) (\<lambda>t. Inr (set_top (b\<lparr>kind := x\<rparr>) ns, t)))
      (rbind (whenever d (error filename l ''whitespace/indent'' 3 msg) s') (\<lambda>t. Inr (set_top (c\<lparr>kind := x\<rparr>) ns', t)))"
    for d l msg x
    by (rule matched_bind [where Q = both])
      (use assms k(2) in \<open>auto intro!: matched_whenever matched_error alike_set_top\<close>)
  with Cons c k(1) assms show ?thesis
    by (auto simp: access_step_def Let_def split: block_kind.split option.split)
qed

lemma matched_token_step:
  assumes "alike ns ns'" "both s s'"
  shows "matched both_alike (token_step error filename cl linenum line token ns s)
     (token_step error filename cl linenum line token ns' s')"
proof -
  have top: "forget (hd (stack ns)) = forget (hd (stack ns'))" if "stack ns \<noteq> []"
    using alike_top [OF assms(1) that] .
  then have mark: "forget (hd (stack ns)\<lparr>seen_open_brace := True\<rparr>) = forget (hd (stack ns')\<lparr>seen_open_brace := True\<rparr>)"
    if "\<not> SeenOpenBrace ns" using that by (simp add: forget_iff SeenOpenBrace_def)
  have new: "forget (ExternCInfo_init i l) = forget (ExternCInfo_init j l)"
    "forget (BlockInfo_init i l True) = forget (BlockInfo_init j l True)"
    "forget (BlockInfo_init i l True\<lparr>inline_asm := a\<rparr>) = forget (BlockInfo_init j l True\<lparr>inline_asm := a\<rparr>)" for i j l a
    by (simp_all add: forget_iff ExternCInfo_init_def BlockInfo_init_def)
  have close: "matched both_alike
      (rbind (CheckEnd error filename cl linenum (hd (stack ns)) s) (\<lambda>t. Inr (pop ns, t)))
      (rbind (CheckEnd error filename cl linenum (hd (stack ns')) s') (\<lambda>t. Inr (pop ns', t)))" if "stack ns \<noteq> []"
    by (rule matched_bind [OF matched_CheckEnd [OF assms(2) top [OF that]]]) (use assms in \<open>auto intro!: alike_pop\<close>)
  show ?thesis
    using assms alike_Nil [OF assms(1)] alike_SeenOpenBrace [OF assms(1)] mark new close
    by (auto simp: token_step_def intro!: alike_push alike_pop alike_set_top)
qed

lemma matched_braces_loop:
  "alike ns ns' \<Longrightarrow> both s s' \<Longrightarrow>
   matched both_alike (braces_loop error filename cl linenum line ns s) (braces_loop error filename cl linenum line ns' s')"
proof (induction "length line" arbitrary: line ns ns' s s' rule: less_induct)
  case less
  show ?case
  proof (cases "Match rx_brace_token line")
    case None
    with less.prems show ?thesis by (subst (1 2) braces_loop.simps) simp
  next
    case (Some m)
    then have "length (group m 2) < length line" by (auto dest!: brace_token_parts)
    then have "matched both_alike
        (rbind (token_step error filename cl linenum line (group m 1) ns s)
           (\<lambda>p. braces_loop error filename cl linenum (group m 2) (fst p) (snd p)))
        (rbind (token_step error filename cl linenum line (group m 1) ns' s')
           (\<lambda>p. braces_loop error filename cl linenum (group m 2) (fst p) (snd p)))"
      by (intro matched_bind [OF matched_token_step [OF less.prems]] less.hyps) (auto simp: both_alike_def)
    then show ?thesis using Some by (subst (1 2) braces_loop.simps) simp
  qed
qed

lemma matched_Update:
  assumes "alike (UpdatePreprocessor (elided cl ! linenum) ns) (UpdatePreprocessor (elided cl ! linenum) ns')" "both s s'"
  shows "matched both_alike (Update error filename cl linenum ns s) (Update error filename cl linenum ns' s')"
proof -
  have pp: "alike (UpdatePreprocessor line (ns\<lparr>previous_stack_top := t\<rparr>)) (UpdatePreprocessor line (ns'\<lparr>previous_stack_top := t'\<rparr>))"
    if "py_idx (elided cl) (int linenum) = Inr line" for line t t'
  proof -
    from that have line: "line = elided cl ! linenum" by (auto simp: py_idx_def split: if_splits)
    have "alike (x\<lparr>previous_stack_top := u\<rparr>) x" for x u by (simp add: alike_def)
    from alike_UpdatePreprocessor [OF this, of line] show ?thesis
      using assms(1) unfolding line by (meson alike_sym alike_trans)
  qed
  show ?thesis
    unfolding Update_def Let_def
    apply (rule matched_same)
    apply (rule matched_bind [OF alike_namespace_loop])
     apply (intro alike_update_top_asm pp, assumption)
    apply clarsimp
    apply (rule matched_bind [OF alike_class_step], assumption)
    apply clarsimp
    apply (rule matched_bind [OF alike_begin_step], assumption)
    apply (rule matched_bind [OF matched_access_step], assumption, rule assms(2))
    apply (auto simp: both_alike_def intro!: matched_braces_loop)
    done
qed

end

subsection \<open>The preprocessor stack changes in \<open>UpdatePreprocessor\<close> only\<close>

lemma pp_stack_simps [simp]:
  "pp_stack (push b ns) = pp_stack ns" "pp_stack (pop ns) = pp_stack ns" "pp_stack (set_top b ns) = pp_stack ns"
  "pp_stack (update_top_asm line ns) = pp_stack ns"
  by (simp_all add: push_def pop_def set_top_def update_top_asm_def)

lemma namespace_loop_pp: "namespace_loop linenum line ns = Inr (l, ns') \<Longrightarrow> pp_stack ns' = pp_stack ns"
proof (induction linenum line ns rule: namespace_loop.induct)
  case (1 linenum line ns)
  from 1(3) 1(1,2) show ?case
    by (subst (asm) namespace_loop.simps) (fastforce simp: Let_def split: option.splits)
qed

lemma class_step_pp: "class_step cl linenum line ns = Inr (l, ns') \<Longrightarrow> pp_stack ns' = pp_stack ns"
  by (auto simp: class_step_def rbind_Inr_iff split: option.splits if_splits)

lemma begin_step_pp: "begin_step cl linenum ns = Inr ns' \<Longrightarrow> pp_stack ns' = pp_stack ns"
  by (auto simp: begin_step_def rbind_Inr_iff split: if_splits)

lemma access_step_pp: "access_step error filename linenum line ns s = Inr (ns', s') \<Longrightarrow> pp_stack ns' = pp_stack ns"
  by (auto simp: access_step_def Let_def rbind_Inr_iff split: list.splits block_kind.splits option.splits)

lemma token_step_pp:
  "token_step error filename cl linenum line token ns s = Inr (ns', s') \<Longrightarrow> pp_stack ns' = pp_stack ns"
  by (auto simp: token_step_def rbind_Inr_iff split: if_splits)

lemma braces_loop_pp:
  "braces_loop error filename cl linenum line ns s = Inr (ns', s') \<Longrightarrow> pp_stack ns' = pp_stack ns"
proof (induction "length line" arbitrary: line ns s rule: less_induct)
  case less
  show ?case
  proof (cases "Match rx_brace_token line")
    case None
    with less.prems show ?thesis by (simp add: braces_loop.simps)
  next
    case (Some m)
    then have "length (group m 2) < length line" by (auto dest!: brace_token_parts)
    with less Some show ?thesis
      by (subst (asm) (2) braces_loop.simps) (fastforce simp: rbind_Inr_iff dest: token_step_pp)
  qed
qed

lemma UpdatePreprocessor_previous [simp]:
  "pp_stack (UpdatePreprocessor line (ns\<lparr>previous_stack_top := t\<rparr>)) = pp_stack (UpdatePreprocessor line ns)"
  by (simp add: UpdatePreprocessor_def Let_def split: list.split)

lemma Update_pp:
  "Update error filename cl linenum ns s = Inr (ns', s') \<Longrightarrow>
   pp_stack ns' = pp_stack (UpdatePreprocessor (elided cl ! linenum) ns)"
  by (auto simp: Update_def Let_def rbind_Inr_iff py_idx_def split: prod.splits if_splits
      dest!: braces_loop_pp access_step_pp begin_step_pp class_step_pp namespace_loop_pp)

subsection \<open>Branches that do not count\<close>

datatype directive = PP_If | PP_Else | PP_Endif | No_Conditional

definition directive_of :: "string \<Rightarrow> directive" where
  "directive_of line =
     (if Matches rx_pp_if line then PP_If
      else if Matches rx_pp_else line then PP_Else
      else if Matches rx_pp_endif line then PP_Endif
      else No_Conditional)"

text \<open>
  \<open>balanced_lines ls is kept\<close>: the conditionals among the lines with the numbers \<open>is\<close> are properly
  nested, and \<open>kept\<close> are the lines outside of \<open>#else\<close> and \<open>#elif\<close> branches.  \<open>branches ls is\<close>: the lines
  are a sequence of such branches.
\<close>

inductive balanced_lines :: "string list \<Rightarrow> nat list \<Rightarrow> nat list \<Rightarrow> bool"
  and branches :: "string list \<Rightarrow> nat list \<Rightarrow> bool" for ls where
  none: "balanced_lines ls [] []"
| line: "directive_of (ls ! i) = No_Conditional \<Longrightarrow> balanced_lines ls is kept \<Longrightarrow>
    balanced_lines ls (i # is) (i # kept)"
| conditional: "directive_of (ls ! i) = PP_If \<Longrightarrow> balanced_lines ls body kept_body \<Longrightarrow> branches ls rest \<Longrightarrow>
    directive_of (ls ! e) = PP_Endif \<Longrightarrow> balanced_lines ls is kept \<Longrightarrow>
    balanced_lines ls (i # body @ rest @ e # is) (i # kept_body @ e # kept)"
| no_branch: "branches ls []"
| branch: "directive_of (ls ! i) = PP_Else \<Longrightarrow> balanced_lines ls body kept_body \<Longrightarrow> branches ls rest \<Longrightarrow>
    branches ls (i # body @ rest)"

definition nesting_run ::
  "error_fn \<Rightarrow> string \<Rightarrow> CleansedLines \<Rightarrow> nat list \<Rightarrow> NestingState \<times> lint \<Rightarrow> (NestingState \<times> lint) res" where
  "nesting_run error filename cl = rfold (\<lambda>linenum (ns, s). Update error filename cl linenum ns s)"

lemma nesting_run_simps [simp]:
  "nesting_run error filename cl [] p = Inr p"
  "nesting_run error filename cl (i # is) p =
     rbind (Update error filename cl i (fst p) (snd p)) (nesting_run error filename cl is)"
  "nesting_run error filename cl (is @ js) p =
     rbind (nesting_run error filename cl is p) (nesting_run error filename cl js)"
  by (simp_all add: nesting_run_def rfold_append split: prod.split)

lemma UpdatePreprocessor_directive:
  "directive_of line = No_Conditional \<Longrightarrow> UpdatePreprocessor line ns = ns"
  "directive_of line = PP_If \<Longrightarrow>
     pp_stack (UpdatePreprocessor line ns) = PreprocessorInfo_init (deepcopy (next_id ns) (stack ns)) # pp_stack ns"
  "directive_of line = PP_Else \<Longrightarrow> pp_stack ns = p # ps \<Longrightarrow>
     \<exists>q. pp_stack (UpdatePreprocessor line ns) = q # ps \<and> seen_else q \<and> stack_before_if q = stack_before_if p \<and>
       map forget (stack_before_else q) = map forget (if seen_else p then stack_before_else p else stack ns)"
  "directive_of line = PP_Endif \<Longrightarrow> pp_stack ns = p # ps \<Longrightarrow>
     UpdatePreprocessor line ns = ns\<lparr>stack := (if seen_else p then stack_before_else p else stack ns), pp_stack := ps\<rparr>"
  by (simp_all add: directive_of_def UpdatePreprocessor_def Let_def split: if_splits)

context error_handler
begin

definition fit :: "CleansedLines \<Rightarrow> NestingState \<times> lint \<Rightarrow> bool" where
  "fit cl p \<longleftrightarrow> nesting_ok (num_lines cl) (fst p) \<and> I (snd p)"

lemma fit_Update:
  assumes "lines_ok cl" "length (raw_lines cl) = num_lines cl" "i < num_lines cl" "fit cl p"
  obtains q where "Update error filename cl i (fst p) (snd p) = Inr q" "fit cl q"
    "pp_stack (fst q) = pp_stack (UpdatePreprocessor (elided cl ! i) (fst p))"
proof -
  from Update_lands [OF assms(1-3) assms(3)] assms(4)
  have "lands (\<lambda>(ns', s'). nesting_ok (num_lines cl) ns' \<and> I s') (Update error filename cl i (fst p) (snd p))"
    by (simp add: fit_def)
  then obtain ns' s' where "Update error filename cl i (fst p) (snd p) = Inr (ns', s')"
    "nesting_ok (num_lines cl) ns'" "I s'" by (auto simp: lands_def)
  with Update_pp [OF this(1)] show ?thesis by (intro that [of "(ns', s')"]) (auto simp: fit_def)
qed

lemma fit_Update_both:
  assumes "lines_ok cl" "length (raw_lines cl) = num_lines cl" "i < num_lines cl" "fit cl p" "fit cl p'"
    and "alike (UpdatePreprocessor (elided cl ! i) (fst p)) (UpdatePreprocessor (elided cl ! i) (fst p'))"
  obtains q q' where
    "Update error filename cl i (fst p) (snd p) = Inr q" "fit cl q"
    "pp_stack (fst q) = pp_stack (UpdatePreprocessor (elided cl ! i) (fst p))"
    "Update error filename cl i (fst p') (snd p') = Inr q'" "fit cl q'"
    "pp_stack (fst q') = pp_stack (UpdatePreprocessor (elided cl ! i) (fst p'))"
    "alike (fst q) (fst q')"
proof -
  from fit_Update [OF assms(1-4)] obtain q where q: "Update error filename cl i (fst p) (snd p) = Inr q" "fit cl q"
    "pp_stack (fst q) = pp_stack (UpdatePreprocessor (elided cl ! i) (fst p))" .
  from fit_Update [OF assms(1-3,5)] obtain q' where q': "Update error filename cl i (fst p') (snd p') = Inr q'" "fit cl q'"
    "pp_stack (fst q') = pp_stack (UpdatePreprocessor (elided cl ! i) (fst p'))" .
  have "both (snd p) (snd p')" using assms(4,5) by (simp add: fit_def)
  from matched_Update [OF assms(6) this, of filename] q(1) q'(1) have "alike (fst q) (fst q')"
    by (simp add: both_alike_def)
  with q q' that show ?thesis by blast
qed

text \<open>\<open>after_branches p q\<close>: the entry of the conditional after some of its \<open>#else\<close> branches.\<close>

definition after_branches :: "nat list \<Rightarrow> NestingState \<Rightarrow> PreprocessorInfo \<Rightarrow> PreprocessorInfo \<Rightarrow> bool" where
  "after_branches is ns p q \<longleftrightarrow>
     (if is = [] then q = p
      else seen_else q \<and>
        map forget (stack_before_else q) = map forget (if seen_else p then stack_before_else p else stack ns))"

lemma balanced_run:
  assumes "lines_ok cl" "length (raw_lines cl) = num_lines cl"
  shows "balanced_lines (elided cl) is kept \<Longrightarrow> \<forall>i \<in> set is. i < num_lines cl \<Longrightarrow> fit cl p \<Longrightarrow> fit cl p' \<Longrightarrow>
      alike (fst p) (fst p') \<Longrightarrow>
      (\<exists>q q'. nesting_run error filename cl is p = Inr q \<and> nesting_run error filename cl kept p' = Inr q' \<and>
         fit cl q \<and> fit cl q' \<and> alike (fst q) (fst q') \<and>
         pp_stack (fst q) = pp_stack (fst p) \<and> pp_stack (fst q') = pp_stack (fst p'))"
    and "branches (elided cl) is \<Longrightarrow> \<forall>i \<in> set is. i < num_lines cl \<Longrightarrow> fit cl p \<Longrightarrow>
      pp_stack (fst p) = e # es \<Longrightarrow>
      (\<exists>q e'. nesting_run error filename cl is p = Inr q \<and> fit cl q \<and> pp_stack (fst q) = e' # es \<and>
         after_branches is (fst p) e e' \<and> (is = [] \<longrightarrow> q = p))"
proof (induction "is" kept and "is" arbitrary: p p' and p e es rule: balanced_lines_branches.inducts)
  case none
  then show ?case by simp
next
  case (line i "is" kept)
  then have "alike (UpdatePreprocessor (elided cl ! i) (fst p)) (UpdatePreprocessor (elided cl ! i) (fst p'))"
    by (simp add: UpdatePreprocessor_directive)
  from fit_Update_both [OF assms _ line.prems(2,3) this] line.prems(1) obtain q q' where
    q: "Update error filename cl i (fst p) (snd p) = Inr q" "fit cl q"
    "pp_stack (fst q) = pp_stack (UpdatePreprocessor (elided cl ! i) (fst p))"
    "Update error filename cl i (fst p') (snd p') = Inr q'" "fit cl q'"
    "pp_stack (fst q') = pp_stack (UpdatePreprocessor (elided cl ! i) (fst p'))" "alike (fst q) (fst q')"
    by (metis list.set_intros(1))
  from line(3) [OF _ q(2,5,7)] line.prems(1) q line(1) show ?case
    by (fastforce simp: UpdatePreprocessor_directive)
next
  case (conditional i body kept_body rest e "is" kept)
  have lt: "i < num_lines cl" "\<forall>i \<in> set body. i < num_lines cl" "\<forall>i \<in> set rest. i < num_lines cl" "e < num_lines cl"
    "\<forall>i \<in> set is. i < num_lines cl" using conditional.prems(1) by auto
  from fit_Update_both [OF assms lt(1) conditional.prems(2,3) alike_UpdatePreprocessor [OF conditional.prems(4)]]
  obtain q q' where
    q: "Update error filename cl i (fst p) (snd p) = Inr q" "fit cl q"
    "pp_stack (fst q) = pp_stack (UpdatePreprocessor (elided cl ! i) (fst p))"
    "Update error filename cl i (fst p') (snd p') = Inr q'" "fit cl q'"
    "pp_stack (fst q') = pp_stack (UpdatePreprocessor (elided cl ! i) (fst p'))" "alike (fst q) (fst q')" .
  from conditional(3) [OF lt(2) q(2,5,7)] obtain r r' where
    r: "nesting_run error filename cl body q = Inr r" "nesting_run error filename cl kept_body q' = Inr r'"
      "fit cl r" "fit cl r'" "alike (fst r) (fst r')"
      "pp_stack (fst r) = pp_stack (fst q)" "pp_stack (fst r') = pp_stack (fst q')" by blast
  define d where "d = PreprocessorInfo_init (deepcopy (next_id (fst p)) (stack (fst p)))"
  define d' where "d' = PreprocessorInfo_init (deepcopy (next_id (fst p')) (stack (fst p')))"
  from r(6,7) q(3,6) have pp: "pp_stack (fst r) = d # pp_stack (fst p)" "pp_stack (fst r') = d' # pp_stack (fst p')"
    "\<not> seen_else d" "\<not> seen_else d'"
    using conditional(1) by (simp_all add: UpdatePreprocessor_directive d_def d'_def PreprocessorInfo_init_def)
  from conditional(5) [OF lt(3) r(3) pp(1)] obtain u e' where
    u: "nesting_run error filename cl rest r = Inr u" "fit cl u" "pp_stack (fst u) = e' # pp_stack (fst p)"
      "after_branches rest (fst r) d e'" "rest = [] \<longrightarrow> u = r" by blast
  have restored: "alike (UpdatePreprocessor (elided cl ! e) (fst u)) (UpdatePreprocessor (elided cl ! e) (fst r'))"
  proof -
    from r(5) have same: "map forget (stack (fst r)) = map forget (stack (fst r'))" by (simp add: alike_def)
    have ps: "map pp_shape (pp_stack (fst p)) = map pp_shape (pp_stack (fst p'))"
      using conditional.prems(4) by (simp add: alike_def)
    show ?thesis
      using u(3-5) pp same ps conditional(6)
      by (cases "rest = []") (auto simp: UpdatePreprocessor_directive alike_def after_branches_def)
  qed
  from fit_Update_both [OF assms lt(4) u(2) r(4) restored] obtain v v' where
    v: "Update error filename cl e (fst u) (snd u) = Inr v" "fit cl v"
    "pp_stack (fst v) = pp_stack (UpdatePreprocessor (elided cl ! e) (fst u))"
    "Update error filename cl e (fst r') (snd r') = Inr v'" "fit cl v'"
    "pp_stack (fst v') = pp_stack (UpdatePreprocessor (elided cl ! e) (fst r'))" "alike (fst v) (fst v')" .
  from v(3,6) u(3) pp(2) conditional(6)
  have "pp_stack (fst v) = pp_stack (fst p)" "pp_stack (fst v') = pp_stack (fst p')"
    by (simp_all add: UpdatePreprocessor_directive)
  with conditional(8) [OF lt(5) v(2,5,7)] q r u v show ?case by simp
next
  case no_branch
  then show ?case by (simp add: after_branches_def)
next
  case (branch i body kept_body rest)
  have lt: "i < num_lines cl" "\<forall>i \<in> set body. i < num_lines cl" "\<forall>i \<in> set rest. i < num_lines cl"
    using branch.prems(1) by auto
  from fit_Update [OF assms lt(1) branch.prems(2)] obtain q where
    q: "Update error filename cl i (fst p) (snd p) = Inr q" "fit cl q"
    "pp_stack (fst q) = pp_stack (UpdatePreprocessor (elided cl ! i) (fst p))" .
  from UpdatePreprocessor_directive(3) [OF branch(1) branch.prems(3)] obtain d where
    d: "pp_stack (fst q) = d # es" "seen_else d"
      "map forget (stack_before_else d) = map forget (if seen_else e then stack_before_else e else stack (fst p))"
    unfolding q(3) by blast
  from branch(3) [OF lt(2) q(2) q(2) alike_refl] obtain r where
    r: "nesting_run error filename cl body q = Inr r" "fit cl r" "pp_stack (fst r) = d # es" using d(1) by metis
  from branch(5) [OF lt(3) r(2,3)] obtain u e' where
    u: "nesting_run error filename cl rest r = Inr u" "fit cl u" "pp_stack (fst u) = e' # es"
      "after_branches rest (fst r) d e'" by blast
  from u(4) d have "after_branches (i # body @ rest) (fst p) e e'"
    by (auto simp: after_branches_def split: if_splits)
  with q r u show ?case by simp
qed

lemma rfold_map:
  assumes "\<And>x. f (g x) = f x" shows "rfold f (map g xs) = rfold f xs"
proof (induction xs)
  case (Cons x xs)
  then show ?case by (intro ext) (simp add: assms)
qed simp

lemma CheckCompletedBlocks_alike:
  assumes "alike ns ns'" shows "CheckCompletedBlocks error filename ns = CheckCompletedBlocks error filename ns'"
proof -
  have "check_completed error filename (forget b) = check_completed error filename b" for b
    by (simp add: check_completed_def forget_def split: block_kind.split)
  from rfold_map [of "check_completed error filename" forget, OF this] assms show ?thesis
    unfolding CheckCompletedBlocks_def alike_def by (metis rev_map)
qed

end

subsection \<open>The stack as a machine over characters\<close>

text \<open>
  What a line does to the flags \<open>seen_open_brace\<close> of the stack, one character at a time: an opening
  brace completes a pending head or opens a block, a semicolon or closing parenthesis drops a pending
  head, a closing brace drops the innermost block.
\<close>

definition brace_char :: "char \<Rightarrow> bool list \<Rightarrow> bool list" where
  "brace_char c flags =
     (if c = CHR ''{'' then (if flags \<noteq> [] \<and> \<not> hd flags then True # tl flags else True # flags)
      else if c = CHR '';'' \<or> c = CHR '')'' then (if flags \<noteq> [] \<and> \<not> hd flags then tl flags else flags)
      else if c = CHR ''}'' then tl flags
      else flags)"

definition brace_machine :: "string \<Rightarrow> bool list \<Rightarrow> bool list" where
  "brace_machine = fold brace_char"

definition head_flags :: "NestingState \<Rightarrow> bool list" where
  "head_flags ns = map seen_open_brace (stack ns)"

lemma brace_machine_plain: "list_all (\<lambda>c. c \<notin> set ''{;)}'') w \<Longrightarrow> brace_machine (w @ t) flags = brace_machine t flags"
  by (induction w) (simp_all add: brace_machine_def brace_char_def)

lemma brace_token_found:
  assumes "list_all (\<lambda>c. c \<notin> set ''{;)}'') w" "x \<in> set ''{;)}''" "newline \<notin> set rest"
  shows "\<exists>m. Match rx_brace_token (w @ x # rest) = Some m \<and> group m 1 = [x] \<and> group m 2 = rest"
proof -
  let ?st1 = "MS (rev w @ []) (x # rest) []"
  let ?st2 = "MS (rev [x] @ rev w @ []) rest [(1, [x])]"
  let ?st3 = "MS (rev rest @ x # rev w) [] [(2, rest), (1, [x])]"
  have 1: "leads Bol (MS [] (w @ x # rest) []) (MS [] (w @ x # rest) [])" by simp
  have 2: "leads (star (NSet [Ch ''{;)}''])) (MS [] (w @ x # rest) []) ?st1"
    using assms by (intro leads_star [OF mt_one_fun(2)]) (auto simp: list_all_iff)
  have "leads (Grp 1 (Set [Ch ''{;)}''])) (MS (rev w @ []) ([x] @ rest) []) ?st2"
    using assms(2) by (intro leads_Grp) simp
  then have 3: "leads (Grp 1 (Set [Ch ''{;)}''])) ?st1 ?st2" by simp
  have "leads (Grp 2 any0) (MS (x # rev w) (rest @ []) [(1, [x])]) ?st3"
    using assms(3) by (intro leads_Grp leads_star [OF mt_one_fun(3)]) (auto simp: list_all_iff)
  then have 4: "leads (Grp 2 any0) ?st2 ?st3" by simp
  have 5: "leads Eol ?st3 ?st3" by simp
  have "leads rx_brace_token (MS [] (w @ x # rest) []) ?st3"
    unfolding rx_brace_token_def
    by (rule leads_cats [OF 1 leads_cats [OF 2 leads_cats [OF 3 leads_cats [OF 4 leads_cats [OF 5 leads_cats_nil]]]]])
  from Match_leads [OF this] show ?thesis by (auto simp: grp_def)
qed

lemma head_flags_simps [simp]:
  "head_flags (push b ns) = seen_open_brace b # head_flags ns"
  "head_flags (pop ns) = tl (head_flags ns)"
  "head_flags (set_top b ns) = seen_open_brace b # tl (head_flags ns)"
  by (simp_all add: head_flags_def push_def pop_def set_top_def map_tl)

lemma head_flags_Nil: "stack ns = [] \<longleftrightarrow> head_flags ns = []"
  by (simp add: head_flags_def)

lemma SeenOpenBrace_flags: "SeenOpenBrace ns \<longleftrightarrow> \<not> (head_flags ns \<noteq> [] \<and> \<not> hd (head_flags ns))"
  by (cases "stack ns") (simp_all add: SeenOpenBrace_def head_flags_def)

lemma token_step_flags:
  "token_step error filename cl linenum line [c] ns s = Inr (ns', s') \<Longrightarrow> c \<in> set ''{;)}'' \<Longrightarrow>
   head_flags ns' = brace_char c (head_flags ns)"
  by (auto simp: token_step_def brace_char_def SeenOpenBrace_flags BlockInfo_init_def ExternCInfo_init_def rbind_Inr_iff
      head_flags_Nil split: if_splits)

lemma braces_loop_flags:
  "braces_loop error filename cl linenum line ns s = Inr (ns', s') \<Longrightarrow> newline \<notin> set line \<Longrightarrow>
   head_flags ns' = brace_machine line (head_flags ns)"
proof (induction "length line" arbitrary: line ns s rule: less_induct)
  case less
  let ?plain = "\<lambda>c. c \<notin> set ''{;)}''"
  define w where "w = takeWhile ?plain line"
  have w: "list_all ?plain w" by (auto simp: w_def list_all_iff dest: set_takeWhileD)
  show ?case
  proof (cases "dropWhile ?plain line")
    case Nil
    then have "line = w" by (metis w_def append_Nil2 takeWhile_dropWhile_id)
    have "Match rx_brace_token line = None"
    proof (cases "Match rx_brace_token line")
      case (Some m)
      from brace_token_parts [OF Some] obtain v x r t where "line = v @ x # r @ t" "x \<in> set ''{;)}''" by blast
      with w show ?thesis unfolding \<open>line = w\<close> by (simp add: list_all_iff)
    qed
    with less.prems(1) have "ns' = ns" by (subst (asm) braces_loop.simps) simp
    with brace_machine_plain [OF w, of "[]"] \<open>line = w\<close> show ?thesis by (simp add: brace_machine_def)
  next
    case (Cons x rest)
    have line: "line = w @ x # rest" using Cons by (metis w_def takeWhile_dropWhile_id)
    have x: "x \<in> set ''{;)}''" using hd_dropWhile [of ?plain line] unfolding Cons by simp
    have rest: "newline \<notin> set rest" using less.prems(2) line by simp
    from brace_token_found [OF w x rest] obtain m where
      m: "Match rx_brace_token line = Some m" "group m 1 = [x]" "group m 2 = rest" unfolding line by blast
    from less.prems(1) m obtain ns1 s1 where step: "token_step error filename cl linenum line [x] ns s = Inr (ns1, s1)"
      "braces_loop error filename cl linenum rest ns1 s1 = Inr (ns', s')"
      by (subst (asm) braces_loop.simps) (auto simp: rbind_Inr_iff)
    have "head_flags ns' = brace_machine rest (head_flags ns1)"
      by (rule less.hyps [OF _ step(2) rest]) (simp add: line)
    also have "\<dots> = brace_machine (x # rest) (head_flags ns)"
      using token_step_flags [OF step(1) x] by (simp add: brace_machine_def)
    finally show ?thesis unfolding line brace_machine_plain [OF w] .
  qed
qed

subsection \<open>Properties of the pass\<close>

lemma CleansedLines_init_ok:
  "CleansedLines_init ls = Inr cl \<Longrightarrow>
   lines_ok cl \<and> length (raw_lines cl) = num_lines cl \<and> num_lines cl = length ls \<and> raw_lines cl = ls"
  using CleansedLines_init_shape [of ls] by (simp add: lines_ok_def)

lemma sink_fit_init: "lint_ok s \<Longrightarrow> sink.fit cl (NestingState_init, s)"
  by (simp add: sink.fit_def nesting_ok_def NestingState_init_def)

text \<open>
  C22: over the lines of any file, \<open>Update\<close> on every line in order and then
  \<open>CheckCompletedBlocks\<close> raise nothing and keep the report state consistent; every block left on the
  stack began on a line of the file, and no two are the same object.
\<close>

theorem nesting_pass_total:
  assumes "CleansedLines_init ls = Inr cl" and "lint_ok s"
  shows "\<exists>ns s1 s2. nesting_run Error filename cl [0..<NumLines cl] (NestingState_init, s) = Inr (ns, s1) \<and>
     CheckCompletedBlocks Error filename ns s1 = Inr s2 \<and> lint_ok s2 \<and>
     (\<forall>b \<in> set (stack ns). starting_linenum b < length ls) \<and> distinct (map block_id (stack ns))"
proof -
  note ok = CleansedLines_init_ok [OF assms(1)]
  have "\<exists>q. nesting_run Error filename cl is p = Inr q \<and> sink.fit cl q"
    if "\<forall>i \<in> set is. i < num_lines cl" "sink.fit cl p" for "is" p
    using that
  proof (induction "is" arbitrary: p)
    case (Cons i "is")
    then have "i < num_lines cl" by simp
    from sink.fit_Update [OF _ _ this Cons.prems(2), of filename] ok obtain q where
      "Update Error filename cl i (fst p) (snd p) = Inr q" "sink.fit cl q" by metis
    with Cons show ?case by auto
  qed simp
  from this [of "[0..<NumLines cl]", OF _ sink_fit_init [OF assms(2)]] obtain ns s1 where
    q: "nesting_run Error filename cl [0..<NumLines cl] (NestingState_init, s) = Inr (ns, s1)" "sink.fit cl (ns, s1)"
    by (auto simp: NumLines_def)
  moreover from keepsD [OF sink.CheckCompletedBlocks_keeps, of s1 filename ns] q(2) obtain s2 where
    "CheckCompletedBlocks Error filename ns s1 = Inr s2" "lint_ok s2" by (auto simp: sink.fit_def)
  moreover from q(2) ok have "good_stack (length ls) (next_id ns) (stack ns)" by (simp add: sink.fit_def nesting_ok_def)
  ultimately show ?thesis by (auto simp: good_stack_def)
qed

definition guarded_file :: "string list" where
  "guarded_file = [''#ifdef A'', ''class B {'', ''#else'', ''class C {'', ''#endif'', ''};'']"

lemma guarded_file_lines: "\<exists>cl. CleansedLines_init guarded_file = Inr cl \<and> elided cl = guarded_file"
proof -
  have "(case CleansedLines_init guarded_file of Inr cl \<Rightarrow> elided cl | Inl _ \<Rightarrow> []) = guarded_file" by code_simp
  with CleansedLines_init_shape [of guarded_file] show ?thesis by (auto simp: lands_def)
qed

theorem nesting_pass_total_witness:
  "\<exists>cl ns s1 s2. CleansedLines_init guarded_file = Inr cl \<and>
     nesting_run Error ''a.cc'' cl [0..<NumLines cl] (NestingState_init, lint_init) = Inr (ns, s1) \<and>
     CheckCompletedBlocks Error ''a.cc'' ns s1 = Inr s2 \<and> lint_ok s2"
proof -
  from guarded_file_lines obtain cl where "CleansedLines_init guarded_file = Inr cl" by blast
  with nesting_pass_total [OF this lint_ok_init, of "''a.cc''"] show ?thesis by blast
qed

text \<open>
  C20: lines in \<open>#else\<close> and \<open>#elif\<close> branches do not affect the nesting
  stack.  When the conditionals of a file are properly nested, the pass over all lines ends with the
  same stack, up to the identity of the blocks, as the pass over the lines outside of those branches;
  it makes the same complaints about incomplete blocks, and no conditional is left open.
\<close>

theorem else_branches_ignored:
  assumes "CleansedLines_init ls = Inr cl" and "lint_ok s" and "lint_ok s'"
    and "balanced_lines (elided cl) [0..<NumLines cl] kept"
  shows "\<exists>ns s1 ns' s1'.
     nesting_run Error filename cl [0..<NumLines cl] (NestingState_init, s) = Inr (ns, s1) \<and>
     nesting_run Error filename cl kept (NestingState_init, s') = Inr (ns', s1') \<and>
     map forget (stack ns) = map forget (stack ns') \<and> pp_stack ns = [] \<and> pp_stack ns' = [] \<and>
     CheckCompletedBlocks Error filename ns = CheckCompletedBlocks Error filename ns'"
proof -
  from CleansedLines_init_ok [OF assms(1)] have ok: "lines_ok cl" "length (raw_lines cl) = num_lines cl" by simp_all
  have "\<forall>i \<in> set [0..<NumLines cl]. i < num_lines cl" by (simp add: NumLines_def)
  from sink.balanced_run(1) [where filename = filename, OF ok assms(4) this sink_fit_init [OF assms(2)] sink_fit_init [OF assms(3)]]
  obtain q q' where
    q: "nesting_run Error filename cl [0..<NumLines cl] (NestingState_init, s) = Inr q"
      "nesting_run Error filename cl kept (NestingState_init, s') = Inr q'" "alike (fst q) (fst q')"
      "pp_stack (fst q) = []" "pp_stack (fst q') = []" by (auto simp: NestingState_init_def)
  from q(1,2,4,5) q(3) [unfolded alike_def] sink.CheckCompletedBlocks_alike [OF q(3)] show ?thesis
    by (intro exI [of _ "fst q"] exI [of _ "snd q"] exI [of _ "fst q'"] exI [of _ "snd q'"]) simp
qed

theorem else_branches_ignored_witness:
  "\<exists>cl ns s1 ns' s1'. CleansedLines_init guarded_file = Inr cl \<and>
     nesting_run Error ''a.cc'' cl [0, 1, 2, 3, 4, 5] (NestingState_init, lint_init) = Inr (ns, s1) \<and>
     nesting_run Error ''a.cc'' cl [0, 1, 4, 5] (NestingState_init, lint_init) = Inr (ns', s1') \<and>
     map forget (stack ns) = map forget (stack ns')"
proof -
  from guarded_file_lines obtain cl where cl: "CleansedLines_init guarded_file = Inr cl" "elided cl = guarded_file"
    by blast
  have d: "map directive_of guarded_file = [PP_If, No_Conditional, PP_Else, No_Conditional, PP_Endif, No_Conditional]"
    by code_simp
  have d': "directive_of (guarded_file ! i) =
      [PP_If, No_Conditional, PP_Else, No_Conditional, PP_Endif, No_Conditional] ! i" if "i < 6" for i
  proof -
    from that have "directive_of (guarded_file ! i) = map directive_of guarded_file ! i"
      by (subst nth_map) (simp_all add: guarded_file_def)
    then show ?thesis unfolding d .
  qed
  have one: "balanced_lines guarded_file [i] [i]" if "i = 1 \<or> i = 3 \<or> i = 5" for i
    using that d' [of i] by (intro line none) auto
  have "branches guarded_file (2 # [3] @ [])"
    using d' [of 2] by (intro branch [OF _ one no_branch]) simp_all
  then have "balanced_lines guarded_file (0 # [1] @ [2, 3] @ 4 # [5]) (0 # [1] @ 4 # [5])"
    using d' [of 0] d' [of 4] by (intro conditional [OF _ one _ _ one]) simp_all
  moreover have "[0..<NumLines cl] = [0, 1, 2, 3, 4, 5]"
    using CleansedLines_init_ok [OF cl(1)] by (simp add: NumLines_def guarded_file_def upt_rec)
  ultimately show ?thesis
    using else_branches_ignored [OF cl(1) lint_ok_init lint_ok_init, of "[0, 1, 4, 5]" "''a.cc''"] cl by auto
qed

text \<open>
  C21: consuming the braces of a line never raises, and what it does to the
  stack is what the machine over the single characters of the line does to the flags.
\<close>

theorem braces_refine_machine:
  assumes "CleansedLines_init ls = Inr cl" and "linenum < length ls" and "newline \<notin> set line"
    and "nesting_ok linenum ns" and "lint_ok s"
  shows "\<exists>ns' s'. braces_loop Error filename cl linenum line ns s = Inr (ns', s') \<and>
     head_flags ns' = brace_machine line (head_flags ns) \<and> nesting_ok (linenum + 1) ns' \<and> lint_ok s'"
proof -
  note ok = CleansedLines_init_ok [OF assms(1)]
  have "nesting_ok (linenum + 1) ns" using assms(4) by (rule nesting_ok_mono) simp
  from sink.braces_loop_lands [OF _ _ _ _ this assms(5), of cl linenum filename line] ok assms(2)
  have "lands (\<lambda>(ns', s'). nesting_ok (linenum + 1) ns' \<and> lint_ok s') (braces_loop Error filename cl linenum line ns s)"
    by simp
  then obtain ns' s' where r: "braces_loop Error filename cl linenum line ns s = Inr (ns', s')"
    "nesting_ok (linenum + 1) ns'" "lint_ok s'" by (auto simp: lands_def)
  with braces_loop_flags [OF r(1) assms(3)] show ?thesis by blast
qed

theorem braces_refine_machine_witness:
  "\<exists>cl ns' s'. CleansedLines_init guarded_file = Inr cl \<and>
     braces_loop Error ''a.cc'' cl 0 ''if (x) { f(); while (y) {'' NestingState_init lint_init = Inr (ns', s') \<and>
     head_flags ns' = [True, True]"
proof -
  from guarded_file_lines obtain cl where cl: "CleansedLines_init guarded_file = Inr cl" by blast
  have "nesting_ok 0 NestingState_init" by (simp add: nesting_ok_def NestingState_init_def)
  from braces_refine_machine [OF cl _ _ this lint_ok_init, of "''if (x) { f(); while (y) {''" "''a.cc''"] cl
  show ?thesis by (auto simp: guarded_file_def brace_machine_def brace_char_def head_flags_def NestingState_init_def)
qed

end
