(* ===== verification/File_Checks.thy ===== *)
theory File_Checks
  imports Nesting
begin

section \<open>Checks of a whole file and simple checks of a line\<close>

text \<open>
  \<open>CheckForCopyright\<close>, \<open>CheckForBadCharacters\<close>, \<open>CheckForNewlineAtEOF\<close>,
  \<open>CheckForMultilineCommentsAndStrings\<close>, \<open>CheckPosixThreading\<close>, \<open>CheckVlogArguments\<close> and
  \<open>CheckInvalidIncrement\<close> of \<^verbatim>\<open>src/cpplint.py\<close>, and the checks of the indentation inside of
  namespaces.
\<close>

text \<open>Most checks start by fetching one line, and then only read it.\<close>

definition on_line :: "string list \<Rightarrow> nat \<Rightarrow> (string \<Rightarrow> action) \<Rightarrow> action" where
  "on_line lines linenum check s = rbind (py_idx lines (int linenum)) (\<lambda>line. check line s)"

lemma on_line_eq [simp]: "n < length lines \<Longrightarrow> on_line lines n check s = check (lines ! n) s"
  by (simp add: on_line_def)

lemma keeps_on_line [keeps_intros]:
  "n < length lines \<Longrightarrow> keeps I (check (lines ! n)) \<Longrightarrow> keeps I (on_line lines n check)"
  by (simp add: keeps_def)

text \<open>Checks that run one after the other, whatever the earlier ones found.\<close>

definition steps :: "('s \<Rightarrow> 's res) list \<Rightarrow> 's \<Rightarrow> 's res" where
  "steps = rfold (\<lambda>a. a)"

lemma steps_simps [simp, res_simps]:
  "steps [] = Inr"
  "steps (a # as) s = rbind (a s) (steps as)"
  by (simp_all add: steps_def)

lemma steps_append: "steps (as @ bs) s = rbind (steps as s) (steps bs)"
  by (simp add: steps_def rfold_append)

lemma steps_single: "steps [a] = a"
  by (rule ext) simp

lemma keeps_steps [keeps_intros]: "list_all (keeps I) as \<Longrightarrow> keeps I (steps as)"
  unfolding steps_def list_all_iff by (intro keeps_rfold) blast

lemma permits_steps: "list_all (permits E I) as \<Longrightarrow> permits E I (steps as)"
proof (induction as)
  case Nil
  then show ?case by (simp add: permits_def)
next
  case (Cons a as)
  have "steps (a # as) = andthen a (steps as)" by (simp add: andthen_def fun_eq_iff)
  with Cons show ?case by (simp add: permits_andthen)
qed

lemma permits_on_line: "n < length lines \<Longrightarrow> permits E I (check (lines ! n)) \<Longrightarrow> permits E I (on_line lines n check)"
  by (simp add: permits_def)

lemma keeps_let [keeps_intros]: "keeps I (f x) \<Longrightarrow> keeps I (let y = x in f y)"
  by simp

text \<open>The first of the given line numbers whose line satisfies \<open>P\<close>.\<close>

primrec find_line :: "(string \<Rightarrow> bool) \<Rightarrow> string list \<Rightarrow> nat list \<Rightarrow> nat option res" where
  "find_line P lines [] = Inr None"
| "find_line P lines (i # is) =
     rbind (py_idx lines (int i)) (\<lambda>line. if P line then Inr (Some i) else find_line P lines is)"

lemma find_line_eq:
  "\<forall>i \<in> set is. i < length lines \<Longrightarrow> find_line P lines is = Inr (List.find (\<lambda>i. P (lines ! i)) is)"
  by (induction "is") auto

lemma find_line_lands:
  "\<forall>i \<in> set is. i < length xs \<Longrightarrow> lands (\<lambda>r. \<forall>i. r = Some i \<longrightarrow> i \<in> set is \<and> P (xs ! i)) (find_line P xs is)"
  by (auto simp: find_line_eq find_Some_iff)

lemma rmap_idx: "\<forall>i \<in> set is. i < length xs \<Longrightarrow> rmap (\<lambda>i. py_idx xs (int i)) is = Inr (map ((!) xs) is)"
  by (induction "is") auto

subsection \<open>The whole file\<close>

text \<open>\<open>re.search(r'Copyright', line, re.I)\<close>\<close>

definition rx_copyright :: rx where
  "rx_copyright = cats [Set [Ch ''Cc''], Set [Ch ''Oo''], Set [Ch ''Pp''], Set [Ch ''Yy''], Set [Ch ''Rr''],
     Set [Ch ''Ii''], Set [Ch ''Gg''], Set [Ch ''Hh''], Set [Ch ''Tt'']]"

definition CheckForCopyright :: "string \<Rightarrow> string list \<Rightarrow> error_fn \<Rightarrow> action" where
  "CheckForCopyright filename lines error =
     whenever (\<not> list_ex (\<lambda>i. Searches rx_copyright (lines ! i)) [1..<min (length lines) 11])
       (error filename 0 ''legal/copyright'' 5
          (''No copyright message found.  You should have a line: '' @ [dquote] @
           ''Copyright [year] <Copyright Owner>'' @ [dquote]))"

text \<open>
  Lines are sequences of code points here: the replacement character U+FFFD is none of the
  characters of a HOL string.
\<close>

definition check_bad_line :: "error_fn \<Rightarrow> string \<Rightarrow> nat \<times> nat list \<Rightarrow> action" where
  "check_bad_line error filename x =
     andthen
       (whenever (0xFFFD \<in> set (snd x))
          (error filename (int (fst x)) ''readability/utf8'' 5
             ''Line contains invalid UTF-8 (or Unicode replacement character).''))
       (whenever (0 \<in> set (snd x))
          (error filename (int (fst x)) ''readability/nul'' 5 ''Line contains NUL byte.''))"

definition CheckForBadCharacters :: "string \<Rightarrow> nat list list \<Rightarrow> error_fn \<Rightarrow> action" where
  "CheckForBadCharacters filename lines error = rfold (check_bad_line error filename) (enumerate 0 lines)"

definition CheckForNewlineAtEOF :: "string \<Rightarrow> string list \<Rightarrow> error_fn \<Rightarrow> action" where
  "CheckForNewlineAtEOF filename lines error s =
     (let report = error filename (int (length lines) - 2) ''whitespace/ending_newline'' 5
            ''Could not find a newline character at the end of the file.'' s
      in if length lines < 3 then report
         else rbind (py_idx lines (-2)) (\<lambda>line. if line \<noteq> [] then report else Inr s))"

subsection \<open>One line\<close>

definition CheckForMultilineCommentsAndStrings ::
  "string \<Rightarrow> CleansedLines \<Rightarrow> nat \<Rightarrow> error_fn \<Rightarrow> action" where
  "CheckForMultilineCommentsAndStrings filename cl linenum error =
     on_line (elided cl) linenum (\<lambda>line0.
       let line = py_replace [backslash, backslash] [] line0 in
       andthen
         (whenever (py_count ''/*'' line > py_count ''*/'' line)
            (error filename (int linenum) ''readability/multiline_comment'' 5
               (''Complex multi-line /*...*/-style comment found. Lint may give bogus warnings.  '' @
                ''Consider replacing these with //-style comments, with #if 0...#endif, '' @
                ''or with more clearly structured multi-line comments.'')))
         (whenever ((int (py_count [dquote] line) - int (py_count [backslash, dquote] line)) mod 2 \<noteq> 0)
            (error filename (int linenum) ''readability/multiline_string'' 5
               (''Multi-line string ('' @ [dquote] @ ''...'' @ [dquote] @
                '') found.  This lint script doesn'' @ [squote] @
                ''t do well with such strings, and may give bogus warnings.  '' @
                ''Use C++11 raw strings or concatenation instead.''))))"

definition UNSAFE_FUNC_PREFIX :: rx where
  "UNSAFE_FUNC_PREFIX = alts [cats [Set [Ch ''-+*/=%^&|(<''], sp0], cats [Lit ''>'', sp1]]"

text \<open>The two shapes of the patterns in \<open>_THREADING_LIST\<close>: a call with and without arguments.\<close>

definition call_with_arguments :: "string \<Rightarrow> rx" where
  "call_with_arguments f = cats [UNSAFE_FUNC_PREFIX, Lit f, plus1 (NSet [Ch '')'']), Lit '')'']"

definition call_without_arguments :: "string \<Rightarrow> rx" where
  "call_without_arguments f = cats [UNSAFE_FUNC_PREFIX, Lit f, Lit '')'']"

definition THREADING_LIST :: "(string \<times> string \<times> rx) list" where
  "THREADING_LIST =
    [(''asctime('', ''asctime_r('', call_with_arguments ''asctime(''),
     (''ctime('', ''ctime_r('', call_with_arguments ''ctime(''),
     (''getgrgid('', ''getgrgid_r('', call_with_arguments ''getgrgid(''),
     (''getgrnam('', ''getgrnam_r('', call_with_arguments ''getgrnam(''),
     (''getlogin('', ''getlogin_r('', call_without_arguments ''getlogin(''),
     (''getpwnam('', ''getpwnam_r('', call_with_arguments ''getpwnam(''),
     (''getpwuid('', ''getpwuid_r('', call_with_arguments ''getpwuid(''),
     (''gmtime('', ''gmtime_r('', call_with_arguments ''gmtime(''),
     (''localtime('', ''localtime_r('', call_with_arguments ''localtime(''),
     (''rand('', ''rand_r('', call_without_arguments ''rand(''),
     (''strtok('', ''strtok_r('', call_with_arguments ''strtok(''),
     (''ttyname('', ''ttyname_r('', call_with_arguments ''ttyname('')]"

definition CheckPosixThreading :: "string \<Rightarrow> CleansedLines \<Rightarrow> nat \<Rightarrow> error_fn \<Rightarrow> action" where
  "CheckPosixThreading filename cl linenum error =
     on_line (elided cl) linenum (\<lambda>line.
       rfold (\<lambda>(single_thread_func, multithread_safe_func, pattern).
         whenever (Searches pattern line)
           (error filename (int linenum) ''runtime/threadsafe_fn'' 2
              (''Consider using '' @ multithread_safe_func @ ''...) instead of '' @ single_thread_func @
               ''...) for improved thread safety.''))) THREADING_LIST)"

definition rx_vlog :: rx where
  "rx_vlog = cats [WordB, Lit ''VLOG('',
     Grp 1 (alts [Lit ''INFO'', Lit ''ERROR'', Lit ''WARNING'', Lit ''DFATAL'', Lit ''FATAL'']), Lit '')'']"

definition CheckVlogArguments :: "string \<Rightarrow> CleansedLines \<Rightarrow> nat \<Rightarrow> error_fn \<Rightarrow> action" where
  "CheckVlogArguments filename cl linenum error =
     on_line (elided cl) linenum (\<lambda>line.
       whenever (Searches rx_vlog line)
         (error filename (int linenum) ''runtime/vlog'' 5
            (''VLOG() should be used with numeric verbosity level.  '' @
             ''Use LOG() if you want symbolic severity levels.'')))"

definition RE_PATTERN_INVALID_INCREMENT :: rx where
  "RE_PATTERN_INVALID_INCREMENT =
     cats [Bol, sp0, Lit ''*'', wd1, Grp 1 (alts [Lit ''++'', Lit ''--'']), Lit '';'']"

definition CheckInvalidIncrement :: "string \<Rightarrow> CleansedLines \<Rightarrow> nat \<Rightarrow> error_fn \<Rightarrow> action" where
  "CheckInvalidIncrement filename cl linenum error =
     on_line (elided cl) linenum (\<lambda>line.
       whenever (Matches RE_PATTERN_INVALID_INCREMENT line)
         (error filename (int linenum) ''runtime/invalid_increment'' 5
            ''Changing pointer instead of value (or unused value of operator*).''))"

subsection \<open>Indentation inside of namespaces\<close>

definition rx_define :: rx where
  "rx_define = cats [Bol, Lit ''#define'']"

definition rx_backslash_end :: rx where
  "rx_backslash_end = cats [Lit [backslash], Eol]"

definition IsMacroDefinition :: "string list \<Rightarrow> nat \<Rightarrow> bool res" where
  "IsMacroDefinition lines linenum =
     rbind (py_idx lines (int linenum)) (\<lambda>line.
       if Searches rx_define line then Inr True
       else if linenum > 0 then
         rbind (py_idx lines (int linenum - 1)) (\<lambda>line_above. Inr (Searches rx_backslash_end line_above))
       else Inr False)"

definition rx_forward_class :: rx where
  "rx_forward_class = cats [Bol, sp0, star (Grp 1 (cats [WordB, Lit ''template'', WordB])), any0, Lit ''class'',
     sp1, wd1, Lit '';'', sp0, Eol]"

definition IsForwardClassDeclaration :: "string list \<Rightarrow> nat \<Rightarrow> bool res" where
  "IsForwardClassDeclaration lines linenum =
     rbind (py_idx lines (int linenum)) (\<lambda>line. Inr (Matches rx_forward_class line))"

definition IsBlockInNameSpace :: "NestingState \<Rightarrow> bool \<Rightarrow> bool" where
  "IsBlockInNameSpace ns is_forward_declaration =
     (if is_forward_declaration then length (stack ns) \<ge> 1 \<and> is_namespace (hd (stack ns))
      else length (stack ns) > 1 \<and> check_namespace_indentation (hd (stack ns)) \<and> is_namespace (stack ns ! 1))"

definition ShouldCheckNamespaceIndentation :: "NestingState \<Rightarrow> bool \<Rightarrow> string list \<Rightarrow> nat \<Rightarrow> bool res" where
  "ShouldCheckNamespaceIndentation ns is_namespace_indent_item lines linenum =
     rbind (IsForwardClassDeclaration lines linenum) (\<lambda>is_forward_declaration.
       if \<not> (is_namespace_indent_item \<or> is_forward_declaration) then Inr False
       else rbind (IsMacroDefinition lines linenum) (\<lambda>is_macro.
         if is_macro then Inr False else Inr (IsBlockInNameSpace ns is_forward_declaration)))"

definition rx_indented :: rx where
  "rx_indented = cats [Bol, sp1]"

definition CheckItemIndentationInNamespace :: "string \<Rightarrow> string list \<Rightarrow> nat \<Rightarrow> error_fn \<Rightarrow> action" where
  "CheckItemIndentationInNamespace filename lines linenum error =
     on_line lines linenum (\<lambda>line.
       whenever (Matches rx_indented line)
         (error filename (int linenum) ''runtime/indentation_namespace'' 4 ''Do not indent within a namespace''))"

text \<open>The comparison of two blocks in the source is one of identities.\<close>

definition is_namespace_indent_item :: "NestingState \<Rightarrow> bool" where
  "is_namespace_indent_item ns \<longleftrightarrow>
     length (stack ns) > 1 \<and> check_namespace_indentation (hd (stack ns)) \<and>
     (case previous_stack_top ns of
        None \<Rightarrow> False
      | Some b \<Rightarrow> is_namespace b \<and> block_id b = block_id (stack ns ! 1))"

definition CheckForNamespaceIndentation ::
  "string \<Rightarrow> NestingState \<Rightarrow> CleansedLines \<Rightarrow> nat \<Rightarrow> error_fn \<Rightarrow> action" where
  "CheckForNamespaceIndentation filename ns cl line error s =
     rbind (ShouldCheckNamespaceIndentation ns (is_namespace_indent_item ns) (elided cl) line) (\<lambda>should.
       whenever should (CheckItemIndentationInNamespace filename (elided cl) line error) s)"

subsection \<open>Every check returns\<close>

context error_handler
begin

lemma CheckForCopyright_keeps: "keeps I (CheckForCopyright filename lines error)"
  unfolding CheckForCopyright_def by (intro keeps_whenever error_keeps) simp_all

lemma CheckForBadCharacters_keeps: "keeps I (CheckForBadCharacters filename lines error)"
  unfolding CheckForBadCharacters_def check_bad_line_def by (auto intro!: keeps_intros error_keeps)

lemma CheckForNewlineAtEOF_keeps: "keeps I (CheckForNewlineAtEOF filename lines error)"
proof (rule keepsI)
  fix s assume "I s"
  then have e: "lands I (error filename l ''whitespace/ending_newline'' 5 msg s)" for l msg by (intro error_lands) simp_all
  show "lands I (CheckForNewlineAtEOF filename lines error s)"
  proof (cases "length lines < 3")
    case False
    then have "returns (py_idx lines (-2))" by (intro py_idx_returns) auto
    with False e \<open>I s\<close> show ?thesis by (auto simp: CheckForNewlineAtEOF_def returns_def)
  qed (simp add: CheckForNewlineAtEOF_def e)
qed

lemma line_checks_keep:
  assumes "lines_ok cl" "linenum < num_lines cl"
  shows "keeps I (CheckForMultilineCommentsAndStrings filename cl linenum error)"
    and "keeps I (CheckPosixThreading filename cl linenum error)"
    and "keeps I (CheckVlogArguments filename cl linenum error)"
    and "keeps I (CheckInvalidIncrement filename cl linenum error)"
  using assms
  unfolding CheckForMultilineCommentsAndStrings_def CheckPosixThreading_def CheckVlogArguments_def
    CheckInvalidIncrement_def lines_ok_def
  by (auto intro!: keeps_intros error_keeps split: prod.split)

lemma CheckForNamespaceIndentation_keeps:
  assumes "lines_ok cl" "linenum < num_lines cl"
  shows "keeps I (CheckForNamespaceIndentation filename ns cl linenum error)"
proof (rule keepsI)
  fix s assume "I s"
  have ix: "py_idx (elided cl) (int linenum) = Inr (elided cl ! linenum)"
    using assms by (intro lines_ok_idx) (simp_all add: NumLines_def)
  have "\<exists>line. py_idx (elided cl) (int linenum - 1) = Inr line" if "linenum > 0"
    using py_idx_returns [of "elided cl" "int linenum - 1"] assms that by (auto simp: lines_ok_def returns_def)
  then have "\<exists>b. IsMacroDefinition (elided cl) linenum = Inr b" by (auto simp: IsMacroDefinition_def ix)
  then have "\<exists>c. ShouldCheckNamespaceIndentation ns b (elided cl) linenum = Inr c" for b
    by (auto simp: ShouldCheckNamespaceIndentation_def IsForwardClassDeclaration_def ix)
  then obtain c where "ShouldCheckNamespaceIndentation ns (is_namespace_indent_item ns) (elided cl) linenum = Inr c"
    by blast
  moreover have "lands I (CheckItemIndentationInNamespace filename (elided cl) linenum error s)"
    unfolding CheckItemIndentationInNamespace_def on_line_def ix rbind_simps
    using \<open>I s\<close> by (auto intro!: lands_whenever error_lands)
  ultimately show "lands I (CheckForNamespaceIndentation filename ns cl linenum error s)"
    using \<open>I s\<close> by (auto simp: CheckForNamespaceIndentation_def intro!: lands_whenever)
qed

end

subsection \<open>The end of the file\<close>

lemma split_one_empty: "py_split_on d t = [[]] \<Longrightarrow> t = []"
  using py_split_on_join [of d t] by simp

lemma last_split_empty: "last (py_split_on d t) = [] \<longleftrightarrow> t = [] \<or> last t = d"
  by (induction t) (auto split: list.splits dest: split_one_empty)

text \<open>
  For the lines of a file with the content \<open>t\<close>, between the two markers that the driver adds,
  \<open>CheckForNewlineAtEOF\<close> makes its one report, on the last line of the text, exactly when \<open>t\<close> is not empty
  and does not end in a newline.
\<close>

lemma newline_at_eof_iff:
  "CheckForNewlineAtEOF filename (first_marker # py_split_on newline t @ [last_marker]) error s =
     (if t = [] \<or> last t = newline then Inr s
      else error filename (int (length (py_split_on newline t))) ''whitespace/ending_newline'' 5
             ''Could not find a newline character at the end of the file.'' s)"
proof -
  let ?ls = "py_split_on newline t"
  have "py_idx (first_marker # ?ls @ [last_marker]) (-2) = Inr (last ?ls)"
    by (cases ?ls rule: rev_cases) (auto simp: py_idx_def nth_append)
  moreover have "\<not> length (first_marker # ?ls @ [last_marker]) < 3" by (cases ?ls) auto
  ultimately show ?thesis
    using last_split_empty [of newline t] by (auto simp: CheckForNewlineAtEOF_def Let_def)
qed

end
