(* ===== verification/Header_Guard.thy ===== *)
theory Header_Guard
  imports File_Checks File_Info
begin

section \<open>Header guards\<close>

text \<open>
  \<open>GetHeaderGuardCPPVariable\<close> and \<open>CheckForHeaderGuard\<close> of \<^verbatim>\<open>src/cpplint.py\<close>.  The global
  \<open>_root\<close> is used as a part of a regular expression: a root without special characters matches
  itself, and for any other one the argument \<open>compile\<close> is Python's parser of patterns.
\<close>

subsection \<open>The macro\<close>

definition rx_flymake_file :: rx where
  "rx_flymake_file = cats [Lit ''_flymake.h'', Eol]"

definition rx_flymake_dir :: rx where
  "rx_flymake_dir = cats [Lit ''/.flymake/'', Grp 1 (star (NSet [Ch ''/''])), Eol]"

definition rx_not_alnum :: rx where
  "rx_not_alnum = NSet [Rg (CHR ''a'') (CHR ''z''), Rg (CHR ''A'') (CHR ''Z''), Rg (CHR ''0'') (CHR ''9'')]"

definition plain_pattern :: "string \<Rightarrow> bool" where
  "plain_pattern r \<longleftrightarrow> list_all (\<lambda>c. c \<notin> set (backslash # ''.^$*+?{}[]|()'')) r"

definition root_pattern :: "(string \<Rightarrow> rx) \<Rightarrow> string \<Rightarrow> rx" where
  "root_pattern compile r = (if plain_pattern r then cats [Bol, Lit (r @ ''/'')] else compile (''^'' @ r @ ''/''))"

definition GetHeaderGuardCPPVariable :: "env \<Rightarrow> (string \<Rightarrow> rx) \<Rightarrow> string \<Rightarrow> lint \<Rightarrow> string res" where
  "GetHeaderGuardCPPVariable env compile filename0 s =
     (let filename1 = ReplaceAll rx_flymake_file ''.h'' filename0;
          filename2 = sub_with rx_flymake_dir (\<lambda>m. ''/'' @ group m 1) filename1;
          filename = py_replace ''c++'' ''cpp'' (py_replace ''C++'' ''cpp'' filename2)
      in rbind (RepositoryName env filename) (\<lambda>path.
           let file_path_from_root = 
                 (case root s of
                    None \<Rightarrow> path
                  | Some r \<Rightarrow> if r \<noteq> [] then ReplaceAll (root_pattern compile r) [] path else path)
           in Inr (ascii_upper (ReplaceAll rx_not_alnum ''_'' file_path_from_root) @ ''_'')))"

subsection \<open>The scan for the guard\<close>

record guard_scan =
  ifndef :: string
  ifndef_linenum :: nat
  guard_define :: string
  endif :: string
  endif_linenum :: nat

definition guard_init :: guard_scan where
  "guard_init = \<lparr>ifndef = [], ifndef_linenum = 0, guard_define = [], endif = [], endif_linenum = 0\<rparr>"

definition guard_line :: "nat \<times> string \<Rightarrow> guard_scan \<Rightarrow> guard_scan" where
  "guard_line x g0 =
     (let (linenum, line) = x; linesplit = py_split line;
          g1 = (if length linesplit \<ge> 2 \<and> ifndef g0 = [] \<and> linesplit ! 0 = ''#ifndef''
                then g0\<lparr>ifndef := linesplit ! 1, ifndef_linenum := linenum\<rparr> else g0);
          g2 = (if length linesplit \<ge> 2 \<and> guard_define g1 = [] \<and> linesplit ! 0 = ''#define''
                then g1\<lparr>guard_define := linesplit ! 1\<rparr> else g1)
      in if py_startswith line ''#endif'' then g2\<lparr>endif := line, endif_linenum := linenum\<rparr> else g2)"

definition scan_guard :: "string list \<Rightarrow> guard_scan" where
  "scan_guard lines = fold guard_line (enumerate 0 lines) guard_init"

subsection \<open>The check\<close>

definition rx_nolint_guard :: rx where
  "rx_nolint_guard = cats [Lit ''//'', sp0, Lit ''NOLINT(build/header_guard)'']"

definition rx_endif_slashes :: "string \<Rightarrow> rx" where
  "rx_endif_slashes cppvar = cats [Lit ''#endif'', sp0, Lit ''//'', sp0, Lit cppvar, opt (Grp 1 (Lit ''_'')), WordB]"

definition rx_endif_stars :: "string \<Rightarrow> rx" where
  "rx_endif_stars cppvar =
     cats [Lit ''#endif'', sp0, Lit ''/*'', sp0, Lit cppvar, opt (Grp 1 (Lit ''_'')), sp0, Lit ''*/'']"

definition rx_slashes_outside_quotes :: rx where
  "rx_slashes_outside_quotes =
     cats [Bol, star (alts [cats [Lit [squote], star (alts [Lit ''.'', NSet [Ch [squote]]]), Lit [squote]],
                            cats [Lit [dquote], star (alts [Lit ''.'', NSet [Ch [dquote]]]), Lit [dquote]],
                            NSet [Ch [squote, dquote]]]), Lit ''//'']"

definition no_single_line_comments :: "string list \<Rightarrow> bool" where
  "no_single_line_comments lines \<longleftrightarrow>
     \<not> list_ex (\<lambda>i. Matches rx_slashes_outside_quotes (lines ! i)) [1..<length lines - 1]"

text \<open>The message about the comment on the last \<open>#endif\<close>, with the comment between two markers.\<close>

definition endif_message :: "string \<Rightarrow> string \<Rightarrow> string \<Rightarrow> string" where
  "endif_message opening_text cppvar after =
     ''#endif line should be '' @ [dquote] @ ''#endif  '' @ opening_text @ cppvar @ after @ [dquote]"

definition check_endif :: "error_fn \<Rightarrow> string \<Rightarrow> string list \<Rightarrow> string \<Rightarrow> guard_scan \<Rightarrow> action" where
  "check_endif error filename lines cppvar g =
     (let report = (\<lambda>confidence opening_text after.
            error filename (int (endif_linenum g)) ''build/header_guard'' confidence (endif_message opening_text cppvar after))
      in case Match (rx_endif_slashes cppvar) (endif g) of
           Some m \<Rightarrow> whenever (grp m 1 = Some ''_'') (report 0 ''// '' [])
         | None \<Rightarrow>
             (case (if no_single_line_comments lines then Match (rx_endif_stars cppvar) (endif g) else None) of
                Some m \<Rightarrow> whenever (grp m 1 = Some ''_'') (report 0 ''/* '' '' */'')
              | None \<Rightarrow> report 5 ''// '' []))"

definition check_guard_name :: "error_fn \<Rightarrow> string \<Rightarrow> string list \<Rightarrow> string \<Rightarrow> guard_scan \<Rightarrow> action" where
  "check_guard_name error filename lines cppvar g s =
     (if ifndef g \<noteq> cppvar then
        rbind (py_idx lines (int (ifndef_linenum g))) (\<lambda>line.
        rbind (ParseNolintSuppressions error filename line (int (ifndef_linenum g)) s)
          (error filename (int (ifndef_linenum g)) ''build/header_guard'' (if ifndef g \<noteq> cppvar @ ''_'' then 5 else 0)
             (''#ifndef header guard has wrong style, please use: '' @ cppvar)))
      else Inr s)"

definition CheckForHeaderGuard :: "env \<Rightarrow> (string \<Rightarrow> rx) \<Rightarrow> string \<Rightarrow> CleansedLines \<Rightarrow> error_fn \<Rightarrow> action" where
  "CheckForHeaderGuard env compile filename cl error s =
     (let lines = lines_without_raw_strings cl in
      if list_ex (Searches rx_nolint_guard) lines then Inr s
      else rbind (GetHeaderGuardCPPVariable env compile filename s) (\<lambda>cppvar.
        let g = scan_guard lines in
        if ifndef g = [] \<or> guard_define g = [] \<or> ifndef g \<noteq> guard_define g then
          error filename 0 ''build/header_guard'' 5
            (''No #ifndef header guard found, suggested CPP variable is: '' @ cppvar) s
        else
          rbind (check_guard_name error filename lines cppvar g s) (\<lambda>s.
          rbind (py_idx lines (int (endif_linenum g))) (\<lambda>line.
          rbind (ParseNolintSuppressions error filename line (int (endif_linenum g)) s)
            (check_endif error filename lines cppvar g)))))"

subsection \<open>The scan finds the first guard and the last \<open>#endif\<close>\<close>

definition first_argument :: "string \<Rightarrow> string list \<Rightarrow> string" where
  "first_argument directive lines =
     (case List.find (\<lambda>ws. length ws \<ge> 2 \<and> ws ! 0 = directive) (map py_split lines) of
        None \<Rightarrow> [] | Some ws \<Rightarrow> ws ! 1)"

definition last_endif :: "string list \<Rightarrow> string" where
  "last_endif lines = (case filter (\<lambda>l. py_startswith l ''#endif'') lines of [] \<Rightarrow> [] | ls \<Rightarrow> last ls)"

lemma second_word_nonempty: "length (py_split line) \<ge> 2 \<Longrightarrow> py_split line ! 1 \<noteq> []"
  using py_split_nonempty_words [of "py_split line ! 1" line] by auto

lemma guard_line_fields:
  "ifndef (guard_line (n, l) g) = (if ifndef g = [] then first_argument ''#ifndef'' [l] else ifndef g)"
  "guard_define (guard_line (n, l) g) = (if guard_define g = [] then first_argument ''#define'' [l] else guard_define g)"
  "endif (guard_line (n, l) g) = (if py_startswith l ''#endif'' then l else endif g)"
  by (auto simp: guard_line_def Let_def first_argument_def)

lemma first_argument_Cons:
  "first_argument d (l # ls) = (if first_argument d [l] = [] then first_argument d ls else first_argument d [l])"
  using second_word_nonempty [of l] by (auto simp: first_argument_def)

lemma scan_fold_fields:
  "ifndef (fold guard_line (enumerate k lines) g) = (if ifndef g = [] then first_argument ''#ifndef'' lines else ifndef g)"
  "guard_define (fold guard_line (enumerate k lines) g) =
     (if guard_define g = [] then first_argument ''#define'' lines else guard_define g)"
  "endif (fold guard_line (enumerate k lines) g) =
     (case filter (\<lambda>l. py_startswith l ''#endif'') lines of [] \<Rightarrow> endif g | ls \<Rightarrow> last ls)"
proof (induction lines arbitrary: k g)
  case Nil
  { case 1 show ?case by (simp add: first_argument_def) }
  { case 2 show ?case by (simp add: first_argument_def) }
  { case 3 show ?case by simp }
next
  case (Cons l ls)
  { case 1 show ?case by (simp add: Cons.IH guard_line_fields first_argument_Cons [of _ l ls]) }
  { case 2 show ?case by (simp add: Cons.IH guard_line_fields first_argument_Cons [of _ l ls]) }
  { case 3 show ?case by (auto simp: Cons.IH guard_line_fields split: list.splits) }
qed

lemma scan_guard_fields [simp]:
  "ifndef (scan_guard lines) = first_argument ''#ifndef'' lines"
  "guard_define (scan_guard lines) = first_argument ''#define'' lines"
  "endif (scan_guard lines) = last_endif lines"
  by (simp_all add: scan_guard_def scan_fold_fields guard_init_def last_endif_def split: list.split)

lemma scan_lines_below:
  assumes "\<forall>x \<in> set xs. fst x < n" "ifndef_linenum g < n" "endif_linenum g < n"
  shows "ifndef_linenum (fold guard_line xs g) < n \<and> endif_linenum (fold guard_line xs g) < n"
  using assms
proof (induction xs arbitrary: g)
  case (Cons x xs)
  then have "ifndef_linenum (guard_line x g) < n" "endif_linenum (guard_line x g) < n"
    by (auto simp: guard_line_def Let_def split: prod.split)
  with Cons show ?case by simp
qed simp

lemma scan_guard_lines:
  assumes "lines \<noteq> []"
  shows "ifndef_linenum (scan_guard lines) < length lines" "endif_linenum (scan_guard lines) < length lines"
  using scan_lines_below [of "enumerate 0 lines" "length lines" guard_init] assms
  by (auto simp: scan_guard_def guard_init_def in_set_enumerate_eq)

subsection \<open>Every check returns\<close>

context suppressing_handler
begin

lemma Nolint_lands: "I s \<Longrightarrow> lands I (ParseNolintSuppressions error filename line n s)"
  by (rule keeps_lands [OF ParseNolintSuppressions_keeps])

lemma check_endif_lands: "I s \<Longrightarrow> lands I (check_endif error filename lines cppvar g s)"
  by (auto simp: check_endif_def Let_def split: option.split intro!: lands_whenever error_lands)

lemma check_guard_name_lands:
  assumes "ifndef_linenum g < length lines" "I s"
  shows "lands I (check_guard_name error filename lines cppvar g s)"
proof -
  have "lands I (rbind (ParseNolintSuppressions error filename line n s)
      (error filename n ''build/header_guard'' (if c then 5 else 0) msg))" for line n c msg
    by (rule lands_bind [OF Nolint_lands [OF assms(2)]]) (auto intro!: error_lands)
  with assms show ?thesis by (simp add: check_guard_name_def)
qed

lemma CheckForHeaderGuard_lands:
  assumes "\<And>f. returns (RepositoryName env f)" "I s"
  shows "lands I (CheckForHeaderGuard env compile filename cl error s)"
proof -
  let ?lines = "lines_without_raw_strings cl" and ?g = "scan_guard (lines_without_raw_strings cl)"
  have "\<exists>v. GetHeaderGuardCPPVariable env compile filename s = Inr v"
    using assms(1) by (auto simp: GetHeaderGuardCPPVariable_def Let_def returns_def rbind_Inr_iff)
  then obtain v where v: "GetHeaderGuardCPPVariable env compile filename s = Inr v" ..
  show ?thesis
  proof (cases "first_argument ''#ifndef'' ?lines = []")
    case True
    with v assms(2) show ?thesis by (auto simp: CheckForHeaderGuard_def Let_def intro!: error_lands)
  next
    case False
    then have "?lines \<noteq> []" by (auto simp: first_argument_def)
    note below = scan_guard_lines [OF this]
    have "lands I (rbind (check_guard_name error filename ?lines v ?g s) (\<lambda>s.
          rbind (py_idx ?lines (int (endif_linenum ?g))) (\<lambda>line.
          rbind (ParseNolintSuppressions error filename line (int (endif_linenum ?g)) s)
            (check_endif error filename ?lines v ?g))))"
      by (rule lands_bind [OF check_guard_name_lands [OF below(1) assms(2)]])
        (auto simp: below(2) intro!: lands_bind [OF Nolint_lands] check_endif_lands)
    with v assms(2) show ?thesis by (auto simp: CheckForHeaderGuard_def Let_def intro!: error_lands)
  qed
qed

end

subsection \<open>Properties\<close>

definition macro_char :: "char \<Rightarrow> bool" where
  "macro_char c \<longleftrightarrow> char_between CHR ''A'' CHR ''Z'' c \<or> char_between CHR ''0'' CHR ''9'' c \<or> c = CHR ''_''"

lemma macro_char_word: "macro_char c \<Longrightarrow> word_char c"
  by (auto simp: macro_char_def word_char_def)

lemma upper_macro_char:
  "\<not> cset [Rg (CHR ''a'') (CHR ''z''), Rg (CHR ''A'') (CHR ''Z''), Rg (CHR ''0'') (CHR ''9'')] c \<or>
   macro_char (ascii_upper_char c)"
proof (cases "char_between CHR ''a'' CHR ''z'' c")
  case True
  have k: "ord CHR ''a'' = 97" "ord CHR ''z'' = 122" "ord CHR ''A'' = 65" "ord CHR ''Z'' = 90"
    by (simp_all add: ord_def)
  from True have o: "97 \<le> ord c" "ord c \<le> 122" by (simp_all add: char_between_def k)
  then have "ord (char_of (ord c - 32)) = ord c - 32" "65 \<le> ord c - 32" "ord c - 32 \<le> 90"
    by (simp_all add: ord_def)
  with o True show ?thesis by (simp add: ascii_upper_char_def macro_char_def char_between_def k)
next
  case False
  then show ?thesis by (auto simp: ascii_upper_char_def macro_char_def cset_def)
qed

lemma guard_variable_shape:
  assumes "GetHeaderGuardCPPVariable env compile filename s = Inr v"
  shows "\<exists>w. v = w @ ''_'' \<and> list_all macro_char w"
proof -
  have "mt rx_not_alnum = mone (\<lambda>x. \<not> cset [Rg (CHR ''a'') (CHR ''z''), Rg (CHR ''A'') (CHR ''Z''), Rg (CHR ''0'') (CHR ''9'')] x)"
    by (simp add: rx_not_alnum_def)
  note R = ReplaceAll_one [OF this, of "CHR ''_''"]
  have "macro_char (ascii_upper_char CHR ''_'')" by code_simp
  then have "list_all macro_char (ascii_upper (ReplaceAll rx_not_alnum ''_'' p))" for p
    using upper_macro_char by (auto simp: R ascii_upper_def list_all_iff)
  with assms show ?thesis by (auto simp: GetHeaderGuardCPPVariable_def Let_def rbind_Inr_iff)
qed

text \<open>
  C32: whatever the path of the file, the macro that is asked for is a
  name of capital letters, digits and underscores, with an underscore at its end.
\<close>

theorem header_guard_macro_valid:
  assumes "GetHeaderGuardCPPVariable env compile filename s = Inr v"
  shows "v \<noteq> [] \<and> last v = CHR ''_'' \<and> list_all macro_char v"
  using guard_variable_shape [OF assms] by (auto simp: macro_char_def)

theorem header_guard_macro_valid_witness:
  "GetHeaderGuardCPPVariable git_tree Lit ''c++/x-y.h'' lint_init = Inr ''_R_A_CPP_X_Y_H_'' \<and> list_all macro_char ''_R_A_CPP_X_Y_H_''"
proof -
  have "GetHeaderGuardCPPVariable git_tree Lit ''c++/x-y.h'' lint_init = Inr ''_R_A_CPP_X_Y_H_''" by code_simp
  with header_guard_macro_valid [OF this] show ?thesis by blast
qed

lemma leads_opt_absent: "mt r st = [] \<Longrightarrow> leads (opt r) st st"
  by (simp add: leads_def)

lemma guard_comment_matches:
  assumes "v = w @ ''_''" "list_all macro_char v"
  shows "\<exists>m. Match (rx_endif_slashes v) (''#endif  // '' @ v) = Some m \<and> grp m 1 = None"
proof -
  let ?p1 = "rev ''#endif''" and ?p2 = "rev ''#endif  ''" and ?p3 = "rev ''#endif  //''" and ?p4 = "rev ''#endif  // ''"
  let ?fin = "MS (rev v @ ?p4) [] []"
  have hd: "\<not> ascii_space (hd v)" "v \<noteq> []"
    using assms not_ascii_space_word [OF macro_char_word] by (cases w; auto)+
  have 1: "leads (Lit ''#endif'') (MS [] (''#endif  // '' @ v) []) (MS ?p1 (''  // '' @ v) [])"
    using leads_Lit [of "''#endif''" "[]" "''  // '' @ v" "[]"] by simp
  have 2: "leads sp0 (MS ?p1 (''  // '' @ v) []) (MS ?p2 (''// '' @ v) [])"
    using leads_star [OF mt_one_fun(1), of "[Sp]" "''  ''" "''// '' @ v" ?p1 "[]"] by (simp add: ascii_space_def)
  have 3: "leads (Lit ''//'') (MS ?p2 (''// '' @ v) []) (MS ?p3 ('' '' @ v) [])"
    using leads_Lit [of "''//''" ?p2 "'' '' @ v" "[]"] by simp
  have 4: "leads sp0 (MS ?p3 ('' '' @ v) []) (MS ?p4 v [])"
    using leads_star [OF mt_one_fun(1), of "[Sp]" "'' ''" v ?p3 "[]"] hd by (simp add: ascii_space_def)
  have 5: "leads (Lit v) (MS ?p4 v []) ?fin"
    using leads_Lit [of v ?p4 "[]" "[]"] by simp
  have 6: "leads (opt (Grp 1 (Lit ''_''))) ?fin ?fin" by (rule leads_opt_absent) simp
  have 7: "leads WordB ?fin ?fin"
    using assms(1) by (simp add: leads_def at_word_boundary_def word_char_def)
  have "leads (rx_endif_slashes v) (MS [] (''#endif  // '' @ v) []) ?fin"
    unfolding rx_endif_slashes_def
    by (rule leads_cats [OF 1 leads_cats [OF 2 leads_cats [OF 3 leads_cats [OF 4 leads_cats [OF 5
          leads_cats [OF 6 leads_cats [OF 7 leads_cats_nil]]]]]]])
  from Match_leads [OF this] show ?thesis by (auto simp: grp_def)
qed


definition guarded_header :: "string list" where
  "guarded_header = [''#ifndef _R_A_X_H_'', ''#define _R_A_X_H_'', ''int x;'', ''#endif'']"


end
