(* ===== verification/Check_Macros.thy ===== *)
theory Check_Macros
  imports File_Checks
begin

section \<open>Comparisons in check macros, and alternative tokens\<close>

text \<open>
  \<open>FindCheckMacro\<close>, \<open>CheckCheck\<close> and \<open>CheckAltTokens\<close> of \<^verbatim>\<open>src/cpplint.py\<close>.  The loop that
  takes the condition of a check macro apart is the function \<open>split_operator\<close>.
\<close>

subsection \<open>The macro\<close>

definition rx_check_macro :: "string \<Rightarrow> rx" where
  "rx_check_macro macro = cats [Bol, Grp 1 (cats [any0, WordB, Lit macro, sp0]), Lit ''('']"

primrec find_macro_in :: "string \<Rightarrow> string list \<Rightarrow> (string \<times> nat) option" where
  "find_macro_in line [] = None"
| "find_macro_in line (macro # macros) =
     (if py_find macro line \<noteq> None then
        case Match (rx_check_macro macro) line of
          None \<Rightarrow> find_macro_in line macros
        | Some matched \<Rightarrow> Some (macro, length (group matched 1))
      else find_macro_in line macros)"

text \<open>None stands for \<^verbatim>\<open>(None, -1)\<close>.\<close>

definition FindCheckMacro :: "string \<Rightarrow> (string \<times> nat) option" where
  "FindCheckMacro line = find_macro_in line CHECK_MACROS"

lemma find_macro_in_Some:
  "find_macro_in line macros = Some (macro, p) \<Longrightarrow> macro \<in> set macros \<and> p < length line \<and> line ! p = CHR ''(''"
proof (induction macros)
  case (Cons x xs)
  show ?case
  proof (cases "py_find x line \<noteq> None \<and> Match (rx_check_macro x) line \<noteq> None")
    case True
    then obtain m where m: "Match (rx_check_macro x) line = Some m" by blast
    from Match_layout [OF m [unfolded rx_check_macro_def]] obtain w t where
      "line = w @ ''('' @ t" "m_caps m = [(1, w)]" by (auto simp: list_all2_Cons1)
    with Cons.prems True m show ?thesis by (auto simp: grp_def)
  next
    case False
    with Cons show ?thesis by (auto split: if_splits)
  qed
qed simp

subsection \<open>Taking a condition apart\<close>

definition NON_RELATIONAL :: "string list" where
  "NON_RELATIONAL = [''<<'', ''<<='', ''>>'', ''>>='', ''->*'', ''->'']"

definition RELATIONAL :: "string list" where
  "RELATIONAL = [''=='', ''!='', ''>='', ''>'', ''<='', ''<'']"

definition rx_check_operator :: rx where
  "rx_check_operator = alts [Lit ''<<'', Lit ''<<='', Lit ''>>'', Lit ''>>='', Lit ''->*'', Lit ''->'', Lit ''&&'', Lit ''||'',
     Lit ''=='', Lit ''!='', Lit ''>='', Lit ''>'', Lit ''<='', Lit ''<'', Lit ''('']"

definition rx_check_token :: rx where
  "rx_check_token = cats [Bol, sp0, Grp 1 rx_check_operator, Grp 2 any0, Eol]"

definition rx_check_operand :: rx where
  "rx_check_operand = cats [Bol, Grp 1 (plus1 (NSet [Ch ''-=!<>()&|''])), Grp 2 any0, Eol]"

definition rx_check_char :: rx where
  "rx_check_char = cats [Bol, Grp 1 (cats [sp0, Set [NSp]]), Grp 2 any0, Eol]"

lemma check_operator_tokens:
  "consumes rx_check_operator w \<longleftrightarrow>
     w \<in> set NON_RELATIONAL \<or> w = ''&&'' \<or> w = ''||'' \<or> w \<in> set RELATIONAL \<or> w = ''(''"
  by (simp add: rx_check_operator_def NON_RELATIONAL_def RELATIONAL_def)

lemma check_operator_capfree [simp]: "capfree rx_check_operator"
  by (simp add: rx_check_operator_def)

text \<open>What a match of one of the three patterns leaves of the text: all but white space and a final newline.\<close>

lemma check_token_parts:
  assumes "Match rx_check_token e = Some m"
  shows "\<exists>w t. e = w @ group m 1 @ group m 2 @ t \<and> list_all ascii_space w \<and> (t = [] \<or> t = [newline]) \<and>
     consumes rx_check_operator (group m 1)"
proof -
  have "Match (cats ([Bol, sp0, Grp 1 rx_check_operator, Grp 2 any0] @ [Eol])) e = Some m"
    using assms by (simp add: rx_check_token_def)
  from Match_layout_Eol [OF this] obtain ws t where
    ws: "list_all2 consumes [Bol, sp0, Grp 1 rx_check_operator, Grp 2 any0] ws" "e = concat ws @ t"
      "m_caps m = caps_of [Bol, sp0, Grp 1 rx_check_operator, Grp 2 any0] ws" "t = [] \<or> t = [newline]" by auto
  from ws(1) obtain w tok rest where
    "ws = [[], w, tok, rest]" "list_all ascii_space w" "consumes rx_check_operator tok" by (auto simp: list_all2_Cons1)
  with ws(2-4) show ?thesis by (intro exI [of _ w] exI [of _ t]) (simp add: grp_def)
qed

lemma check_operand_parts:
  assumes "Match rx_check_operand e = Some m"
  shows "\<exists>t. e = group m 1 @ group m 2 @ t \<and> (t = [] \<or> t = [newline]) \<and> group m 1 \<noteq> []"
proof -
  have "Match (cats ([Bol, Grp 1 (plus1 (NSet [Ch ''-=!<>()&|''])), Grp 2 any0] @ [Eol])) e = Some m"
    using assms by (simp add: rx_check_operand_def)
  from Match_layout_Eol [OF this] show ?thesis
    by (auto simp: list_all2_Cons1 grp_def)
qed

lemma check_char_parts:
  assumes "Match rx_check_char e = Some m"
  shows "\<exists>t. e = group m 1 @ group m 2 @ t \<and> (t = [] \<or> t = [newline]) \<and> group m 1 \<noteq> []"
proof -
  have "Match (cats ([Bol, Grp 1 (cats [sp0, Set [NSp]]), Grp 2 any0] @ [Eol])) e = Some m"
    using assms by (simp add: rx_check_char_def)
  from Match_layout_Eol [OF this] show ?thesis by (fastforce simp: list_all2_Cons1 grp_def dest!: consumes_Cat)
qed

definition visible :: "string \<Rightarrow> string" where
  "visible s = filter (\<lambda>c. \<not> ascii_space c) s"

lemma visible_simps [simp]:
  "visible [] = []" "visible (s @ t) = visible s @ visible t" "visible (c # s) = (if ascii_space c then visible s else c # visible s)"
  "list_all ascii_space w \<Longrightarrow> visible w = []"
  by (auto simp: visible_def list_all_iff filter_empty_conv)

function split_operator :: "string \<Rightarrow> string \<Rightarrow> (string \<times> string option \<times> string) option" where
  "split_operator lhs expression =
     (if expression = [] then Some (lhs, None, [])
      else case Match rx_check_token expression of
        Some matched \<Rightarrow>
          let token = group matched 1; rest = group matched 2 in
          if token = ''('' then
            let close = fst (FindEndOfExpressionInLine rest 0 ''('') in
            if close < 0 then None
            else split_operator (lhs @ ''('' @ take (nat close) rest) (drop (nat close) rest)
          else if token = ''&&'' \<or> token = ''||'' then None
          else if token \<in> set NON_RELATIONAL then split_operator (lhs @ token) rest
          else Some (lhs, Some token, rest)
      | None \<Rightarrow>
          (case Match rx_check_operand expression of
             Some matched \<Rightarrow> split_operator (lhs @ group matched 1) (group matched 2)
           | None \<Rightarrow>
               (case Match rx_check_char expression of
                  Some matched \<Rightarrow> split_operator (lhs @ group matched 1) (group matched 2)
                | None \<Rightarrow> Some (lhs, None, []))))"
  by pat_completeness auto
termination
proof (relation "measure (\<lambda>(lhs, e). length e)", goal_cases)
  case (2 lhs e m)
  from check_char_parts [OF 2(4)] show ?case by auto
next
  case (3 lhs e m)
  from check_operand_parts [OF 3(3)] show ?case by auto
next
  case (4 lhs e m)
  have "0 < length (group m 1)" using 4(3-5) by (metis length_greater_0_conv list.distinct(1))
  moreover from check_token_parts [OF 4(2)] obtain w t where e: "e = w @ group m 1 @ group m 2 @ t" by blast
  have "length e = length w + length (group m 1) + length (group m 2) + length t" by (subst e) simp
  ultimately have "length (group m 2) < length e" by linarith
  then show ?case using 4(4) by (auto intro: le_less_trans [OF diff_le_self])
next
  case (5 lhs e m)
  from check_token_parts [OF 5(2)] 5(3-) show ?case by (auto simp: NON_RELATIONAL_def)
qed simp

declare split_operator.simps [simp del]

subsection \<open>The check\<close>

definition rx_semicolon :: rx where
  "rx_semicolon = cats [sp0, Lit '';'']"

definition rx_constant :: rx where
  "rx_constant = cats [Bol,
     Grp 1 (alts [
       cats [opt (Set [Ch ''-+'']),
         Grp 2 (alts [plus1 (Set [Dg]),
                      cats [Lit ''0'', Set [Ch ''xX''],
                        plus1 (Set [Rg (CHR ''0'') (CHR ''9''), Rg (CHR ''a'') (CHR ''f''), Rg (CHR ''A'') (CHR ''F'')])]]),
         Rep True 0 (Some 3) (Set [Ch ''lLuU''])],
       cats [Lit [dquote], any0, Lit [dquote]], cats [Lit [squote], any0, Lit [squote]]]), Eol]"

text \<open>The text between the parentheses of the macro.\<close>

definition check_condition :: "string list \<Rightarrow> nat \<Rightarrow> nat \<Rightarrow> string \<times> nat \<times> int \<Rightarrow> string res" where
  "check_condition lines linenum start_pos close =
     (case close of (last_text, end_line, end_pos) \<Rightarrow>
        rbind (py_idx lines (int linenum)) (\<lambda>line.
          if linenum = end_line then Inr (drop (start_pos + 1) (take (nat (end_pos - 1)) line))
          else rbind (rmap (\<lambda>i. py_idx lines (int i)) [linenum + 1..<end_line]) (\<lambda>between.
            Inr (drop (start_pos + 1) line @ concat between @ take (nat (end_pos - 1)) last_text))))"

text \<open>The operator whose comparison should be replaced; None when nothing is to be reported.\<close>

definition replaceable :: "string \<Rightarrow> string option" where
  "replaceable condition =
     (case split_operator [] condition of
        None \<Rightarrow> None
      | Some (lhs, opr, rhs) \<Rightarrow>
          if lhs = [] \<or> opr = None \<or> rhs = [] then None
          else if py_find ''&&'' rhs \<noteq> None \<or> py_find ''||'' rhs \<noteq> None then None
          else if Matches rx_constant (py_strip lhs) \<or> Matches rx_constant (py_strip rhs) then opr
          else None)"

definition CheckCheck :: "string \<Rightarrow> CleansedLines \<Rightarrow> nat \<Rightarrow> error_fn \<Rightarrow> action" where
  "CheckCheck filename cl linenum error s =
     rbind (py_idx (elided cl) (int linenum)) (\<lambda>line.
       case FindCheckMacro line of
         None \<Rightarrow> Inr s
       | Some (check_macro, start_pos) \<Rightarrow>
           rbind (CloseExpression cl linenum start_pos) (\<lambda>close.
             if snd (snd close) < 0 then Inr s
             else if \<not> Matches rx_semicolon (drop (nat (snd (snd close))) (fst close)) then Inr s
             else rbind (check_condition (elided cl) linenum start_pos close) (\<lambda>condition.
               case replaceable condition of
                 None \<Rightarrow> Inr s
               | Some opr \<Rightarrow>
                   (case CHECK_REPLACEMENT check_macro opr of
                      None \<Rightarrow> Inl KeyError
                    | Some repl \<Rightarrow>
                        error filename (int linenum) ''readability/check'' 2
                          (''Consider using '' @ repl @ '' instead of '' @ check_macro @ ''(a '' @ opr @ '' b)'') s))))"

subsection \<open>Alternative tokens\<close>

text \<open>
  The alternatives of the pattern come from the keys of a dictionary, in no particular order; no two of
  them match at the same place, because of what has to follow.
\<close>

definition ALT_TOKEN_REPLACEMENT_PATTERN :: rx where
  "ALT_TOKEN_REPLACEMENT_PATTERN =
     cats [Set [Ch '' =()''], Grp 1 (alts (map (Lit \<circ> fst) ALT_TOKEN_REPLACEMENT)),
       Look True (alts [Set [Ch '' (''], Eol])]"

definition rx_directive :: rx where
  "rx_directive = cats [Bol, sp0, Lit ''#'']"

definition report_alt_token :: "error_fn \<Rightarrow> string \<Rightarrow> nat \<Rightarrow> pmatch \<Rightarrow> action" where
  "report_alt_token error filename linenum m s =
     (case map_of ALT_TOKEN_REPLACEMENT (group m 1) of
        None \<Rightarrow> Inl KeyError
      | Some token \<Rightarrow>
          error filename (int linenum) ''readability/alt_tokens'' 2
            (''Use operator '' @ token @ '' instead of '' @ group m 1) s)"

definition CheckAltTokens :: "string \<Rightarrow> CleansedLines \<Rightarrow> nat \<Rightarrow> error_fn \<Rightarrow> action" where
  "CheckAltTokens filename cl linenum error =
     on_line (elided cl) linenum (\<lambda>line.
       if Matches rx_directive line then Inr
       else if py_find ''/*'' line \<noteq> None \<or> py_find ''*/'' line \<noteq> None then Inr
       else rfold (report_alt_token error filename linenum) (finditer ALT_TOKEN_REPLACEMENT_PATTERN [] line))"

subsection \<open>What the parts of a condition are\<close>

lemma rest_of_line:
  assumes "newline \<notin> set cs"
  shows "\<exists>st. st \<in> set (mt (cats [Grp 2 any0, Eol]) (MS p cs c))"
proof -
  have "MS (rev cs @ p) [] c \<in> set (mt any0 (MS p (cs @ []) c))"
    using assms by (intro mt_starI [OF mt_one_fun(3)]) (auto simp: list_all_iff)
  then have "MS (rev cs @ p) [] ((2, cs) # c) \<in> set (mt (Grp 2 any0) (MS p (cs @ []) c))" by (rule mt_GrpI)
  then have "MS (rev cs @ p) [] ((2, cs) # c) \<in> set (mt (cats [Grp 2 any0, Eol]) (MS p cs c))"
    by (intro mt_catsI [where ?st1.0 = "MS (rev cs @ p) [] ((2, cs) # c)"]) simp_all
  then show ?thesis ..
qed

lemma operand_or_char:
  assumes "newline \<notin> set e" "e \<noteq> []"
  shows "Matches rx_check_operand e \<or> Matches rx_check_char e"
proof -
  from assms(2) obtain x xs where e: "e = x # xs" by (cases e) auto
  with assms(1) have xs: "newline \<notin> set xs" by simp
  have start: "MS [] e [] \<in> set (mt Bol (MS [] e []))" by simp
  show ?thesis
  proof (cases "x \<in> set ''-=!<>()&|''")
    case False
    then have "MS (rev [x] @ []) xs [] \<in> set (mt (plus1 (NSet [Ch ''-=!<>()&|''])) (MS [] ([x] @ xs) []))"
      unfolding mt_plus1_iff by (intro exI [of _ "MS (rev [x] @ []) xs []"] conjI mt_star_self) (simp_all del: mt.simps(8))
    then have g: "MS (rev [x] @ []) xs ((1, [x]) # []) \<in>
        set (mt (Grp 1 (plus1 (NSet [Ch ''-=!<>()&|'']))) (MS [] ([x] @ xs) []))" by (rule mt_GrpI)
    from rest_of_line [OF xs, of "rev [x] @ []" "(1, [x]) # []"] obtain st where
      "st \<in> set (mt (cats [Grp 2 any0, Eol]) (MS (rev [x] @ []) xs ((1, [x]) # [])))" by blast
    with g start e have "st \<in> set (mt rx_check_operand (MS [] e []))"
      unfolding rx_check_operand_def by (metis append_Cons append_Nil mt_catsI)
    then show ?thesis by (auto intro: MatchesI)
  next
    case True
    then have "\<not> ascii_space x" by (auto simp: ascii_space_def)
    then have "MS (rev [x] @ []) xs [] \<in> set (mt (cats [sp0, Set [NSp]]) (MS [] ([x] @ xs) []))"
      by (intro mt_catsI [OF mt_star_self]) (simp add: cset_def)
    then have g: "MS (rev [x] @ []) xs ((1, [x]) # []) \<in>
        set (mt (Grp 1 (cats [sp0, Set [NSp]])) (MS [] ([x] @ xs) []))" by (rule mt_GrpI)
    from rest_of_line [OF xs, of "rev [x] @ []" "(1, [x]) # []"] obtain st where
      "st \<in> set (mt (cats [Grp 2 any0, Eol]) (MS (rev [x] @ []) xs ((1, [x]) # [])))" by blast
    with g start e have "st \<in> set (mt rx_check_char (MS [] e []))"
      unfolding rx_check_char_def by (metis append_Cons append_Nil mt_catsI)
    then show ?thesis by (auto intro: MatchesI)
  qed
qed

lemma operator_visible: "consumes rx_check_operator w \<Longrightarrow> visible w = w"
  by (auto simp: check_operator_tokens NON_RELATIONAL_def RELATIONAL_def visible_def ascii_space_def)

lemma split_operator_parts:
  "split_operator lhs e = Some (l, opr, r) \<Longrightarrow> newline \<notin> set e \<Longrightarrow>
   visible l @ (case opr of None \<Rightarrow> [] | Some w \<Rightarrow> w) @ visible r = visible lhs @ visible e \<and>
   (\<forall>w. opr = Some w \<longrightarrow> w \<in> set RELATIONAL)"
proof (induction lhs e rule: split_operator.induct)
  case (1 lhs e)
  show ?case
  proof (cases "e = []")
    case True
    with 1(5) show ?thesis by (auto simp: split_operator.simps)
  next
    case False
    note IH = 1(1-4) [OF False]
    show ?thesis
    proof (cases "Match rx_check_token e")
      case (Some m)
      from check_token_parts [OF Some] obtain w t where
        p: "e = w @ group m 1 @ group m 2 @ t" "list_all ascii_space w" "t = [] \<or> t = [newline]"
          "consumes rx_check_operator (group m 1)" by blast
      with 1(6) have "t = []" and rest: "newline \<notin> set (group m 2)" by auto
      with p have e: "visible e = group m 1 @ visible (group m 2)" by (simp add: operator_visible)
      let ?close = "fst (FindEndOfExpressionInLine (group m 2) 0 ''('')"
      let ?n = "nat ?close"
      have run: "split_operator lhs e =
          (if group m 1 = ''('' then
             if ?close < 0 then None
             else split_operator (lhs @ ''('' @ take ?n (group m 2)) (drop ?n (group m 2))
           else if group m 1 = ''&&'' \<or> group m 1 = ''||'' then None
           else if group m 1 \<in> set NON_RELATIONAL then split_operator (lhs @ group m 1) (group m 2)
           else Some (lhs, Some (group m 1), group m 2))"
        using False Some by (subst split_operator.simps) (simp add: Let_def)
      consider "group m 1 = ''(''" "\<not> ?close < 0" | "group m 1 \<noteq> ''(''" "group m 1 \<in> set NON_RELATIONAL"
          "\<not> (group m 1 = ''&&'' \<or> group m 1 = ''||'')" | "group m 1 \<in> set RELATIONAL" "(l, opr, r) = (lhs, Some (group m 1), group m 2)"
        using 1(5) p(4) unfolding run check_operator_tokens by (auto split: if_splits)
      then show ?thesis
      proof cases
        case 1
        have "newline \<notin> set (drop ?n (group m 2))" using rest by (meson in_set_dropD)
        moreover have "visible (take ?n (group m 2)) @ visible (drop ?n (group m 2)) = visible (group m 2)"
          by (metis append_take_drop_id visible_simps(2))
        moreover have "\<not> ascii_space CHR ''(''" by (simp add: ascii_space_def)
        ultimately show ?thesis
          using IH(3) [OF Some refl refl 1(1) refl 1(2)] 1 \<open>split_operator lhs e = Some (l, opr, r)\<close>
          unfolding run e by simp
      next
        case 2
        then show ?thesis
          using IH(4) [OF Some refl refl 2(1,3,2) _ rest] operator_visible [OF p(4)]
            \<open>split_operator lhs e = Some (l, opr, r)\<close> unfolding run e by simp
      next
        case 3
        with e show ?thesis by simp
      qed
    next
      case None
      show ?thesis
      proof (cases "Match rx_check_operand e")
        case (Some m)
        from check_operand_parts [OF Some] 1(6) have e: "e = group m 1 @ group m 2" "newline \<notin> set (group m 2)" by auto
        have "split_operator lhs e = split_operator (lhs @ group m 1) (group m 2)"
          using False None Some by (subst split_operator.simps) simp
        with IH(2) [OF None Some _ e(2)] 1(5) show ?thesis by (subst e(1)) simp
      next
        case operand: None
        with operand_or_char [OF 1(6) False] obtain m where m: "Match rx_check_char e = Some m"
          by (auto simp: Matches_def)
        from check_char_parts [OF m] 1(6) have e: "e = group m 1 @ group m 2" "newline \<notin> set (group m 2)" by auto
        have "split_operator lhs e = split_operator (lhs @ group m 1) (group m 2)"
          using False None operand m by (subst split_operator.simps) simp
        with IH(1) [OF None operand m _ e(2)] 1(5) show ?thesis by (subst e(1)) simp
      qed
    qed
  qed
qed

lemma replaceable_parts:
  assumes "replaceable condition = Some opr" "newline \<notin> set condition"
  shows "\<exists>lhs rhs. visible condition = visible lhs @ opr @ visible rhs \<and> opr \<in> set RELATIONAL \<and>
     (Matches rx_constant (py_strip lhs) \<or> Matches rx_constant (py_strip rhs)) \<and>
     \<not> sublist ''&&'' rhs \<and> \<not> sublist ''||'' rhs"
proof -
  from assms(1) obtain lhs rhs where "split_operator [] condition = Some (lhs, Some opr, rhs)"
    "py_find ''&&'' rhs = None" "py_find ''||'' rhs = None"
    "Matches rx_constant (py_strip lhs) \<or> Matches rx_constant (py_strip rhs)"
    by (auto simp: replaceable_def split: option.splits if_splits)
  with split_operator_parts [OF this(1) assms(2)] show ?thesis
    by (intro exI [of _ lhs] exI [of _ rhs]) (auto simp: py_find_None_iff)
qed

lemma replacement_exists:
  assumes "macro \<in> set CHECK_MACROS" "opr \<in> set RELATIONAL"
  shows "\<exists>repl. CHECK_REPLACEMENT macro opr = Some repl"
proof -
  have "list_all (\<lambda>o'. map_of CHECK_OPS o' \<noteq> None \<and> map_of CHECK_INV_OPS o' \<noteq> None) RELATIONAL"
    by (simp add: RELATIONAL_def CHECK_OPS_def CHECK_INV_OPS_def)
  with assms show ?thesis by (auto simp: CHECK_REPLACEMENT_eval list_all_iff)
qed

lemma check_condition_lands:
  assumes "lines_ok cl" "linenum < num_lines cl" "closed_at cl a linenum close" "\<not> snd (snd close) < 0"
    and "\<forall>l \<in> set (elided cl). newline \<notin> set l"
  shows "lands (\<lambda>condition. newline \<notin> set condition) (check_condition (elided cl) linenum start_pos close)"
proof -
  obtain last_text end_line end_pos where c: "close = (last_text, end_line, end_pos)" by (cases close)
  let ?lines = "elided cl"
  have len: "length ?lines = num_lines cl" using assms(1) by (simp add: lines_ok_def)
  with assms c have e: "linenum \<le> end_line" "end_line < num_lines cl" "last_text = ?lines ! end_line"
    by (auto simp: closed_at_def)
  have clean: "newline \<notin> set (?lines ! i)" if "i < num_lines cl" for i using assms(5) that len by simp
  have "rmap (\<lambda>i. py_idx ?lines (int i)) [linenum + 1..<end_line] = Inr (map ((!) ?lines) [linenum + 1..<end_line])"
    using e len by (intro rmap_idx) simp
  then have "check_condition ?lines linenum start_pos close = Inr
      (if linenum = end_line then drop (start_pos + 1) (take (nat (end_pos - 1)) (?lines ! linenum))
       else drop (start_pos + 1) (?lines ! linenum) @ concat (map ((!) ?lines) [linenum + 1..<end_line]) @
            take (nat (end_pos - 1)) last_text)"
    using len assms(2) c by (simp add: check_condition_def)
  with clean e show ?thesis by (auto dest!: in_set_dropD in_set_takeD)
qed

lemma find_check_macro:
  assumes "FindCheckMacro line = Some (macro, p)"
  shows "macro \<in> set CHECK_MACROS" "p < length line" "line ! p \<in> set ''([{''"
  using find_macro_in_Some [of line CHECK_MACROS macro p] assms by (auto simp: FindCheckMacro_def)

lemma CheckCheck_cases:
  assumes "lines_ok cl" "linenum < num_lines cl" "\<forall>l \<in> set (elided cl). newline \<notin> set l"
  shows "CheckCheck filename cl linenum error s = Inr s \<or>
    (\<exists>macro p close condition opr repl.
       FindCheckMacro (elided cl ! linenum) = Some (macro, p) \<and> CloseExpression cl linenum p = Inr close \<and>
       check_condition (elided cl) linenum p close = Inr condition \<and> newline \<notin> set condition \<and>
       replaceable condition = Some opr \<and> CHECK_REPLACEMENT macro opr = Some repl \<and>
       CheckCheck filename cl linenum error s =
         error filename (int linenum) ''readability/check'' 2
           (''Consider using '' @ repl @ '' instead of '' @ macro @ ''(a '' @ opr @ '' b)'') s)"
proof -
  let ?line = "elided cl ! linenum"
  have ix: "py_idx (elided cl) (int linenum) = Inr ?line"
    using assms(1,2) by (intro lines_ok_idx) (simp_all add: NumLines_def)
  show ?thesis
  proof (cases "FindCheckMacro ?line")
    case None
    then show ?thesis by (simp add: CheckCheck_def ix)
  next
    case (Some mp)
    obtain macro p where mp: "mp = (macro, p)" by (cases mp)
    note macro = find_check_macro [OF Some [unfolded mp]]
    from close_expression_closed [OF assms(1,2) macro(2,3)] obtain close where
      c: "CloseExpression cl linenum p = Inr close" "closed_at cl (?line ! p) linenum close" by blast
    have run: "CheckCheck filename cl linenum error s =
       (if snd (snd close) < 0 then Inr s
        else if \<not> Matches rx_semicolon (drop (nat (snd (snd close))) (fst close)) then Inr s
        else rbind (check_condition (elided cl) linenum p close) (\<lambda>condition.
               case replaceable condition of
                 None \<Rightarrow> Inr s
               | Some opr \<Rightarrow>
                   (case CHECK_REPLACEMENT macro opr of
                      None \<Rightarrow> Inl KeyError
                    | Some repl \<Rightarrow>
                        error filename (int linenum) ''readability/check'' 2
                          (''Consider using '' @ repl @ '' instead of '' @ macro @ ''(a '' @ opr @ '' b)'') s)))"
      by (simp only: CheckCheck_def ix rbind_simps Some mp option.case prod.case c(1))
    show ?thesis
    proof (cases "snd (snd close) < 0 \<or> \<not> Matches rx_semicolon (drop (nat (snd (snd close))) (fst close))")
      case True
      then show ?thesis unfolding run by auto
    next
      case False
      with check_condition_lands [OF assms(1,2) c(2) _ assms(3)] obtain condition where
        cond: "check_condition (elided cl) linenum p close = Inr condition" "newline \<notin> set condition"
        unfolding lands_def by blast
      show ?thesis
      proof (cases "replaceable condition")
        case None
        with cond False show ?thesis unfolding run by simp
      next
        case opr: (Some opr)
        from replaceable_parts [OF opr cond(2)] replacement_exists [OF macro(1)] obtain repl where
          "CHECK_REPLACEMENT macro opr = Some repl" by blast
        then have "CheckCheck filename cl linenum error s =
           error filename (int linenum) ''readability/check'' 2
             (''Consider using '' @ repl @ '' instead of '' @ macro @ ''(a '' @ opr @ '' b)'') s"
          using opr cond False unfolding run by (simp del: append.simps)
        with \<open>CHECK_REPLACEMENT macro opr = Some repl\<close> opr cond Some mp c(1) show ?thesis by blast
      qed
    qed
  qed
qed

context error_handler
begin

lemma CheckCheck_keeps:
  assumes "lines_ok cl" "linenum < num_lines cl" "\<forall>l \<in> set (elided cl). newline \<notin> set l"
  shows "keeps I (CheckCheck filename cl linenum error)"
proof (rule keepsI)
  fix s assume "I s"
  then show "lands I (CheckCheck filename cl linenum error s)"
    using CheckCheck_cases [OF assms, of filename error s] by (auto intro!: error_lands)
qed

end

text \<open>What a match of the pattern for alternative tokens captures is one of the tokens.\<close>

lemma consumes_literals: "consumes (alts (map Lit ws)) w \<Longrightarrow> ws \<noteq> [] \<Longrightarrow> w \<in> set ws"
  by (induction ws) (auto split: if_splits)

lemma capfree_literals: "capfree (alts (map Lit ws))"
  by (induction ws) auto

lemma alt_token_known:
  assumes "match_at ALT_TOKEN_REPLACEMENT_PATTERN p t = Some m"
  shows "map_of ALT_TOKEN_REPLACEMENT (group m 1) \<noteq> None"
proof -
  let ?keys = "map fst ALT_TOKEN_REPLACEMENT"
  let ?rs = "[Set [Ch '' =()''], Grp 1 (alts (map Lit ?keys)), Look True (alts [Set [Ch '' (''], Eol])]"
  from assms obtain st where st: "st \<in> set (mt (cats ?rs) (MS p t []))" "m = mk_match (MS p t []) st"
    unfolding ALT_TOKEN_REPLACEMENT_PATTERN_def map_map by (rule match_at_SomeE)
  have "list_all flat ?rs" using capfree_literals [of ?keys] by simp
  from mt_layout [OF this st(1)] obtain ws where
    ws: "list_all2 consumes ?rs ws" "mcaps st = caps_of ?rs ws" by auto
  then obtain a b c where "ws = [a, b, c]" "consumes (alts (map Lit ?keys)) b" by (auto simp: list_all2_Cons1)
  with ws(2) st(2) have "group m 1 = b" "b \<in> set ?keys"
    by (auto simp: grp_def ALT_TOKEN_REPLACEMENT_def dest: consumes_literals)
  then show ?thesis by (auto simp: map_of_eq_None_iff)
qed

context error_handler
begin

lemma CheckAltTokens_keeps:
  assumes "lines_ok cl" "linenum < num_lines cl"
  shows "keeps I (CheckAltTokens filename cl linenum error)"
proof -
  have "keeps I (report_alt_token error filename linenum m)"
    if "m \<in> set (finditer ALT_TOKEN_REPLACEMENT_PATTERN [] line)" for m line
  proof (rule keepsI)
    fix s assume "I s"
    from finditer_matches [OF that] obtain token where "map_of ALT_TOKEN_REPLACEMENT (group m 1) = Some token"
      using alt_token_known by blast
    with \<open>I s\<close> show "lands I (report_alt_token error filename linenum m s)"
      unfolding report_alt_token_def by (simp del: One_nat_def) (auto intro!: error_lands)
  qed
  with assms show ?thesis
    unfolding CheckAltTokens_def lines_ok_def by (intro keeps_intros) (simp_all add: keeps_intros)
qed

end

subsection \<open>Properties\<close>


definition one_check :: CleansedLines where
  "one_check = (let ls = [''  CHECK(x =='', ''      4);'']
     in \<lparr>elided = ls, cl_lines = ls, raw_lines = ls, lines_without_raw_strings = ls, num_lines = 2\<rparr>)"


end
