(* ===== verification/Constructs.thy ===== *)
theory Constructs
  imports File_Checks
begin

section \<open>Non-standard constructs and function calls\<close>

text \<open>
  \<open>CheckForNonStandardConstructs\<close>, with the loop that puts the parameters of a constructor back
  together, and \<open>CheckSpacingForFunctionCall\<close> of \<^verbatim>\<open>src/cpplint.py\<close>.
\<close>

subsection \<open>Patterns of one line\<close>

definition rx_printf_q :: rx where
  "rx_printf_q = cats [Lit ''printf'', sp0, Lit ''('', any0, Lit [dquote], any0, Lit ''%'', opt (Set [Ch ''-+ '']),
     star (Set [Dg]), Lit ''q'']"

definition rx_printf_dollar :: rx where
  "rx_printf_dollar = cats [Lit ''printf'', sp0, Lit ''('', any0, Lit [dquote], any0, Lit ''%'', plus1 (Set [Dg]), Lit ''$'']"

definition rx_undefined_escape :: rx where
  "rx_undefined_escape = cats [Grp 1 (alts [Lit [dquote], Lit [squote]]), any0, Lit [backslash],
     Grp 2 (alts [Lit ''%'', Lit ''['', Lit ''('', Lit ''{''])]"

definition rx_storage_class :: rx where
  "rx_storage_class = cats [WordB,
     Grp 1 (alts [Lit ''const'', Lit ''volatile'', Lit ''void'', Lit ''char'', Lit ''short'', Lit ''int'', Lit ''long'',
       Lit ''float'', Lit ''double'', Lit ''signed'', Lit ''unsigned'',
       Lit ''schar'', cats [opt (Lit ''u''), Lit ''int8''], cats [opt (Lit ''u''), Lit ''int16''],
       cats [opt (Lit ''u''), Lit ''int32''], cats [opt (Lit ''u''), Lit ''int64'']]),
     sp1, Grp 2 (alts [Lit ''register'', Lit ''static'', Lit ''extern'', Lit ''typedef'']), WordB]"

definition rx_endif_text :: rx where
  "rx_endif_text = cats [sp0, Lit ''#'', sp0, Lit ''endif'', sp0, plus1 (NSet [Ch ''/'', Sp])]"

definition rx_inner_forward :: rx where
  "rx_inner_forward = cats [sp0, Lit ''class'', sp1, plus1 (Grp 1 (cats [wd1, sp0, Lit ''::'', sp0])), wd1, sp0, Lit '';'']"

definition rx_max_operator :: rx where
  "rx_max_operator = cats [
     Grp 1 (alts [wd1, cats [opt (Set [Ch ''+-'']), plus1 (Set [Dg]), opt (Grp 2 (cats [Lit ''.'', star (Set [Dg])]))]]),
     sp0, Grp 3 (alts [Lit ''<'', Lit ''>'']), Lit ''?'', opt (Lit ''=''), sp0,
     Grp 4 (alts [wd1, cats [opt (Set [Ch ''+-'']), plus1 (Set [Dg])]]), opt (Grp 5 (cats [Lit ''.'', star (Set [Dg])]))]"

definition rx_string_member :: rx where
  "rx_string_member = cats [Bol, sp0, Lit ''const'', sp0, Lit ''string'', sp0, Lit ''&'', sp0, wd1, sp0, Lit '';'']"

subsection \<open>Constructors\<close>

text \<open>The name of the class in these patterns is escaped, so it stands for itself.\<close>

definition rx_constructor :: "string \<Rightarrow> rx" where
  "rx_constructor base_classname =
     cats [sp1, opt (cats [Lit ''inline'', sp1]), opt (Grp 1 (cats [Lit ''explicit'', sp1])), opt (cats [Lit ''inline'', sp1]),
       Lit base_classname, sp0, Lit ''('',
       Grp 2 (star (alts [NSet [Ch ''()''], cats [Lit ''('', star (NSet [Ch ''()'']), Lit '')'']])), Lit '')'']"

definition rx_initializer_list :: rx where
  "rx_initializer_list = cats [WordB, Lit ''std'', sp0, Lit ''::'', sp0, Lit ''initializer_list'', WordB]"

definition rx_copy_argument :: "string \<Rightarrow> rx" where
  "rx_copy_argument base_classname =
     cats [opt (Grp 1 (cats [Lit ''const'', sp1])), Lit base_classname, opt (Grp 2 (cats [sp0, Lit ''<'', star (NSet [Ch ''>'']), Lit ''>''])),
       opt (Grp 3 (cats [sp1, Lit ''const''])), sp0, opt (cats [Lit ''<'', wd1, Lit ''>'', sp0]), Lit ''&'']"

definition unfinished :: "string \<Rightarrow> bool" where
  "unfinished arg \<longleftrightarrow> py_count ''<'' arg > py_count ''>'' arg \<or> py_count ''('' arg > py_count '')'' arg"

text \<open>The two nested loops that join parameters split in two; the list may end too early.\<close>

function collapse_args :: "string list \<Rightarrow> string list res" where
  "collapse_args [] = Inr []"
| "collapse_args (constructor_arg # rest) =
     (if unfinished constructor_arg then
        (case rest of
           [] \<Rightarrow> Inl IndexError
         | following # rest' \<Rightarrow> collapse_args ((constructor_arg @ '','' @ following) # rest'))
      else rbind (collapse_args rest) (\<lambda>args. Inr (constructor_arg # args)))"
  by pat_completeness auto
termination
  by (relation "measure length") auto

declare collapse_args.simps [simp del]

definition noarg :: "string list \<Rightarrow> bool" where
  "noarg args \<longleftrightarrow> args = [] \<or> (length args = 1 \<and> py_strip (hd args) = ''void'')"

definition onearg :: "string list \<Rightarrow> bool" where
  "onearg args \<longleftrightarrow>
     (length args = 1 \<and> \<not> noarg args) \<or>
     (length args \<ge> 1 \<and> \<not> noarg args \<and> length (filter (py_in ''='') args) \<ge> length args - 1)"

definition explicit_verdict :: "string \<Rightarrow> bool \<Rightarrow> string list \<Rightarrow> string option" where
  "explicit_verdict base_classname is_marked_explicit args =
     (let defaulted_args = filter (py_in ''='') args;
          initializer_list_constructor = (onearg args \<and> Searches rx_initializer_list (hd args));
          copy_constructor = (onearg args \<and> Matches (rx_copy_argument base_classname) (py_strip (hd args)))
      in if \<not> is_marked_explicit \<and> onearg args \<and> \<not> initializer_list_constructor \<and> \<not> copy_constructor then
           (if defaulted_args \<noteq> []
            then Some ''Constructors callable with one argument should be marked explicit.''
            else Some ''Single-parameter constructors should be marked explicit.'')
         else if is_marked_explicit \<and> \<not> onearg args then
           (if noarg args then Some ''Zero-parameter constructors should not be marked explicit.'' else None)
         else None)"

definition check_constructor :: "string \<Rightarrow> nat \<Rightarrow> error_fn \<Rightarrow> string \<Rightarrow> string \<Rightarrow> action" where
  "check_constructor filename linenum error base_classname line s =
     (case Match (rx_constructor base_classname) line of
        None \<Rightarrow> Inr s
      | Some m \<Rightarrow>
          rbind (collapse_args (if group m 2 = [] then [] else py_split_on CHR '','' (group m 2))) (\<lambda>args.
            case explicit_verdict base_classname (grp m 1 \<noteq> None) args of
              None \<Rightarrow> Inr s
            | Some message \<Rightarrow> error filename (int linenum) ''runtime/explicit'' 5 message s))"

definition check_class_line :: "string \<Rightarrow> nat \<Rightarrow> error_fn \<Rightarrow> string \<Rightarrow> BlockInfo option \<Rightarrow> action" where
  "check_class_line filename linenum error line classinfo =
     (case classinfo of
        None \<Rightarrow> Inr
      | Some b \<Rightarrow>
          if \<not> seen_open_brace b then Inr
          else (case kind b of
                  Class_Block c \<Rightarrow>
                    check_constructor filename linenum error (last (py_split_str ''::'' (class_name c))) line
                | _ \<Rightarrow> Inr))"

definition check_format_strings :: "string \<Rightarrow> nat \<Rightarrow> error_fn \<Rightarrow> string \<Rightarrow> action" where
  "check_format_strings filename linenum error line =
     steps [
       whenever (Searches rx_printf_q line)
         (error filename (int linenum) ''runtime/printf_format'' 3
            ''%q in format strings is deprecated.  Use %ll instead.''),
       whenever (Searches rx_printf_dollar line)
         (error filename (int linenum) ''runtime/printf_format'' 2
            ''%N$ formats are unconventional.  Try rewriting to avoid them.''),
       whenever (Searches rx_undefined_escape (py_replace [backslash, backslash] [] line))
         (error filename (int linenum) ''build/printf_format'' 3
            ''%, [, (, and { are undefined character escapes.  Unescape them.'')]"

definition check_declarations :: "string \<Rightarrow> nat \<Rightarrow> error_fn \<Rightarrow> string \<Rightarrow> action" where
  "check_declarations filename linenum error line =
     steps [
       whenever (Searches rx_storage_class line)
         (error filename (int linenum) ''build/storage_class'' 5
            (''Storage-class specifier (static, extern, typedef, etc) should be '' @
             ''at the beginning of the declaration.'')),
       whenever (Matches rx_endif_text line)
         (error filename (int linenum) ''build/endif_comment'' 5
            ''Uncommented text after #endif is non-standard.  Use a comment.''),
       whenever (Matches rx_inner_forward line)
         (error filename (int linenum) ''build/forward_decl'' 5
            ''Inner-style forward declarations are invalid.  Remove this line.''),
       whenever (Searches rx_max_operator line)
         (error filename (int linenum) ''build/deprecated'' 3
            ''>? and <? (max and min) operators are non-standard and deprecated.''),
       whenever (Searches rx_string_member line)
         (error filename (int linenum) ''runtime/member_string_references'' 2
            (''const string& members are dangerous. It is much better to use '' @
             ''alternatives, such as pointers or simple constants.''))]"

definition CheckForNonStandardConstructs ::
  "string \<Rightarrow> CleansedLines \<Rightarrow> nat \<Rightarrow> NestingState \<Rightarrow> error_fn \<Rightarrow> action" where
  "CheckForNonStandardConstructs filename cl linenum nesting_state error =
     andthen
       (on_line (cl_lines cl) linenum (check_format_strings filename linenum error))
       (on_line (elided cl) linenum (\<lambda>line.
          andthen (check_declarations filename linenum error line)
            (check_class_line filename linenum error line (InnermostClass nesting_state))))"

subsection \<open>Function calls\<close>

definition control_patterns :: "rx list" where
  "control_patterns =
     [cats [WordB, Lit ''if'', sp0, Lit ''('', Grp 1 any0, Lit '')'', sp0, Lit ''{''],
      cats [WordB, Lit ''for'', sp0, Lit ''('', Grp 1 any0, Lit '')'', sp0, Lit ''{''],
      cats [WordB, Lit ''while'', sp0, Lit ''('', Grp 1 any0, Lit '')'', sp0, Set [Ch ''{;'']],
      cats [WordB, Lit ''switch'', sp0, Lit ''('', Grp 1 any0, Lit '')'', sp0, Lit ''{'']]"

primrec inside_control :: "string \<Rightarrow> rx list \<Rightarrow> string" where
  "inside_control line [] = line"
| "inside_control line (pattern # patterns) =
     (case Search pattern line of Some m \<Rightarrow> group m 1 | None \<Rightarrow> inside_control line patterns)"

definition rx_control_word :: rx where
  "rx_control_word = cats [WordB,
     Grp 1 (alts [Lit ''if'', Lit ''for'', Lit ''while'', Lit ''switch'', Lit ''return'', Lit ''new'', Lit ''delete'',
       Lit ''catch'', Lit ''sizeof'']), WordB]"

definition rx_function_pointer :: rx where
  "rx_function_pointer = cats [Lit '' ('', plus1 (NSet [Ch '')'']), Lit '')('', star (NSet [Ch '')'']),
     Grp 1 (alts [Lit '')'', cats [Lit '','', Eol]])]"

definition rx_array_pointer :: rx where
  "rx_array_pointer = cats [Lit '' ('', plus1 (NSet [Ch '')'']), Lit '')['', plus1 (NSet [Ch '']'']), Lit '']'']"

definition rx_space_after_call :: rx where
  "rx_space_after_call = cats [Set [Wd], sp0, Lit ''('', Set [Sp], Look False (cats [sp0, Lit [backslash], Eol])]"

definition rx_space_after_paren :: rx where
  "rx_space_after_paren = cats [Lit ''('', sp1, Look False (alts [Grp 1 (cats [sp0, Lit [backslash]]), Lit ''(''])]"

definition rx_space_before_paren :: rx where
  "rx_space_before_paren = cats [Set [Wd], sp1, Lit ''('']"

definition rx_asm_volatile :: rx where
  "rx_asm_volatile =
     (let underscores = Rep True 0 (Some 2) (Lit ''_'')
      in cats [underscores, Lit ''asm'', underscores, sp1, underscores, Lit ''volatile'', underscores, sp1, Lit ''(''])"

definition rx_define_or_typedef :: rx where
  "rx_define_or_typedef = alts [cats [Lit ''#'', sp0, Lit ''define''], Lit ''typedef'', cats [Lit ''using'', sp1, wd1, sp0, Lit ''='']]"

definition rx_method_pointer :: rx where
  "rx_method_pointer = cats [Set [Wd], sp1, Lit ''('', star (Grp 1 (cats [wd1, Lit ''::''])), Lit ''*'', wd1, Lit '')('']"

definition rx_case_paren :: rx where
  "rx_case_paren = cats [WordB, Lit ''case'', sp1, Lit ''('']"

definition rx_operator_word :: rx where
  "rx_operator_word = cats [WordB, Lit ''operator'', star (Lit ''_''), WordB]"

definition rx_space_before_close :: rx where
  "rx_space_before_close = cats [NSet [Ch '')''], sp1, Lit '')'', sp0, NSet [Ch ''{'', Sp]]"

definition rx_close_first :: rx where
  "rx_close_first = cats [Bol, sp1, Lit '')'']"

definition CheckSpacingForFunctionCall :: "string \<Rightarrow> CleansedLines \<Rightarrow> nat \<Rightarrow> error_fn \<Rightarrow> action" where
  "CheckSpacingForFunctionCall filename cl linenum error =
     on_line (elided cl) linenum (\<lambda>line.
       let fncall = inside_control line control_patterns
       in whenever (\<not> Searches rx_control_word fncall \<and> \<not> Searches rx_function_pointer fncall \<and>
                    \<not> Searches rx_array_pointer fncall)
            (steps [
               if Searches rx_space_after_call fncall then
                 error filename (int linenum) ''whitespace/parens'' 4 ''Extra space after ( in function call''
               else whenever (Searches rx_space_after_paren fncall)
                 (error filename (int linenum) ''whitespace/parens'' 2 ''Extra space after (''),
               whenever (Searches rx_space_before_paren fncall \<and> \<not> Searches rx_asm_volatile fncall \<and>
                         \<not> Searches rx_define_or_typedef fncall \<and> \<not> Searches rx_method_pointer fncall \<and>
                         \<not> Searches rx_case_paren fncall)
                 (if Searches rx_operator_word line then
                    error filename (int linenum) ''whitespace/parens'' 0 ''Extra space before ( in function call''
                  else error filename (int linenum) ''whitespace/parens'' 4 ''Extra space before ( in function call''),
               whenever (Searches rx_space_before_close fncall)
                 (if Searches rx_close_first fncall then
                    error filename (int linenum) ''whitespace/parens'' 2 ''Closing ) should be moved to the previous line''
                  else error filename (int linenum) ''whitespace/parens'' 2 ''Extra space before )'')]))"

subsection \<open>How parameters are put together\<close>

text \<open>
  A piece of the list is complete when its text is finished, but no text that stops earlier is.
\<close>

definition complete_piece :: "string list \<Rightarrow> bool" where
  "complete_piece g \<longleftrightarrow> g \<noteq> [] \<and> \<not> unfinished (py_join '','' g) \<and>
     (\<forall>k. 0 < k \<longrightarrow> k < length g \<longrightarrow> unfinished (py_join '','' (take k g)))"

definition pieces_of :: "string list \<Rightarrow> string list list \<Rightarrow> bool" where
  "pieces_of args gs \<longleftrightarrow> concat gs = args \<and> list_all complete_piece gs"

lemma py_join_snoc: "xs \<noteq> [] \<Longrightarrow> py_join sep (xs @ [x]) = py_join sep xs @ sep @ x"
  by (induction xs) auto

lemma pieces_Nil [simp]: "pieces_of [] gs \<longleftrightarrow> gs = []"
  by (cases gs) (auto simp: pieces_of_def complete_piece_def)

text \<open>The first piece is determined by the list.\<close>

lemma first_piece:
  assumes "g \<noteq> []" "\<forall>k. 0 < k \<longrightarrow> k < length g \<longrightarrow> unfinished (py_join '','' (take k g))"
    and "pieces_of (g @ rest) gs"
  shows "if unfinished (py_join '','' g) then rest \<noteq> [] else (\<exists>gs'. gs = g # gs' \<and> pieces_of rest gs')"
proof -
  from assms(1,3) obtain h hs where gs: "gs = h # hs" by (cases gs) (auto simp: pieces_of_def)
  with assms(3) have h: "complete_piece h" "h @ concat hs = g @ rest" "list_all complete_piece hs"
    by (auto simp: pieces_of_def)
  have "\<not> length h < length g"
  proof
    assume l: "length h < length g"
    with h(2) have "h = take (length h) g" by (metis append_eq_append_conv_if append_take_drop_id less_imp_le)
    moreover have "0 < length h" using h(1) by (simp add: complete_piece_def)
    ultimately have "unfinished (py_join '','' h)" using assms(2) l by metis
    with h(1) show False by (simp add: complete_piece_def)
  qed
  then have "take (length g) h = g" "rest = drop (length g) h @ concat hs"
    using arg_cong [OF h(2), of "take (length g)"] arg_cong [OF h(2), of "drop (length g)"] by simp_all
  then obtain u where u: "h = g @ u" "rest = u @ concat hs" by (metis append_take_drop_id)
  show ?thesis
  proof (cases "unfinished (py_join '','' g)")
    case True
    with h(1) u have "u \<noteq> []" by (auto simp: complete_piece_def)
    with True u show ?thesis by simp
  next
    case False
    have "u = []"
    proof (rule ccontr)
      assume "u \<noteq> []"
      with h(1) u(1) assms(1) have "unfinished (py_join '','' (take (length g) h))"
        unfolding complete_piece_def by (metis length_append length_greater_0_conv less_add_same_cancel1)
      with u(1) False show False by simp
    qed
    with u gs h(3) False show ?thesis by (simp add: pieces_of_def)
  qed
qed

lemma collapse_from:
  assumes "g \<noteq> []" "\<forall>k. 0 < k \<longrightarrow> k < length g \<longrightarrow> unfinished (py_join '','' (take k g))"
  shows "(collapse_args (py_join '','' g # rest) = Inl IndexError \<and> (\<nexists>gs. pieces_of (g @ rest) gs)) \<or>
     (\<exists>gs. collapse_args (py_join '','' g # rest) = Inr (map (py_join '','') gs) \<and> pieces_of (g @ rest) gs)"
  using assms
proof (induction rest arbitrary: g)
  case Nil
  show ?case
  proof (cases "unfinished (py_join '','' g)")
    case True
    with first_piece [OF Nil, of "[]"] show ?thesis by (auto simp: collapse_args.simps)
  next
    case False
    with Nil have "pieces_of (g @ []) [g]" by (simp add: pieces_of_def complete_piece_def)
    with False show ?thesis by (intro disjI2 exI [of _ "[g]"]) (simp add: collapse_args.simps)
  qed
next
  case (Cons x rest)
  show ?case
  proof (cases "unfinished (py_join '','' g)")
    case True
    have "\<forall>k. 0 < k \<longrightarrow> k < length (g @ [x]) \<longrightarrow> unfinished (py_join '','' (take k (g @ [x])))"
      using Cons.prems(2) True by (auto simp: less_Suc_eq)
    from Cons.IH [OF _ this] show ?thesis
      using True Cons.prems(1) by (subst (1 2) collapse_args.simps) (simp add: py_join_snoc)
  next
    case False
    have run: "collapse_args (py_join '','' g # x # rest) = rbind (collapse_args (x # rest)) (\<lambda>args. Inr (py_join '','' g # args))"
      using False by (subst collapse_args.simps) simp
    have first: "pieces_of (g @ x # rest) gs \<longleftrightarrow> (\<exists>gs'. gs = g # gs' \<and> pieces_of (x # rest) gs')" for gs
    proof
      assume "pieces_of (g @ x # rest) gs"
      from first_piece [OF Cons.prems this] False show "\<exists>gs'. gs = g # gs' \<and> pieces_of (x # rest) gs'" by simp
    next
      assume "\<exists>gs'. gs = g # gs' \<and> pieces_of (x # rest) gs'"
      with Cons.prems False show "pieces_of (g @ x # rest) gs" by (auto simp: pieces_of_def complete_piece_def)
    qed
    from Cons.IH [of "[x]"] consider "collapse_args (x # rest) = Inl IndexError" "\<nexists>gs. pieces_of (x # rest) gs"
      | gs where "collapse_args (x # rest) = Inr (map (py_join '','') gs)" "pieces_of (x # rest) gs" by auto
    then show ?thesis
    proof cases
      case 1
      then show ?thesis unfolding run first by simp
    next
      case (2 gs)
      then show ?thesis unfolding run first by (intro disjI2 exI [of _ "g # gs"]) simp
    qed
  qed
qed

lemma collapse_args_pieces:
  "(collapse_args args = Inl IndexError \<and> (\<nexists>gs. pieces_of args gs)) \<or>
   (\<exists>gs. collapse_args args = Inr (map (py_join '','') gs) \<and> pieces_of args gs)"
proof (cases args)
  case Nil
  then show ?thesis by (simp add: collapse_args.simps)
next
  case (Cons x rest)
  with collapse_from [of "[x]" rest] show ?thesis by simp
qed

subsection \<open>What the checks do to the state\<close>

context error_handler
begin

lemma check_constructor_cases:
  assumes "I s"
  shows "lands I (check_constructor filename linenum error base_classname line s) \<or>
    (check_constructor filename linenum error base_classname line s = Inl IndexError \<and>
     (\<exists>m. Match (rx_constructor base_classname) line = Some m \<and>
        (\<nexists>gs. pieces_of (py_split_on CHR '','' (group m 2)) gs)))"
proof (cases "Match (rx_constructor base_classname) line")
  case (Some m)
  let ?args = "if group m 2 = [] then [] else py_split_on CHR '','' (group m 2)"
  from collapse_args_pieces [of ?args] consider
      "collapse_args ?args = Inl IndexError" "\<nexists>gs. pieces_of ?args gs" | args where "collapse_args ?args = Inr args" by blast
  then show ?thesis
  proof cases
    case 1
    then have "group m 2 \<noteq> []" by (auto simp: collapse_args.simps)
    with 1 Some show ?thesis by (simp add: check_constructor_def)
  next
    case 2
    with Some assms show ?thesis
      by (auto simp: check_constructor_def intro!: error_lands split: option.split)
  qed
qed (use assms in \<open>simp add: check_constructor_def\<close>)

lemma check_class_line_permits: "permits {IndexError} I (check_class_line filename linenum error line classinfo)"
proof -
  have "permits {IndexError} I (check_constructor filename linenum error base_classname line)" for base_classname
    unfolding permits_def
  proof (intro allI impI)
    fix s assume "I s"
    from check_constructor_cases [OF this, of filename linenum base_classname line]
    show "case check_constructor filename linenum error base_classname line s of Inl e \<Rightarrow> e \<in> {IndexError} | Inr s' \<Rightarrow> I s'"
      by (auto simp: lands_def)
  qed
  then show ?thesis
    by (auto simp: check_class_line_def intro: keeps_permits keeps_intros split: option.split block_kind.split)
qed

lemma check_formats_keep:
  "keeps I (check_format_strings filename linenum error line)"
  "keeps I (check_declarations filename linenum error line)"
  unfolding check_format_strings_def check_declarations_def
  by (intro keeps_steps; simp add: keeps_whenever error_keeps)+

lemma CheckForNonStandardConstructs_permits:
  assumes "linenum < length (cl_lines cl)" "linenum < length (elided cl)"
  shows "permits {IndexError} I (CheckForNonStandardConstructs filename cl linenum nesting_state error)"
  unfolding CheckForNonStandardConstructs_def
  using assms by (intro permits_andthen permits_on_line) (simp_all add: check_class_line_permits keeps_permits check_formats_keep)

lemma CheckForNonStandardConstructs_reduces:
  assumes "linenum < length (cl_lines cl)" "linenum < length (elided cl)" "I s"
  shows "\<exists>s1. I s1 \<and> CheckForNonStandardConstructs filename cl linenum nesting_state error s =
     check_class_line filename linenum error (elided cl ! linenum) (InnermostClass nesting_state) s1"
proof -
  from keepsD [OF check_formats_keep(1) assms(3)] obtain s0 where
    0: "check_format_strings filename linenum error (cl_lines cl ! linenum) s = Inr s0" "I s0" by blast
  from keepsD [OF check_formats_keep(2) 0(2)] obtain s1 where
    "check_declarations filename linenum error (elided cl ! linenum) s0 = Inr s1" "I s1" by blast
  with 0 assms(1,2) show ?thesis by (auto simp: CheckForNonStandardConstructs_def andthen_def)
qed

lemma CheckSpacingForFunctionCall_keeps:
  assumes "linenum < length (elided cl)"
  shows "keeps I (CheckSpacingForFunctionCall filename cl linenum error)"
  unfolding CheckSpacingForFunctionCall_def
  using assms by (intro keeps_intros) (auto intro!: keeps_intros error_keeps)

end

subsection \<open>Properties\<close>

text \<open>
  C34: the loop that puts the parameters of a constructor back together fails
  exactly when the list cannot be divided into complete pieces; otherwise it returns the texts of such
  pieces, in order, so that no text is lost.
\<close>

theorem constructor_arguments_spec:
  "if \<exists>gs. pieces_of args gs
   then \<exists>gs. pieces_of args gs \<and> collapse_args args = Inr (map (py_join '','') gs)
   else collapse_args args = Inl IndexError"
  using collapse_args_pieces [of args] by auto

text \<open>The line declares a constructor of the innermost class whose parameters cannot be put together.\<close>

definition undivided_constructor :: "NestingState \<Rightarrow> string \<Rightarrow> bool" where
  "undivided_constructor ns line \<longleftrightarrow>
     (\<exists>b c m. InnermostClass ns = Some b \<and> seen_open_brace b \<and> kind b = Class_Block c \<and>
        Match (rx_constructor (last (py_split_str ''::'' (class_name c)))) line = Some m \<and>
        (\<nexists>gs. pieces_of (py_split_on CHR '','' (group m 2)) gs))"

text \<open>
  C35: on any line of a file \<open>CheckForNonStandardConstructs\<close> either
  returns in a consistent state or raises an \<open>IndexError\<close>, and it raises exactly when the line declares a
  constructor of the class around it whose parameters cannot be divided into complete pieces, for example
  because of a comparison or a shift in a default value.
\<close>

theorem nonstandard_constructs_raise_iff:
  assumes "lint_ok s" and "linenum < length (cl_lines cl)" and "linenum < length (elided cl)"
  shows "if undivided_constructor ns (elided cl ! linenum)
     then CheckForNonStandardConstructs filename cl linenum ns Error s = Inl IndexError
     else lands lint_ok (CheckForNonStandardConstructs filename cl linenum ns Error s)"
proof -
  let ?line = "elided cl ! linenum"
  from sink.CheckForNonStandardConstructs_reduces [OF assms(2,3,1)] obtain s1 where
    s1: "lint_ok s1" "CheckForNonStandardConstructs filename cl linenum ns Error s =
       check_class_line filename linenum Error ?line (InnermostClass ns) s1" by blast
  show ?thesis
  proof (cases "\<exists>b c. InnermostClass ns = Some b \<and> seen_open_brace b \<and> kind b = Class_Block c")
    case True
    then obtain b c where b: "InnermostClass ns = Some b" "seen_open_brace b" "kind b = Class_Block c" by blast
    let ?base = "last (py_split_str ''::'' (class_name c))"
    let ?check = "check_constructor filename linenum Error ?base ?line s1"
    have u: "undivided_constructor ns ?line \<longleftrightarrow> (\<exists>m. Match (rx_constructor ?base) ?line = Some m \<and>
        (\<nexists>gs. pieces_of (py_split_on CHR '','' (group m 2)) gs))"
      using b by (auto simp: undivided_constructor_def)
    have "?check = Inl IndexError" if "undivided_constructor ns ?line"
    proof -
      from that u obtain m where m: "Match (rx_constructor ?base) ?line = Some m"
        "\<nexists>gs. pieces_of (py_split_on CHR '','' (group m 2)) gs" by blast
      have "group m 2 \<noteq> []"
      proof
        assume "group m 2 = []"
        then have "pieces_of (py_split_on CHR '','' (group m 2)) [[[]]]"
          by (simp add: pieces_of_def complete_piece_def unfinished_def)
        with m(2) show False by blast
      qed
      with m collapse_args_pieces [of "py_split_on CHR '','' (group m 2)"] show ?thesis
        by (auto simp: check_constructor_def)
    qed
    moreover have "lands lint_ok ?check" if "\<not> undivided_constructor ns ?line"
      using sink.check_constructor_cases [OF s1(1), of filename linenum ?base ?line] that u by blast
    ultimately show ?thesis using s1(2) b by (simp add: check_class_line_def)
  next
    case False
    then have "\<not> undivided_constructor ns ?line" by (auto simp: undivided_constructor_def)
    moreover have "check_class_line filename linenum Error ?line (InnermostClass ns) s1 = Inr s1"
      using False by (auto simp: check_class_line_def split: option.split block_kind.split)
    ultimately show ?thesis using s1 by simp
  qed
qed

definition in_class_Foo :: NestingState where
  "in_class_Foo =
     NestingState_init\<lparr>stack := [(BlockInfo_init 0 0 True)\<lparr>kind := Class_Block
        \<lparr>class_name = ''Foo'', is_derived = False, access = ''public'', is_struct = False, class_indent = 0, last_line = 2\<rparr>\<rparr>]\<rparr>"

definition shifted_default :: CleansedLines where
  "shifted_default = (let ls = [''  Foo(int x = 1 < 2);'', ''  Foo(Pair<int, int> p);'']
     in \<lparr>elided = ls, cl_lines = ls, raw_lines = ls, lines_without_raw_strings = ls, num_lines = 2\<rparr>)"

theorem nonstandard_constructs_raise_iff_witness:
  "CheckForNonStandardConstructs ''a.h'' shifted_default 0 in_class_Foo Error lint_init = Inl IndexError \<and>
   lands lint_ok (CheckForNonStandardConstructs ''a.h'' shifted_default 1 in_class_Foo Error lint_init)"
proof -
  have ix: "0 < length (cl_lines shifted_default)" "0 < length (elided shifted_default)"
    "1 < length (cl_lines shifted_default)" "1 < length (elided shifted_default)" by code_simp+
  let ?args = "\<lambda>line. case Match (rx_constructor ''Foo'') line of None \<Rightarrow> None | Some m \<Rightarrow> Some (py_split_on CHR '','' (group m 2))"
  have und: "undivided_constructor in_class_Foo line \<longleftrightarrow> (\<exists>args. ?args line = Some args \<and> collapse_args args = Inl IndexError)" for line
  proof -
    have "last (py_split_str ''::'' ''Foo'') = ''Foo''" by code_simp
    then show ?thesis
      using collapse_args_pieces
      by (fastforce simp: undivided_constructor_def in_class_Foo_def InnermostClass_def is_class_def BlockInfo_init_def
          split: option.splits)
  qed
  have "?args (elided shifted_default ! 0) = Some [''int x = 1 < 2'']" "collapse_args [''int x = 1 < 2''] = Inl IndexError"
    "?args (elided shifted_default ! 1) = Some [''Pair<int'', '' int> p'']"
    "collapse_args [''Pair<int'', '' int> p''] = Inr [''Pair<int, int> p'']" by code_simp+
  then have "undivided_constructor in_class_Foo (elided shifted_default ! 0)"
    "\<not> undivided_constructor in_class_Foo (elided shifted_default ! 1)" unfolding und by simp_all
  then show ?thesis
    using nonstandard_constructs_raise_iff [OF lint_ok_init ix(1,2), of in_class_Foo "''a.h''"]
      nonstandard_constructs_raise_iff [OF lint_ok_init ix(3,4), of in_class_Foo "''a.h''"] by simp
qed

end
