(* ===== verification/Spacing.thy ===== *)
theory Spacing
  imports File_Checks Function_State
begin

section \<open>Spaces and blank lines\<close>

text \<open>
  \<open>CheckComment\<close>, \<open>CheckAccess\<close>, \<open>CheckSpacing\<close>, \<open>CheckOperatorSpacing\<close>, \<open>CheckParenthesisSpacing\<close>,
  \<open>CheckCommaSpacing\<close>, \<open>_IsType\<close>, \<open>CheckBracesSpacing\<close>, \<open>IsDecltype\<close> and \<open>CheckSectionSpacing\<close> of
  \<^verbatim>\<open>src/cpplint.py\<close>.
\<close>

subsection \<open>Comments\<close>

definition RE_PATTERN_TODO :: rx where
  "RE_PATTERN_TODO = cats [Bol, Lit ''//'', Grp 1 sp0, Lit ''TODO'', opt (Grp 2 (cats [Lit ''('', lazy_plus Dot, Lit '')''])),
     opt (Lit '':''), opt (Grp 3 (alts [Set [Sp], Eol]))]"

definition rx_escape :: rx where
  "rx_escape = cats [Lit [backslash], Dot]"

definition rx_scope_comment :: rx where
  "rx_scope_comment = cats [Bol, any0, Lit ''{'', star (Lit '' ''), Lit ''//'']"

definition rx_glued_comment :: rx where
  "rx_glued_comment = cats [Lit ''//'', star (NSet [Ch '' '']), Set [Wd]]"

definition rx_doxygen :: rx where
  "rx_doxygen = cats [Grp 1 (alts [Lit ''///'', Lit ''//!'']), Grp 2 (alts [sp1, Eol])]"

definition check_todo :: "string \<Rightarrow> nat \<Rightarrow> error_fn \<Rightarrow> string \<Rightarrow> action" where
  "check_todo filename linenum error comment =
     (case Match RE_PATTERN_TODO comment of
        None \<Rightarrow> Inr
      | Some m \<Rightarrow> steps [
          whenever (length (group m 1) > 1)
            (error filename (int linenum) ''whitespace/todo'' 2 ''Too many spaces before TODO''),
          whenever (grp m 2 = None)
            (error filename (int linenum) ''readability/todo'' 2
               (''Missing username in TODO; it should look like '' @ [dquote] @ ''// TODO(my_username): Stuff.'' @ [dquote])),
          whenever (grp m 3 \<noteq> Some '' '' \<and> grp m 3 \<noteq> Some [])
            (error filename (int linenum) ''whitespace/todo'' 2 ''TODO(my_username) should be followed by a space'')])"

definition CheckComment :: "string \<Rightarrow> string \<Rightarrow> nat \<Rightarrow> nat \<Rightarrow> error_fn \<Rightarrow> action" where
  "CheckComment line filename linenum next_line_start error =
     (case py_find ''//'' line of
        None \<Rightarrow> Inr
      | Some commentpos \<Rightarrow>
          whenever (py_count [dquote] (ReplaceAll rx_escape [] (take commentpos line)) mod 2 = 0) (
            let comment = drop commentpos line in steps [
              whenever (\<not> (Matches rx_scope_comment line \<and> next_line_start = commentpos) \<and>
                        ((commentpos \<ge> 1 \<and> \<not> ascii_space (line ! (commentpos - 1))) \<or>
                         (commentpos \<ge> 2 \<and> \<not> ascii_space (line ! (commentpos - 2)))))
                (error filename (int linenum) ''whitespace/comments'' 2
                   ''At least two spaces is best between code and comments''),
              check_todo filename linenum error comment,
              whenever (Matches rx_glued_comment comment \<and> \<not> Matches rx_doxygen comment)
                (error filename (int linenum) ''whitespace/comments'' 4 ''Should have a space between // and comment'')]))"

subsection \<open>\<open>DISALLOW\<close> macros\<close>

definition rx_disallow_macro :: rx where
  "rx_disallow_macro = cats [sp0, Grp 1 (alts [Lit ''DISALLOW_COPY_AND_ASSIGN'', Lit ''DISALLOW_IMPLICIT_CONSTRUCTORS''])]"

definition CheckAccess :: "string \<Rightarrow> CleansedLines \<Rightarrow> nat \<Rightarrow> NestingState \<Rightarrow> error_fn \<Rightarrow> action" where
  "CheckAccess filename cl linenum nesting_state error =
     on_line (elided cl) linenum (\<lambda>line.
       case Match rx_disallow_macro line of
         None \<Rightarrow> Inr
       | Some matched \<Rightarrow>
           (case stack nesting_state of
              [] \<Rightarrow> Inr
            | b # _ \<Rightarrow>
                (case kind b of
                   Class_Block c \<Rightarrow>
                     whenever (access c \<noteq> ''private'')
                       (error filename (int linenum) ''readability/constructors'' 3
                          (group matched 1 @ '' must be in the private: section''))
                 | _ \<Rightarrow> Inr)))"

subsection \<open>Blank lines, comments, brackets and colons\<close>

definition rx_six_spaces :: rx where
  "rx_six_spaces = cats [Rep True 6 (Some 6) (Lit '' ''), Set [Wd]]"

definition rx_header_end :: rx where
  "rx_header_end = cats [Rep True 4 (Some 4) (Lit '' ''), Set [Wd], star (NSet [Ch ''('']), Lit '')'', sp0,
     opt (Grp 1 (cats [Lit ''const'', sp0])), Grp 2 (alts [cats [Lit ''{'', sp0, Eol], Lit '':''])]"

definition rx_four_colon :: rx where
  "rx_four_colon = cats [Rep True 4 (Some 4) (Lit '' ''), Lit '':'']"

definition rx_closes_block :: rx where
  "rx_closes_block = cats [sp0, Lit ''}'']"

definition rx_section :: rx where
  "rx_section = cats [sp0, Grp 1 (alts [Lit ''public'', Lit ''protected'', Lit ''private'']), Lit '':'']"

definition rx_space_bracket :: rx where
  "rx_space_bracket = cats [Set [Wd], sp1, Lit ''['']"

definition rx_delete_bracket :: rx where
  "rx_delete_bracket = cats [alts [Lit ''delete'', Lit ''return''], sp1, Lit ''['']"

definition rx_for_colon_left :: rx where
  "rx_for_colon_left = cats [Lit ''for'', star (Lit '' ''), Lit ''('', any0, NSet [Ch '':''], Lit '':'', NSet [Ch '': '']]"

definition rx_for_colon_right :: rx where
  "rx_for_colon_right = cats [Lit ''for'', star (Lit '' ''), Lit ''('', any0, NSet [Ch '': ''], Lit '':'', NSet [Ch '':'']]"

text \<open>Whether a blank line after \<open>prev_line\<close>, which opens a block, is allowed.\<close>

definition blank_start_exception :: "string list \<Rightarrow> nat \<Rightarrow> string \<Rightarrow> bool res" where
  "blank_start_exception lines linenum prev_line =
     (if Matches rx_six_spaces prev_line then
        rbind (find_line (\<lambda>line. \<not> Matches rx_six_spaces line) lines (rev [0..<linenum - 1])) (\<lambda>search_position.
          case search_position of
            None \<Rightarrow> Inr False
          | Some i \<Rightarrow> rbind (py_idx lines (int i)) (\<lambda>line. Inr (take 5 line = ''    :'')))
      else Inr (Matches rx_header_end prev_line \<or> Matches rx_four_colon prev_line))"

definition check_blank_start :: "string \<Rightarrow> CleansedLines \<Rightarrow> nat \<Rightarrow> error_fn \<Rightarrow> string \<Rightarrow> action" where
  "check_blank_start filename cl linenum error prev_line s =
     (case py_rfind CHR ''{'' prev_line of
        None \<Rightarrow> Inr s
      | Some prevbrace \<Rightarrow>
          if py_in ''}'' (drop prevbrace prev_line) then Inr s
          else rbind (blank_start_exception (elided cl) linenum prev_line) (\<lambda>is_exception.
            whenever (\<not> is_exception)
              (error filename (int linenum) ''whitespace/blank_line'' 2
                 ''Redundant blank line at the start of a code block should be deleted.'') s))"

definition check_blank_end :: "string \<Rightarrow> CleansedLines \<Rightarrow> nat \<Rightarrow> error_fn \<Rightarrow> action" where
  "check_blank_end filename cl linenum error =
     whenever (linenum + 1 < NumLines cl)
       (on_line (lines_without_raw_strings cl) (linenum + 1) (\<lambda>next_line.
          whenever (next_line \<noteq> [] \<and> Matches rx_closes_block next_line \<and> \<not> py_in ''} else '' next_line)
            (error filename (int linenum) ''whitespace/blank_line'' 3
               ''Redundant blank line at the end of a code block should be deleted.'')))"

definition check_blank_section :: "string \<Rightarrow> nat \<Rightarrow> error_fn \<Rightarrow> string \<Rightarrow> action" where
  "check_blank_section filename linenum error prev_line =
     (case Match rx_section prev_line of
        None \<Rightarrow> Inr
      | Some matched \<Rightarrow>
          error filename (int linenum) ''whitespace/blank_line'' 3
            (''Do not leave a blank line after '' @ [dquote] @ group matched 1 @ '':'' @ [dquote]))"

definition check_blank_line :: "string \<Rightarrow> CleansedLines \<Rightarrow> nat \<Rightarrow> error_fn \<Rightarrow> action" where
  "check_blank_line filename cl linenum error s =
     rbind (py_idx (elided cl) (int linenum - 1)) (\<lambda>prev_line.
       steps [check_blank_start filename cl linenum error prev_line,
              check_blank_end filename cl linenum error,
              check_blank_section filename linenum error prev_line] s)"

definition next_line_start :: "CleansedLines \<Rightarrow> nat \<Rightarrow> nat res" where
  "next_line_start cl linenum =
     (if linenum + 1 < NumLines cl then
        rbind (py_idx (lines_without_raw_strings cl) (int (linenum + 1))) (\<lambda>next_line.
          Inr (length next_line - length (py_lstrip next_line)))
      else Inr 0)"

definition CheckSpacing :: "string \<Rightarrow> CleansedLines \<Rightarrow> nat \<Rightarrow> NestingState \<Rightarrow> error_fn \<Rightarrow> action" where
  "CheckSpacing filename cl linenum nesting_state error =
     andthen
       (on_line (lines_without_raw_strings cl) linenum (\<lambda>line. steps [
          whenever (IsBlankLine line \<and> \<not> InNamespaceBody nesting_state \<and> \<not> InExternC nesting_state)
            (check_blank_line filename cl linenum error),
          (\<lambda>s. rbind (next_line_start cl linenum) (\<lambda>start. CheckComment line filename linenum start error s))]))
       (on_line (elided cl) linenum (\<lambda>line. steps [
          whenever (Searches rx_space_bracket line \<and> \<not> Searches rx_delete_bracket line)
            (error filename (int linenum) ''whitespace/braces'' 5 ''Extra space before [''),
          whenever (Searches rx_for_colon_left line \<or> Searches rx_for_colon_right line)
            (error filename (int linenum) ''whitespace/forcolon'' 2
               ''Missing space around colon in range-based for loop'')]))"

subsection \<open>Operators\<close>

definition rx_operator_method :: rx where
  "rx_operator_method = cats [Bol, Grp 1 (cats [any0, WordB, Lit ''operator'', WordB]), Grp 2 (plus1 (Set [NSp])),
     Grp 3 (cats [sp0, Lit ''('', any0]), Eol]"

text \<open>
  What a match of this pattern looks like.  The text of the second group follows a word, so it starts with a
  character that is no part of a word: hiding it behind underscores makes progress.
\<close>

lemma mt_Grp_capfree:
  assumes "capfree a" "st' \<in> set (mt (Grp k a) st)"
  shows "\<exists>st1 w. st1 \<in> set (mt a st) \<and> mrest st = w @ mrest st1 \<and> mrest st' = mrest st1 \<and> mcaps st' = (k, w) # mcaps st"
proof -
  from assms(2) obtain st1 w where s: "st1 \<in> set (mt a st)" "mrest st = w @ mrest st1"
    "st' = MS (mprev st1) (mrest st1) ((k, w) # mcaps st1)" unfolding mt_Grp_iff by blast
  with capfree_caps [OF assms(1) s(1)] show ?thesis by (intro exI [of _ st1] exI [of _ w]) simp
qed

lemma operator_method_parts:
  assumes "Match rx_operator_method line = Some m"
  shows "\<exists>x w t. line = group m 1 @ group m 2 @ group m 3 @ t \<and> (t = [] \<or> t = [newline]) \<and>
     group m 2 = x # w \<and> \<not> word_char x"
proof -
  let ?A = "cats [any0, WordB, Lit ''operator'', WordB]"
  let ?B = "plus1 (Set [NSp])" let ?C = "cats [sp0, Lit ''('', any0]"
  from assms obtain st where st: "st \<in> set (mt rx_operator_method (MS [] line []))" "m = mk_match (MS [] line []) st"
    by (rule Match_SomeE)
  from st(1) obtain s0 s1 s2 s3 s4 where s: "s0 \<in> set (mt Bol (MS [] line []))" "s1 \<in> set (mt (Grp 1 ?A) s0)"
    "s2 \<in> set (mt (Grp 2 ?B) s1)" "s3 \<in> set (mt (Grp 3 ?C) s2)" "s4 \<in> set (mt Eol s3)" "st \<in> set (mt (cats []) s4)"
    unfolding rx_operator_method_def mt_cats_Cons by blast
  from s(1,5,6) have st3: "s0 = MS [] line []" "st = s3" "mrest s3 = [] \<or> mrest s3 = [newline]" by (auto split: if_splits)
  have "capfree ?A" "capfree ?B" "capfree ?C" by simp_all
  from mt_Grp_capfree [OF this(1) s(2)] mt_Grp_capfree [OF this(2) s(3)] mt_Grp_capfree [OF this(3) s(4)]
  obtain u1 w1 u2 w2 u3 w3 where
    u1: "u1 \<in> set (mt ?A s0)" "line = w1 @ mrest u1" "mrest s1 = mrest u1" "mcaps s1 = [(1, w1)]"
    and u2: "u2 \<in> set (mt ?B s1)" "mrest s1 = w2 @ mrest u2" "mrest s2 = mrest u2" "mcaps s2 = (2, w2) # mcaps s1"
    and u3: "mrest s2 = w3 @ mrest u3" "mrest s3 = mrest u3" "mcaps s3 = (3, w3) # mcaps s2"
    unfolding st3(1) mstate.sel by blast
  with st(2) st3(2) have g: "group m 1 = w1" "group m 2 = w2" "group m 3 = w3" by (simp_all add: grp_def)
  from u1(1) obtain v2 v3 where v: "v3 \<in> set (mt (Lit ''operator'') v2)" "u1 \<in> set (mt (cats [WordB]) v3)"
    unfolding mt_cats_Cons [of _ any0] mt_cats_Cons [of _ WordB "[Lit ''operator'', WordB]"] mt_cats_Cons [of _ "Lit ''operator''"]
    by blast
  from v(1) have "mprev v3 = rev ''operator'' @ mprev v2" unfolding mt_Lit_iff by blast
  moreover from v(2) have "u1 = v3" "at_word_boundary v3" by (auto split: if_splits)
  moreover have "word_char CHR ''r''" by code_simp
  ultimately have next_char: "case mrest u1 of [] \<Rightarrow> True | x # _ \<Rightarrow> \<not> word_char x"
    by (auto simp: at_word_boundary_def split: list.splits)
  have "w2 \<noteq> []" using consumesI [OF u2(1,2)] by simp
  then obtain x w where x: "w2 = x # w" by (cases w2) auto
  with next_char u1(3) u2(2) have "\<not> word_char x" by (auto split: list.splits)
  with g x u1(2,3) u2(2,3) u3(1,2) st3(3) show ?thesis
    by (intro exI [of _ x] exI [of _ w] exI [of _ "mrest s3"]) simp
qed

function hide_operators :: "string \<Rightarrow> string" where
  "hide_operators line =
     (case Match rx_operator_method line of
        Some m \<Rightarrow> hide_operators (group m 1 @ replicate (length (group m 2)) CHR ''_'' @ group m 3)
      | None \<Rightarrow> line)"
  by pat_completeness auto
termination
proof (relation "measure (\<lambda>line. length (filter (\<lambda>c. \<not> word_char c) line))", goal_cases)
  case (2 line m)
  from operator_method_parts [OF 2] obtain x w t where
    p: "line = group m 1 @ group m 2 @ group m 3 @ t" "group m 2 = x # w" "\<not> word_char x" by blast
  have under: "word_char CHR ''_''" by code_simp
  then have "filter (\<lambda>c. \<not> word_char c) (replicate n CHR ''_'') = []" for n by simp
  moreover have "length (filter (\<lambda>c. \<not> word_char c) line) =
      length (filter (\<lambda>c. \<not> word_char c) (group m 1 @ group m 2 @ group m 3 @ t))" using p(1) by simp
  ultimately show ?case using p(2,3) under by simp
qed simp

declare hide_operators.simps [simp del]

definition rx_glued_assign_left :: rx where
  "rx_glued_assign_left = cats [Set [Wd, Ch ''.''], Lit ''='']"

definition rx_glued_assign_right :: rx where
  "rx_glued_assign_right = cats [Lit ''='', Set [Wd, Ch ''.'']]"

definition rx_control_space :: rx where
  "rx_control_space = cats [WordB, Grp 1 (alts [Lit ''if'', Lit ''while'', Lit ''for'']), Lit '' '']"

definition rx_equals_operator :: rx where
  "rx_equals_operator = Grp 1 (alts [Lit ''>='', Lit ''<='', Lit ''=='', Lit ''!='', Lit ''&='', Lit ''^='', Lit ''|='', Lit ''+='',
     Lit ''*='', Lit ''/='', Lit ''%=''])"

definition rx_operator_assign :: rx where
  "rx_operator_assign = Lit ''operator=''"

definition rx_glued_comparison :: rx where
  "rx_glued_comparison = cats [NSet [Ch ''<>=!'', Sp], Grp 1 (alts [Lit ''=='', Lit ''!='', Lit ''<='', Lit ''>='', Lit ''||'']),
     NSet [Ch ''<>=!,;)'', Sp]]"

definition rx_include_line :: rx where
  "rx_include_line = cats [Lit ''#'', any0, Lit ''include'']"

definition rx_glued_less :: rx where
  "rx_glued_less = cats [Bol, Grp 1 (cats [any0, NSet [Sp, Ch ''<'']]), Lit ''<'', NSet [Sp, Ch ''=<,'']]"

definition rx_glued_greater :: rx where
  "rx_glued_greater = cats [Bol, Grp 1 (cats [any0, NSet [Ch ''-'', Sp, Ch ''>'']]), Lit ''>'', NSet [Sp, Ch ''=>,'']]"

definition rx_glued_shift :: rx where
  "rx_glued_shift = cats [Grp 1 (alts [Lit ''operator'', NSet [Sp, Ch ''(<'']]),
     opt (alts [Lit ''L'', Lit ''UL'', Lit ''LL'', Lit ''ULL'', Lit ''l'', Lit ''ul'', Lit ''ll'', Lit ''ull'']), Lit ''<<'',
     Grp 2 (NSet [Sp, Ch '',=<''])]"

definition rx_right_shift :: rx where
  "rx_right_shift = cats [Lit ''>>'', Set [Rg (CHR ''a'') (CHR ''z''), Rg (CHR ''A'') (CHR ''Z''), Ch ''_'']]"

definition rx_unary_space :: rx where
  "rx_unary_space = Grp 1 (alts [cats [Lit ''!'', Set [Sp]], cats [Lit ''~'', Set [Sp]],
     cats [Set [Sp], Lit ''--'', Set [Sp, Ch '';'']], cats [Set [Sp], Lit ''++'', Set [Sp, Ch '';'']]])"

text \<open>
  An angle bracket without spaces around it is reported when it has no partner.  The partner is looked for in the
  line as it was before the operators were hidden.
\<close>

definition check_less :: "string \<Rightarrow> CleansedLines \<Rightarrow> nat \<Rightarrow> error_fn \<Rightarrow> string \<Rightarrow> action" where
  "check_less filename cl linenum error line s =
     (case Match rx_glued_less line of
        None \<Rightarrow> Inr s
      | Some m \<Rightarrow>
          rbind (CloseExpression cl linenum (length (group m 1))) (\<lambda>close.
            whenever (snd (snd close) \<le> -1)
              (error filename (int linenum) ''whitespace/operators'' 3 ''Missing spaces around <'') s))"

definition check_greater :: "string \<Rightarrow> CleansedLines \<Rightarrow> nat \<Rightarrow> error_fn \<Rightarrow> string \<Rightarrow> action" where
  "check_greater filename cl linenum error line s =
     (case Match rx_glued_greater line of
        None \<Rightarrow> Inr s
      | Some m \<Rightarrow>
          rbind (ReverseCloseExpression cl linenum (length (group m 1))) (\<lambda>start.
            whenever (snd (snd start) \<le> -1)
              (error filename (int linenum) ''whitespace/operators'' 3 ''Missing spaces around >'') s))"

definition check_comparison :: "string \<Rightarrow> CleansedLines \<Rightarrow> nat \<Rightarrow> error_fn \<Rightarrow> string \<Rightarrow> action" where
  "check_comparison filename cl linenum error line =
     (case Search rx_glued_comparison line of
        Some m \<Rightarrow> error filename (int linenum) ''whitespace/operators'' 3 (''Missing spaces around '' @ group m 1)
      | None \<Rightarrow>
          whenever (\<not> Matches rx_include_line line)
            (steps [check_less filename cl linenum error line, check_greater filename cl linenum error line]))"

definition check_shift :: "string \<Rightarrow> nat \<Rightarrow> error_fn \<Rightarrow> string \<Rightarrow> action" where
  "check_shift filename linenum error line =
     (case Search rx_glued_shift line of
        None \<Rightarrow> Inr
      | Some m \<Rightarrow>
          whenever (\<not> (py_isdigit (group m 1) \<and> py_isdigit (group m 2)) \<and>
                    \<not> (group m 1 = ''operator'' \<and> group m 2 = '';''))
            (error filename (int linenum) ''whitespace/operators'' 3 ''Missing spaces around <<''))"

definition check_unary :: "string \<Rightarrow> nat \<Rightarrow> error_fn \<Rightarrow> string \<Rightarrow> action" where
  "check_unary filename linenum error line =
     (case Search rx_unary_space line of
        None \<Rightarrow> Inr
      | Some m \<Rightarrow> error filename (int linenum) ''whitespace/operators'' 4 (''Extra space for operator '' @ group m 1))"

definition CheckOperatorSpacing :: "string \<Rightarrow> CleansedLines \<Rightarrow> nat \<Rightarrow> error_fn \<Rightarrow> action" where
  "CheckOperatorSpacing filename cl linenum error =
     on_line (elided cl) linenum (\<lambda>elided_line.
       let line = hide_operators elided_line in steps [
         whenever ((Searches rx_glued_assign_left line \<or> Searches rx_glued_assign_right line) \<and>
                   \<not> Searches rx_control_space line \<and> \<not> Searches rx_equals_operator line \<and>
                   \<not> Searches rx_operator_assign line)
           (error filename (int linenum) ''whitespace/operators'' 4 ''Missing spaces around =''),
         check_comparison filename cl linenum error line,
         check_shift filename linenum error line,
         whenever (Searches rx_right_shift line)
           (error filename (int linenum) ''whitespace/operators'' 3 ''Missing spaces around >>''),
         check_unary filename linenum error line])"

subsection \<open>Parentheses, commas and semicolons\<close>

definition rx_glued_control :: rx where
  "rx_glued_control = cats [Lit '' '', Grp 1 (alts [Lit ''if('', Lit ''for('', Lit ''while('', Lit ''switch(''])]"

definition rx_control_head :: rx where
  "rx_control_head = cats [WordB, Grp 1 (alts [Lit ''if'', Lit ''for'', Lit ''while'', Lit ''switch'']), sp0, Lit ''('',
     Grp 2 (star (Set [Ch '' ''])), Grp 3 Dot, any0, plus1 (NSet [Ch '' '']), Grp 4 (star (Set [Ch '' ''])), Lit '')'',
     sp0, Lit ''{'', sp0, Eol]"

definition rx_for_empty_step :: rx where
  "rx_for_empty_step = cats [WordB, Lit ''for'', sp0, Lit ''('', any0, Lit ''; )'']"

definition check_control_spaces :: "string \<Rightarrow> nat \<Rightarrow> error_fn \<Rightarrow> string \<Rightarrow> action" where
  "check_control_spaces filename linenum error line =
     (case Search rx_control_head line of
        None \<Rightarrow> Inr
      | Some m \<Rightarrow> steps [
          whenever (length (group m 2) \<noteq> length (group m 4) \<and>
                    \<not> ((group m 3 = '';'' \<and> length (group m 2) = 1 + length (group m 4)) \<or>
                       (group m 2 = [] \<and> Searches rx_for_empty_step line)))
            (error filename (int linenum) ''whitespace/parens'' 5 (''Mismatching spaces inside () in '' @ group m 1)),
          whenever (length (group m 2) \<notin> {0, 1})
            (error filename (int linenum) ''whitespace/parens'' 5
               (''Should have zero or one spaces inside ( and ) in '' @ group m 1))])"

definition CheckParenthesisSpacing :: "string \<Rightarrow> CleansedLines \<Rightarrow> nat \<Rightarrow> error_fn \<Rightarrow> action" where
  "CheckParenthesisSpacing filename cl linenum error =
     on_line (elided cl) linenum (\<lambda>line. steps [
       (case Search rx_glued_control line of
          None \<Rightarrow> Inr
        | Some m \<Rightarrow> error filename (int linenum) ''whitespace/parens'' 5 (''Missing space before ( in '' @ group m 1)),
       check_control_spaces filename linenum error line])"

definition rx_glued_comma :: rx where
  "rx_glued_comma = cats [Lit '','', NSet [Ch '','', Sp]]"

definition rx_operator_comma :: rx where
  "rx_operator_comma = cats [WordB, Lit ''operator'', sp0, Lit '','', sp0, Lit ''('']"

definition rx_glued_semicolon :: rx where
  "rx_glued_semicolon = cats [Lit '';'', NSet [Sp, Ch ''};)/'', Ch [backslash]]]"

definition CheckCommaSpacing :: "string \<Rightarrow> CleansedLines \<Rightarrow> nat \<Rightarrow> error_fn \<Rightarrow> action" where
  "CheckCommaSpacing filename cl linenum error =
     on_line (elided cl) linenum (\<lambda>line. steps [
       whenever (Searches rx_glued_comma (ReplaceAll rx_operator_comma ''F('' line))
         (on_line (lines_without_raw_strings cl) linenum (\<lambda>raw.
            whenever (Searches rx_glued_comma raw)
              (error filename (int linenum) ''whitespace/comma'' 3 ''Missing space after ,''))),
       whenever (Searches rx_glued_semicolon line)
         (error filename (int linenum) ''whitespace/semicolon'' 3 ''Missing space after ;'')])"

subsection \<open>Braces\<close>

definition rx_last_word :: rx where
  "rx_last_word = cats [Bol, any0, Grp 1 (cats [WordB, plus1 (Set [NSp])]), Eol]"

definition rx_typename :: "string \<Rightarrow> rx" where
  "rx_typename token = cats [WordB, alts [Lit ''typename'', Lit ''class'', Lit ''struct''], sp1, Lit token, WordB]"

text \<open>The walk up the stack of blocks, whose top comes first.\<close>

primrec template_walk :: "CleansedLines \<Rightarrow> rx \<Rightarrow> BlockInfo list \<Rightarrow> bool res" where
  "template_walk cl typename_pattern [] = Inr False"
| "template_walk cl typename_pattern (b # below) =
     (if is_namespace b then Inr False
      else
        let last = starting_linenum b;
            next_block_start = (case below of [] \<Rightarrow> 0 | b' # _ \<Rightarrow> starting_linenum b')
        in rbind (find_line (py_in ''template'') (elided cl) (rev [next_block_start..<last + 1])) (\<lambda>first.
             case first of
               None \<Rightarrow> template_walk cl typename_pattern below
             | Some first_line \<Rightarrow>
                 rbind (find_line (Searches typename_pattern) (elided cl) [first_line..<last + 1]) (\<lambda>found.
                   if found \<noteq> None then Inr True else template_walk cl typename_pattern below)))"

definition IsType :: "CleansedLines \<Rightarrow> NestingState \<Rightarrow> string \<Rightarrow> bool res" where
  "IsType cl nesting_state expr =
     (let token = (case Match rx_last_word expr of Some m \<Rightarrow> group m 1 | None \<Rightarrow> expr)
      in if Matches TYPES token then Inr True
         else template_walk cl (rx_typename token) (stack nesting_state))"

definition rx_glued_brace :: rx where
  "rx_glued_brace = cats [Bol, Grp 1 (cats [any0, NSet [Ch '' ({>'']]), Lit ''{'']"

definition rx_initializer_end :: rx where
  "rx_initializer_end = cats [Bol, star (Set [Sp, Ch ''}'']), Set [Ch ''{.;,)<>]:'']]"

definition rx_glued_else :: rx where
  "rx_glued_else = Lit ''}else''"

definition rx_colon_semicolon :: rx where
  "rx_colon_semicolon = cats [Lit '':'', sp0, Lit '';'', sp0, Eol]"

definition rx_only_semicolon :: rx where
  "rx_only_semicolon = cats [Bol, sp0, Lit '';'', sp0, Eol]"

definition rx_space_semicolon :: rx where
  "rx_space_semicolon = cats [sp1, Lit '';'', sp0, Eol]"

definition rx_for_word :: rx where
  "rx_for_word = cats [WordB, Lit ''for'', WordB]"

text \<open>The text after the closing brace, with up to two more lines.\<close>

definition trailing_text :: "CleansedLines \<Rightarrow> string \<times> nat \<times> int \<Rightarrow> string res" where
  "trailing_text cl close =
     (case close of (endline, endlinenum, endpos) \<Rightarrow>
        rbind (rmap (\<lambda>offset. py_idx (elided cl) (int offset)) [endlinenum + 1..<min (endlinenum + 3) (NumLines cl - 1)])
          (\<lambda>more. Inr ((if endpos > -1 then drop (nat endpos) endline else []) @ concat more)))"

definition check_glued_brace :: "string \<Rightarrow> CleansedLines \<Rightarrow> nat \<Rightarrow> NestingState \<Rightarrow> error_fn \<Rightarrow> string \<Rightarrow> action" where
  "check_glued_brace filename cl linenum nesting_state error line s =
     (case Match rx_glued_brace line of
        None \<Rightarrow> Inr s
      | Some m \<Rightarrow>
          rbind (CloseExpression cl linenum (length (group m 1))) (\<lambda>close.
          rbind (trailing_text cl close) (\<lambda>trailing.
            if Matches rx_initializer_end trailing then Inr s
            else rbind (IsType cl nesting_state (group m 1)) (\<lambda>is_type.
              whenever (\<not> is_type)
                (error filename (int linenum) ''whitespace/braces'' 5 ''Missing space before {'') s))))"

definition check_last_semicolon :: "string \<Rightarrow> nat \<Rightarrow> error_fn \<Rightarrow> string \<Rightarrow> action" where
  "check_last_semicolon filename linenum error line =
     (if Searches rx_colon_semicolon line then
        error filename (int linenum) ''whitespace/semicolon'' 5 ''Semicolon defining empty statement. Use {} instead.''
      else if Searches rx_only_semicolon line then
        error filename (int linenum) ''whitespace/semicolon'' 5
          (''Line contains only semicolon. If this should be an empty statement, '' @ ''use {} instead.'')
      else whenever (Searches rx_space_semicolon line \<and> \<not> Searches rx_for_word line)
        (error filename (int linenum) ''whitespace/semicolon'' 5
           (''Extra space before last semicolon. If this should be an empty '' @ ''statement, use {} instead.'')))"

definition CheckBracesSpacing :: "string \<Rightarrow> CleansedLines \<Rightarrow> nat \<Rightarrow> NestingState \<Rightarrow> error_fn \<Rightarrow> action" where
  "CheckBracesSpacing filename cl linenum nesting_state error =
     on_line (elided cl) linenum (\<lambda>line. steps [
       check_glued_brace filename cl linenum nesting_state error line,
       whenever (Searches rx_glued_else line)
         (error filename (int linenum) ''whitespace/braces'' 5 ''Missing space before else''),
       check_last_semicolon filename linenum error line])"

definition rx_decltype_end :: rx where
  "rx_decltype_end = cats [WordB, Lit ''decltype'', sp0, Eol]"

definition IsDecltype :: "CleansedLines \<Rightarrow> nat \<Rightarrow> nat \<Rightarrow> bool res" where
  "IsDecltype cl linenum column =
     rbind (ReverseCloseExpression cl linenum column) (\<lambda>start.
       if snd (snd start) < 0 then Inr False
       else Inr (Searches rx_decltype_end (take (nat (snd (snd start))) (fst start))))"

subsection \<open>Sections of a class\<close>

definition rx_class_word :: rx where
  "rx_class_word = cats [WordB, Grp 1 (alts [Lit ''class'', Lit ''struct'']), WordB]"

definition rx_open_brace_end :: rx where
  "rx_open_brace_end = cats [Lit ''{'', sp0, Eol]"

definition CheckSectionSpacing ::
  "string \<Rightarrow> CleansedLines \<Rightarrow> BlockInfo \<Rightarrow> class_info \<Rightarrow> nat \<Rightarrow> error_fn \<Rightarrow> action" where
  "CheckSectionSpacing filename cl b c linenum error =
     (if int (last_line c) - int (starting_linenum b) \<le> 24 \<or> linenum \<le> starting_linenum b then Inr
      else on_line (cl_lines cl) linenum (\<lambda>line.
        case Match rx_section line of
          None \<Rightarrow> Inr
        | Some matched \<Rightarrow>
            on_line (cl_lines cl) (linenum - 1) (\<lambda>prev_line.
              if IsBlankLine prev_line \<or> Searches rx_class_word prev_line \<or> Searches rx_backslash_end prev_line then Inr
              else (\<lambda>s. rbind (find_line (Searches rx_open_brace_end) (cl_lines cl) [starting_linenum b..<linenum]) (\<lambda>found.
                let end_class_head = (case found of Some i \<Rightarrow> i | None \<Rightarrow> starting_linenum b)
                in whenever (int end_class_head < int linenum - 1)
                     (error filename (int linenum) ''whitespace/blank_line'' 3
                        ([dquote] @ group matched 1 @ '':'' @ [dquote] @ '' should be preceded by a blank line'')) s)))))"

subsection \<open>Hiding operators\<close>

text \<open>\<open>hidden a b\<close>: \<open>b\<close> is \<open>a\<close> with some characters replaced by underscores.\<close>

definition hidden :: "string \<Rightarrow> string \<Rightarrow> bool" where
  "hidden = list_all2 (\<lambda>x y. y = x \<or> y = CHR ''_'')"

lemma hidden_refl [simp]: "hidden a a"
  by (simp add: hidden_def list_all2_refl)

lemma hidden_trans: "hidden a b \<Longrightarrow> hidden b c \<Longrightarrow> hidden a c"
  by (fastforce simp: hidden_def list_all2_conv_all_nth)

lemma hidden_under: "hidden w (replicate (length w) CHR ''_'')"
  by (simp add: hidden_def list_all2_conv_all_nth)

lemma hidden_append: "hidden a b \<Longrightarrow> hidden c d \<Longrightarrow> hidden (a @ c) (b @ d)"
  by (simp add: hidden_def list_all2_appendI)

lemma hidden_length: "hidden a b \<Longrightarrow> length b = length a"
  by (auto simp: hidden_def dest: list_all2_lengthD)

lemma hide_operators_hidden:
  "newline \<notin> set line \<Longrightarrow> hidden line (hide_operators line) \<and> \<not> Matches rx_operator_method (hide_operators line)"
proof (induction line rule: hide_operators.induct)
  case (1 line)
  show ?case
  proof (cases "Match rx_operator_method line")
    case None
    then show ?thesis by (subst (1 2) hide_operators.simps) (simp add: Matches_def)
  next
    case (Some m)
    let ?next = "group m 1 @ replicate (length (group m 2)) CHR ''_'' @ group m 3"
    from operator_method_parts [OF Some] 1(2) have line: "line = group m 1 @ group m 2 @ group m 3" by fastforce
    have "hidden (group m 1 @ group m 2 @ group m 3) ?next" by (intro hidden_append hidden_refl hidden_under)
    with line have "hidden line ?next" by (simp only: line [symmetric])
    moreover have "newline \<notin> set (group m 1 @ group m 2 @ group m 3)" using 1(2) by (subst (asm) line)
    then have "newline \<notin> set ?next" by auto
    with 1(1) [OF Some] have "hidden ?next (hide_operators ?next)" "\<not> Matches rx_operator_method (hide_operators ?next)" by auto
    moreover have "hide_operators line = hide_operators ?next" using Some by (subst hide_operators.simps) simp
    ultimately show ?thesis using hidden_trans by metis
  qed
qed

subsection \<open>Every check returns\<close>

text \<open>All four copies of the lines have the same length.\<close>

definition copies_ok :: "CleansedLines \<Rightarrow> bool" where
  "copies_ok cl \<longleftrightarrow> lines_ok cl \<and> length (cl_lines cl) = num_lines cl \<and> length (raw_lines cl) = num_lines cl \<and>
     length (lines_without_raw_strings cl) = num_lines cl"

lemma copies_okD:
  "copies_ok cl \<Longrightarrow> lines_ok cl"
  "copies_ok cl \<Longrightarrow> length (elided cl) = num_lines cl"
  "copies_ok cl \<Longrightarrow> length (cl_lines cl) = num_lines cl"
  "copies_ok cl \<Longrightarrow> length (raw_lines cl) = num_lines cl"
  "copies_ok cl \<Longrightarrow> length (lines_without_raw_strings cl) = num_lines cl"
  by (auto simp: copies_ok_def lines_ok_def)

lemma blank_start_exception_returns:
  assumes "n \<le> length lines" shows "returns (blank_start_exception lines n prev_line)"
proof -
  have f: "find_line P lines (rev [0..<n - 1]) = Inr (List.find (\<lambda>i. P (lines ! i)) (rev [0..<n - 1]))" for P
    using assms by (intro find_line_eq) auto
  have "i < length lines" if "List.find P (rev [0..<n - 1]) = Some i" for P i
    using that assms by (auto simp: find_Some_iff rev_nth)
  then show ?thesis
    by (auto simp: blank_start_exception_def f simp del: One_nat_def split: option.split)
qed

lemma template_walk_returns:
  "\<forall>b \<in> set bs. starting_linenum b < length (elided cl) \<Longrightarrow> returns (template_walk cl pat bs)"
proof (induction bs)
  case (Cons b bs)
  have f: "find_line P (elided cl) [k..<starting_linenum b + 1] = Inr (List.find (\<lambda>i. P (elided cl ! i)) [k..<starting_linenum b + 1])"
    "find_line P (elided cl) (rev [k..<starting_linenum b + 1]) = Inr (List.find (\<lambda>i. P (elided cl ! i)) (rev [k..<starting_linenum b + 1]))" for P k
    using Cons.prems by (intro find_line_eq; auto)+
  with Cons show ?case by (auto simp: Let_def f simp del: upt_Suc split: option.split)
qed simp

lemma trailing_text_returns:
  assumes "length (elided cl) = num_lines cl" shows "returns (trailing_text cl close)"
proof -
  obtain x l e where c: "close = (x, l, e)" by (cases close)
  have "rmap (\<lambda>offset. py_idx (elided cl) (int offset)) [l + 1..<min (l + 3) (NumLines cl - 1)] =
      Inr (map ((!) (elided cl)) [l + 1..<min (l + 3) (NumLines cl - 1)])"
    using assms by (intro rmap_idx) (auto simp: NumLines_def)
  then show ?thesis by (simp add: trailing_text_def c del: upt_Suc)
qed

lemma IsType_returns:
  "\<forall>b \<in> set (stack ns). starting_linenum b < length (elided cl) \<Longrightarrow> returns (IsType cl ns expr)"
  by (simp add: IsType_def Let_def template_walk_returns)

lemma flat_capfree: "capfree r \<Longrightarrow> flat r"
  by (cases r) simp_all

lemma caps_of_capfree: "list_all capfree rs \<Longrightarrow> caps_of rs ws = []"
proof (induction rs arbitrary: ws)
  case (Cons r rs)
  then show ?case by (cases r; cases ws; simp)
qed simp

lemma group_one_shorter:
  assumes "Match (cats (Bol # Grp 1 a # Lit w # rs)) line = Some m" "capfree a" "list_all capfree rs" "w \<noteq> []"
  shows "length (group m 1) < length line"
proof -
  have "list_all flat rs" using assms(3) by (auto simp: list_all_iff elim!: ballE intro: flat_capfree)
  with Match_layout [OF assms(1)] assms(2) obtain ws t where
    "list_all2 consumes (Bol # Grp 1 a # Lit w # rs) ws" "line = concat ws @ t" "m_caps m = caps_of (Bol # Grp 1 a # Lit w # rs) ws"
    by auto
  with assms(3,4) show ?thesis by (auto simp: list_all2_Cons1 grp_def caps_of_capfree)
qed

context error_handler
begin

lemma CheckComment_keeps: "keeps I (CheckComment line filename linenum start error)"
  unfolding CheckComment_def check_todo_def
  by (auto intro!: keeps_intros error_keeps split: option.split)

lemma CheckAccess_keeps:
  "linenum < length (elided cl) \<Longrightarrow> keeps I (CheckAccess filename cl linenum ns error)"
  unfolding CheckAccess_def
  by (auto intro!: keeps_intros error_keeps split: option.split list.split block_kind.split)

lemma CheckSpacing_keeps:
  assumes "copies_ok cl" "linenum < num_lines cl"
  shows "keeps I (CheckSpacing filename cl linenum ns error)"
proof -
  note len = copies_okD [OF assms(1)]
  have start: "keeps I (check_blank_start filename cl linenum error prev_line)" for prev_line
  proof (rule keepsI)
    fix s assume "I s"
    have "returns (blank_start_exception (elided cl) linenum prev_line)"
      using len assms(2) by (intro blank_start_exception_returns) simp
    with \<open>I s\<close> show "lands I (check_blank_start filename cl linenum error prev_line s)"
      by (auto simp: check_blank_start_def returns_def intro!: lands_whenever error_lands split: option.split)
  qed
  have close: "keeps I (check_blank_end filename cl linenum error)"
    using len unfolding check_blank_end_def NumLines_def by (auto intro!: keeps_intros error_keeps)
  have "keeps I (check_blank_section filename linenum error prev_line)" for prev_line
    unfolding check_blank_section_def by (auto intro!: keeps_intros error_keeps split: option.split)
  with start close have all: "keeps I (steps [check_blank_start filename cl linenum error p, check_blank_end filename cl linenum error,
      check_blank_section filename linenum error p])" for p by (intro keeps_steps) simp
  have "returns (py_idx (elided cl) (int linenum - 1))" using len assms(2) by (intro py_idx_returns) auto
  then obtain p where "py_idx (elided cl) (int linenum - 1) = Inr p" by (auto simp: returns_def)
  then have blank: "keeps I (check_blank_line filename cl linenum error)"
    using all [of p] by (simp add: check_blank_line_def keeps_def)
  have "returns (next_line_start cl linenum)"
    using len by (cases "linenum + 1 < NumLines cl") (simp_all add: next_line_start_def NumLines_def del: of_nat_Suc of_nat_add)
  then obtain start where "next_line_start cl linenum = Inr start" by (auto simp: returns_def)
  then have "keeps I (\<lambda>s. rbind (next_line_start cl linenum) (\<lambda>start. CheckComment line filename linenum start error s))" for line
    using CheckComment_keeps by simp
  with blank show ?thesis
    unfolding CheckSpacing_def using len assms(2)
    by (intro keeps_intros) (auto intro!: keeps_intros error_keeps)
qed

lemma CheckOperatorSpacing_keeps:
  assumes "lines_ok cl" "linenum < num_lines cl" "newline \<notin> set (elided cl ! linenum)"
  shows "keeps I (CheckOperatorSpacing filename cl linenum error)"
proof -
  let ?line = "hide_operators (elided cl ! linenum)"
  have len: "length ?line = length (elided cl ! linenum)"
    using hide_operators_hidden [OF assms(3)] hidden_length by blast
  have less: "keeps I (check_less filename cl linenum error ?line)"
  proof (rule keepsI)
    fix s assume "I s"
    show "lands I (check_less filename cl linenum error ?line s)"
    proof (cases "Match rx_glued_less ?line")
      case (Some m)
      then have "length (group m 1) < length (elided cl ! linenum)"
        unfolding rx_glued_less_def len [symmetric] by (rule group_one_shorter) simp_all
      from CloseExpression_lands [OF assms(1,2) this] obtain r where
        "CloseExpression cl linenum (length (group m 1)) = Inr r" unfolding lands_def by blast
      with \<open>I s\<close> Some show ?thesis by (auto simp: check_less_def intro!: lands_whenever error_lands)
    qed (use \<open>I s\<close> in \<open>simp add: check_less_def\<close>)
  qed
  have greater: "keeps I (check_greater filename cl linenum error ?line)"
  proof (rule keepsI)
    fix s assume "I s"
    show "lands I (check_greater filename cl linenum error ?line s)"
    proof (cases "Match rx_glued_greater ?line")
      case (Some m)
      then have "length (group m 1) < length (elided cl ! linenum)"
        unfolding rx_glued_greater_def len [symmetric] by (rule group_one_shorter) simp_all
      from ReverseCloseExpression_lands [OF assms(1,2) this] obtain r where
        "ReverseCloseExpression cl linenum (length (group m 1)) = Inr r" unfolding lands_def by blast
      with \<open>I s\<close> Some show ?thesis by (auto simp: check_greater_def intro!: lands_whenever error_lands)
    qed (use \<open>I s\<close> in \<open>simp add: check_greater_def\<close>)
  qed
  have "keeps I (check_comparison filename cl linenum error ?line)" "keeps I (check_shift filename linenum error ?line)"
    "keeps I (check_unary filename linenum error ?line)"
    using less greater unfolding check_comparison_def check_shift_def check_unary_def
    by (auto intro!: keeps_intros error_keeps split: option.split)
  with assms(1,2) show ?thesis
    unfolding CheckOperatorSpacing_def Let_def lines_ok_def by (auto intro!: keeps_intros error_keeps)
qed

lemma CheckParenthesisSpacing_keeps:
  "linenum < length (elided cl) \<Longrightarrow> keeps I (CheckParenthesisSpacing filename cl linenum error)"
  unfolding CheckParenthesisSpacing_def check_control_spaces_def
  by (auto intro!: keeps_intros error_keeps split: option.split)

lemma CheckCommaSpacing_keeps:
  "copies_ok cl \<Longrightarrow> linenum < num_lines cl \<Longrightarrow> keeps I (CheckCommaSpacing filename cl linenum error)"
  unfolding CheckCommaSpacing_def by (auto simp: copies_okD intro!: keeps_intros error_keeps)

lemma CheckBracesSpacing_keeps:
  assumes "lines_ok cl" "linenum < num_lines cl" "\<forall>b \<in> set (stack ns). starting_linenum b < num_lines cl"
  shows "keeps I (CheckBracesSpacing filename cl linenum ns error)"
proof -
  let ?line = "elided cl ! linenum"
  have n: "length (elided cl) = num_lines cl" using assms(1) by (simp add: lines_ok_def)
  have "keeps I (check_glued_brace filename cl linenum ns error ?line)"
  proof (rule keepsI)
    fix s assume "I s"
    show "lands I (check_glued_brace filename cl linenum ns error ?line s)"
    proof (cases "Match rx_glued_brace ?line")
      case (Some m)
      then have "length (group m 1) < length ?line"
        unfolding rx_glued_brace_def by (rule group_one_shorter) simp_all
      from CloseExpression_lands [OF assms(1,2) this] obtain close where
        c: "CloseExpression cl linenum (length (group m 1)) = Inr close" unfolding lands_def by blast
      from trailing_text_returns [OF n, of close] obtain trail where "trailing_text cl close = Inr trail"
        by (auto simp: returns_def)
      moreover obtain b where "IsType cl ns (group m 1) = Inr b"
        using IsType_returns [of ns cl] assms(3) n by (auto simp: returns_def)
      ultimately show ?thesis
        using c Some \<open>I s\<close> by (auto simp: check_glued_brace_def intro!: lands_whenever error_lands)
    qed (use \<open>I s\<close> in \<open>simp add: check_glued_brace_def\<close>)
  qed
  with assms(2) n show ?thesis
    unfolding CheckBracesSpacing_def check_last_semicolon_def by (auto intro!: keeps_intros error_keeps)
qed

lemma CheckSectionSpacing_keeps:
  assumes "copies_ok cl" "linenum < num_lines cl"
  shows "keeps I (CheckSectionSpacing filename cl b c linenum error)"
proof -
  have "find_line P (cl_lines cl) [k..<linenum] = Inr (List.find (\<lambda>i. P (cl_lines cl ! i)) [k..<linenum])" for P k
    using assms by (intro find_line_eq) (auto simp: copies_okD)
  moreover have "linenum - 1 < length (cl_lines cl)" using assms by (simp add: copies_okD)
  ultimately show ?thesis
    using assms unfolding CheckSectionSpacing_def
    by (auto simp: copies_okD Let_def intro!: keeps_intros error_keeps split: option.split)
qed

end

subsection \<open>Properties\<close>

text \<open>
  C36: the loop that hides the names of operators ends; what it returns is the line with
  some characters replaced by underscores, every other one in its column, and it declares no operator
  any more.
\<close>

theorem hide_operators_spec:
  assumes "newline \<notin> set line"
  shows "list_all2 (\<lambda>x y. y = x \<or> y = CHR ''_'') line (hide_operators line) \<and>
     \<not> Matches rx_operator_method (hide_operators line)"
  using hide_operators_hidden [OF assms] by (simp add: hidden_def)

theorem hide_operators_spec_witness:
  "hide_operators ''bool operator==(T x);'' = ''bool operator__(T x);'' \<and>
   \<not> Matches rx_operator_method ''bool operator__(T x);''"
proof -
  have e: "hide_operators ''bool operator==(T x);'' = ''bool operator__(T x);''" by code_simp
  with hide_operators_spec [of "''bool operator==(T x);''"] show ?thesis by simp
qed

end
