(* ===== verification/Braces.thy ===== *)
theory Braces
  imports Spacing
begin

section \<open>Braces, semicolons and empty bodies\<close>

text \<open>
  \<open>GetPreviousNonBlankLine\<close>, \<open>CheckBraces\<close>, \<open>CheckTrailingSemicolon\<close> and \<open>CheckEmptyBlockBody\<close> of
  \<^verbatim>\<open>src/cpplint.py\<close>.
\<close>

text \<open>The line and its number, \<^verbatim>\<open>('', -1)\<close> when there is none.\<close>

definition GetPreviousNonBlankLine :: "CleansedLines \<Rightarrow> nat \<Rightarrow> (string \<times> int) res" where
  "GetPreviousNonBlankLine cl linenum =
     rbind (find_line (\<lambda>line. \<not> IsBlankLine line) (elided cl) (rev [0..<linenum])) (\<lambda>found.
       case found of
         None \<Rightarrow> Inr ([], -1)
       | Some i \<Rightarrow> rbind (py_idx (elided cl) (int i)) (\<lambda>line. Inr (line, int i)))"

text \<open>
  \<open>GetLineWidth\<close> counts wide characters twice and combining ones not at all; among the code points below 256 there
  are neither, and normalisation does not change them.
\<close>

definition GetLineWidth :: "string \<Rightarrow> nat" where
  "GetLineWidth line = length line"

subsection \<open>\<open>CheckBraces\<close>\<close>

definition rx_only_open_brace :: rx where
  "rx_only_open_brace = cats [sp0, Lit ''{'', sp0, Eol]"

definition rx_open_ended :: rx where
  "rx_open_ended = cats [Set [Ch '',;:}{(''], sp0, Eol]"

definition rx_hash :: rx where
  "rx_hash = cats [sp0, Lit ''#'']"

definition rx_else_first :: rx where
  "rx_else_first = cats [sp0, Lit ''else'', WordB, sp0, alts [cats [Lit ''if'', WordB], Lit ''{'', Eol]]"

definition rx_only_close_brace :: rx where
  "rx_only_close_brace = cats [sp0, Lit ''}'', sp0, Eol]"

definition rx_else_if :: rx where
  "rx_else_if = cats [Lit ''else if'', sp0, Lit ''('']"

definition rx_brace_else_if :: rx where
  "rx_brace_else_if = cats [Lit ''}'', sp0, Lit ''else if'', sp0, Lit ''('']"

definition rx_brace_else :: rx where
  "rx_brace_else = cats [Lit ''}'', sp0, Lit ''else'', star (NSet [Ch ''{'']), Eol]"

definition rx_else_brace :: rx where
  "rx_else_brace = cats [star (NSet [Ch ''}'']), Lit ''else'', sp0, Lit ''{'']"

definition rx_else_clause :: rx where
  "rx_else_clause = cats [WordB, Lit ''else '', NSet [Sp, Ch ''{'']]"

definition rx_else_if_word :: rx where
  "rx_else_if_word = cats [WordB, Lit ''else if'', WordB]"

definition rx_do_clause :: rx where
  "rx_do_clause = cats [sp0, Lit ''do '', NSet [Sp, Ch ''{'']]"

definition rx_if_or_else :: rx where
  "rx_if_or_else = cats [WordB, Grp 1 (alts [cats [Lit ''if'', sp0, Lit ''(''], cats [Lit ''else'', WordB]])]"

definition rx_if_paren :: rx where
  "rx_if_paren = cats [WordB, Lit ''if'', sp0, Lit ''('']"

definition rx_open_first :: rx where
  "rx_open_first = cats [sp0, Lit ''{'']"

definition rx_white_rest :: rx where
  "rx_white_rest = cats [sp0, Eol]"

definition rx_body_end :: rx where
  "rx_body_end = cats [Lit '';'', star (Set [Sp, Ch ''}'']), Grp 1 (opt (Lit [backslash])), Eol]"

definition rx_lambda_body :: rx where
  "rx_lambda_body = cats [Bol, star (NSet [Ch ''{};'']), Lit ''['', star (NSet [Ch ''[]'']), Lit '']'', star (NSet [Ch ''{}'']),
     Lit ''{'', star (NSet [Ch ''{}'']), Lit ''}'', sp0, star (Lit '')''), Set [Ch '';,''], sp0, Eol]"

definition rx_else_word_first :: rx where
  "rx_else_word_first = cats [sp0, Lit ''else'', WordB]"

definition check_brace_alone :: "string \<Rightarrow> CleansedLines \<Rightarrow> nat \<Rightarrow> error_fn \<Rightarrow> string \<Rightarrow> action" where
  "check_brace_alone filename cl linenum error line s =
     (if \<not> Matches rx_only_open_brace line then Inr s
      else rbind (GetPreviousNonBlankLine cl linenum) (\<lambda>(prevline, _).
        whenever (\<not> Searches rx_open_ended prevline \<and> \<not> Matches rx_hash prevline \<and>
                  \<not> (int (GetLineWidth prevline) > line_length s - 2 \<and> py_in ''[]'' prevline))
          (error filename (int linenum) ''whitespace/braces'' 4
             ''{ should almost always be at the end of the previous line'') s))"

definition check_else_alone :: "string \<Rightarrow> CleansedLines \<Rightarrow> nat \<Rightarrow> error_fn \<Rightarrow> string \<Rightarrow> action" where
  "check_else_alone filename cl linenum error line s =
     (if \<not> Matches rx_else_first line then Inr s
      else rbind (GetPreviousNonBlankLine cl linenum) (\<lambda>(prevline, _).
        whenever (Matches rx_only_close_brace prevline)
          (error filename (int linenum) ''whitespace/newline'' 4
             ''An else should appear on the same line as the preceding }'') s))"

definition check_else_braces :: "string \<Rightarrow> CleansedLines \<Rightarrow> nat \<Rightarrow> error_fn \<Rightarrow> string \<Rightarrow> action" where
  "check_else_braces filename cl linenum error line s =
     (let report = error filename (int linenum) ''readability/braces'' 5
            ''If an else has a brace on one side, it should have it on both''
      in if Searches rx_else_if line then
           (case Option.bind (py_find ''else if'' line) (py_find_from ''('' line) of
              None \<Rightarrow> Inr s
            | Some pos \<Rightarrow>
                if pos > 0 then
                  rbind (CloseExpression cl linenum pos) (\<lambda>(endline, _, endpos).
                    let brace_on_left = Searches rx_brace_else_if line;
                        brace_on_right = py_in ''{'' (py_from endline endpos)
                    in whenever (brace_on_left \<noteq> brace_on_right) report s)
                else Inr s)
         else whenever (Searches rx_brace_else line \<or> Matches rx_else_brace line) report s)"

text \<open>The line, from \<open>l\<close> on, with the first semicolon; on the first line only the text after \<open>pos\<close> counts.\<close>

fun semicolon_line :: "string list \<Rightarrow> int \<Rightarrow> nat list \<Rightarrow> nat option res" where
  "semicolon_line lines pos [] = Inr None"
| "semicolon_line lines pos (l # ls) =
     rbind (py_idx lines (int l)) (\<lambda>line.
       if py_in '';'' (py_from line pos) then Inr (Some l) else semicolon_line lines 0 ls)"

definition opens_block :: "CleansedLines \<Rightarrow> string \<times> nat \<times> int \<Rightarrow> bool res" where
  "opens_block cl close =
     (case close of (endline, endlinenum, endpos) \<Rightarrow>
        let rest = py_from endline endpos in
        if Matches rx_open_first rest then Inr True
        else if Matches rx_white_rest rest \<and> endlinenum + 1 < length (elided cl) then
          rbind (py_idx (elided cl) (int (endlinenum + 1))) (\<lambda>next_line. Inr (Matches rx_open_first next_line))
        else Inr False)"

definition check_body_end ::
  "string \<Rightarrow> CleansedLines \<Rightarrow> nat \<Rightarrow> error_fn \<Rightarrow> string \<Rightarrow> bool \<Rightarrow> nat \<Rightarrow> action" where
  "check_body_end filename cl linenum error line if_match endlinenum s =
     (let report = (\<lambda>message. error filename (int linenum) ''readability/braces'' 4 message)
      in rbind (py_idx (elided cl) (int endlinenum)) (\<lambda>endline.
           let endpos = (case py_find '';'' endline of Some p \<Rightarrow> int p | None \<Rightarrow> -1) in
           if \<not> Matches rx_body_end (py_from endline endpos) then
             whenever (\<not> Matches rx_lambda_body endline)
               (report ''If/else bodies with multiple statements require braces'') s
           else if endlinenum + 1 < length (elided cl) then
             rbind (py_idx (elided cl) (int (endlinenum + 1))) (\<lambda>next_line.
               if if_match \<and> Matches rx_else_word_first next_line \<and> GetIndentLevel next_line \<noteq> GetIndentLevel line then
                 report (''Else clause should be indented at the same level as if. '' @
                         ''Ambiguous nested if/else chains require braces.'') s
               else whenever (GetIndentLevel next_line > GetIndentLevel line)
                 (report ''If/else bodies with multiple statements require braces'') s)
           else Inr s))"

text \<open>\<open>head_end\<close> is where the condition, or the \<^verbatim>\<open>else\<close>, ends.\<close>

definition check_body ::
  "string \<Rightarrow> CleansedLines \<Rightarrow> nat \<Rightarrow> error_fn \<Rightarrow> string \<Rightarrow> string \<times> nat \<times> int \<Rightarrow> action" where
  "check_body filename cl linenum error line head_end s =
     rbind (opens_block cl head_end) (\<lambda>opens.
       if opens then Inr s
       else rbind (semicolon_line (elided cl) (snd (snd head_end)) [fst (snd head_end)..<length (elided cl)]) (\<lambda>found.
         case found of
           None \<Rightarrow> Inr s
         | Some endlinenum \<Rightarrow>
             check_body_end filename cl linenum error line (Searches rx_if_paren line) endlinenum s))"

definition check_single_body :: "string \<Rightarrow> CleansedLines \<Rightarrow> nat \<Rightarrow> error_fn \<Rightarrow> string \<Rightarrow> action" where
  "check_single_body filename cl linenum error line s =
     (case Search rx_if_or_else line of
        None \<Rightarrow> Inr s
      | Some if_else_match \<Rightarrow>
          if Matches rx_hash line then Inr s
          else case Search rx_if_paren line of
                 None \<Rightarrow> check_body filename cl linenum error line (line, linenum, int (m_end if_else_match)) s
               | Some if_match \<Rightarrow>
                   rbind (CloseExpression cl linenum (m_end if_match - 1)) (\<lambda>head_end.
                     check_body filename cl linenum error line head_end s))"

definition CheckBraces :: "string \<Rightarrow> CleansedLines \<Rightarrow> nat \<Rightarrow> error_fn \<Rightarrow> action" where
  "CheckBraces filename cl linenum error =
     on_line (elided cl) linenum (\<lambda>line. steps [
       check_brace_alone filename cl linenum error line,
       check_else_alone filename cl linenum error line,
       check_else_braces filename cl linenum error line,
       whenever (Searches rx_else_clause line \<and> \<not> Searches rx_else_if_word line)
         (error filename (int linenum) ''whitespace/newline'' 4
            ''Else clause should never be on same line as else (use 2 lines)''),
       whenever (Matches rx_do_clause line)
         (error filename (int linenum) ''whitespace/newline'' 4 ''do/while clauses should not be on a single line''),
       check_single_body filename cl linenum error line])"

subsection \<open>\<open>CheckTrailingSemicolon\<close>\<close>

definition rx_paren_brace :: rx where
  "rx_paren_brace = cats [Bol, Grp 1 (cats [any0, Lit '')'', sp0]), Lit ''{'']"

definition rx_macro_end :: rx where
  "rx_macro_end = cats [WordB, Grp 1 (cats [Set [Rg (CHR ''A'') (CHR ''Z''), Ch ''_''],
     star (Set [Rg (CHR ''A'') (CHR ''Z''), Rg (CHR ''0'') (CHR ''9''), Ch ''_''])]), sp0, Eol]"

definition rx_bracket_end :: rx where
  "rx_bracket_end = cats [Bol, Grp 1 (cats [any0, Lit '']'']), sp0, Eol]"

definition rx_index_operator :: rx where
  "rx_index_operator = cats [WordB, Lit ''operator'', sp0, Lit ''['', sp0, Lit '']'']"

definition rx_alignas_end :: rx where
  "rx_alignas_end = cats [WordB, alts [Lit ''struct'', Lit ''union''], sp1, Lit ''alignas'', sp0, Eol]"

definition rx_decltype_last :: rx where
  "rx_decltype_last = cats [WordB, Lit ''decltype'', Eol]"

definition rx_assign_end :: rx where
  "rx_assign_end = cats [sp1, Lit ''='', sp0, Eol]"

definition rx_lambda_line :: rx where
  "rx_lambda_line = cats [Lit '']'', sp0, Eol]"

definition rx_else_or_const :: rx where
  "rx_else_or_const = cats [Bol, Grp 1 (cats [any0, alts [Lit ''else'', cats [Lit '')'', sp0, Lit ''const'']], sp0]), Lit ''{'']"

definition rx_statement_end :: rx where
  "rx_statement_end = cats [Set [Ch '';{}''], sp0, Eol]"

definition rx_brace_first :: rx where
  "rx_brace_first = cats [Bol, Grp 1 sp0, Lit ''{'']"

definition rx_semicolon_first :: rx where
  "rx_semicolon_first = cats [Bol, sp0, Lit '';'']"

definition block_macros :: "string list" where
  "block_macros = [''TEST'', ''TEST_F'', ''MATCHER'', ''MATCHER_P'', ''TYPED_TEST'', ''EXCLUSIVE_LOCKS_REQUIRED'',
     ''SHARED_LOCKS_REQUIRED'', ''LOCKS_EXCLUDED'', ''INTERFACE_DEF'']"

text \<open>What stands before the parenthesis shows that the brace opens no block.\<close>

definition no_block_prefix :: "string \<Rightarrow> bool" where
  "no_block_prefix line_prefix \<longleftrightarrow>
     (case Search rx_macro_end line_prefix of None \<Rightarrow> False | Some macro \<Rightarrow> group macro 1 \<notin> set block_macros) \<or>
     (case Match rx_bracket_end line_prefix of None \<Rightarrow> False | Some func \<Rightarrow> \<not> Searches rx_index_operator (group func 1)) \<or>
     Searches rx_alignas_end line_prefix \<or> Searches rx_decltype_last line_prefix \<or> Searches rx_assign_end line_prefix"

text \<open>
  The first group of the first pattern ends in a parenthesis, so the search for one succeeds.  The result says where
  a brace opens a block that needs no semicolon after it, if there is such a brace on the line.
\<close>

definition block_brace :: "CleansedLines \<Rightarrow> nat \<Rightarrow> string \<Rightarrow> nat option res" where
  "block_brace cl linenum line =
     (case Match rx_paren_brace line of
        Some m \<Rightarrow>
          rbind (ReverseCloseExpression cl linenum (the (py_rfind CHR '')'' (group m 1)))) (\<lambda>(preceding, opening_line, opening_pos).
            if opening_pos > -1 \<and> no_block_prefix (take (nat opening_pos) preceding) then Inr None
            else if opening_line > 1 then
              rbind (py_idx (elided cl) (int opening_line - 1)) (\<lambda>previous.
                Inr (if Searches rx_lambda_line previous then None else Some (length (group m 1))))
            else Inr (Some (length (group m 1))))
      | None \<Rightarrow>
          (case Match rx_else_or_const line of
             Some m \<Rightarrow> Inr (Some (length (group m 1)))
           | None \<Rightarrow>
               rbind (GetPreviousNonBlankLine cl linenum) (\<lambda>(prevline, _).
                 Inr (if prevline \<noteq> [] \<and> Searches rx_statement_end prevline
                      then map_option (\<lambda>m. length (group m 1)) (Match rx_brace_first line) else None))))"

definition report_semicolon :: "string \<Rightarrow> CleansedLines \<Rightarrow> error_fn \<Rightarrow> nat \<Rightarrow> action" where
  "report_semicolon filename cl error endlinenum s =
     rbind (py_idx (raw_lines cl) (int endlinenum - 1)) (\<lambda>raw_before.
     rbind (ParseNolintSuppressions error filename raw_before (int endlinenum - 1) s) (\<lambda>s.
     rbind (py_idx (raw_lines cl) (int endlinenum)) (\<lambda>raw_line.
     rbind (ParseNolintSuppressions error filename raw_line (int endlinenum) s) (\<lambda>s.
       error filename (int endlinenum) ''readability/braces'' 4 (''You don'' @ [squote] @ ''t need a ; after a }'') s))))"

definition check_after_block :: "string \<Rightarrow> CleansedLines \<Rightarrow> nat \<Rightarrow> error_fn \<Rightarrow> nat \<Rightarrow> action" where
  "check_after_block filename cl linenum error pos s =
     rbind (CloseExpression cl linenum pos) (\<lambda>(endline, endlinenum, endpos).
       whenever (endpos > -1 \<and> Matches rx_semicolon_first (drop (nat endpos) endline))
         (report_semicolon filename cl error endlinenum) s)"

definition CheckTrailingSemicolon :: "string \<Rightarrow> CleansedLines \<Rightarrow> nat \<Rightarrow> error_fn \<Rightarrow> action" where
  "CheckTrailingSemicolon filename cl linenum error =
     on_line (elided cl) linenum (\<lambda>line s.
       rbind (block_brace cl linenum line) (\<lambda>brace.
         case brace of None \<Rightarrow> Inr s | Some pos \<Rightarrow> check_after_block filename cl linenum error pos s))"

subsection \<open>\<open>CheckEmptyBlockBody\<close>\<close>

definition rx_control_first :: rx where
  "rx_control_first = cats [sp0, Grp 1 (alts [Lit ''for'', Lit ''while'', Lit ''if'']), sp0, Lit ''('']"

definition rx_semicolon_here :: rx where
  "rx_semicolon_here = Lit '';''"

definition rx_brace_start :: rx where
  "rx_brace_start = cats [Bol, sp0, Lit ''{'']"

definition rx_not_white :: rx where
  "rx_not_white = cats [Bol, Look False (cats [sp0, Eol])]"

definition rx_else_start :: rx where
  "rx_else_start = cats [Bol, Look True (cats [sp0, Lit ''else''])]"

definition rx_white_or_else :: rx where
  "rx_white_or_else = alts [cats [Bol, sp0, Eol], cats [Bol, Look True (cats [sp0, Lit ''else''])]]"

definition EMPTY_CONDITIONAL_BODY_PATTERN :: rx where
  "EMPTY_CONDITIONAL_BODY_PATTERN = cats [Bol, sp0, Eol]"

text \<open>
  The search for the brace that opens the body: line number and the text that starts with it, \<open>None\<close> when
  something else comes first.  The last argument lists the numbers of the lines that follow.
\<close>

fun opening_brace :: "string list \<Rightarrow> nat \<Rightarrow> string \<Rightarrow> nat list \<Rightarrow> (nat \<times> string) option res" where
  "opening_brace lines l fragment following =
     (if Searches rx_brace_start fragment then Inr (Some (l, fragment))
      else if Searches rx_not_white fragment then Inr None
      else (case following of
              [] \<Rightarrow> Inr None
            | l' # ls \<Rightarrow> rbind (py_idx lines (int l')) (\<lambda>fragment'. opening_brace lines l' fragment' ls)))"

fun else_follows :: "string list \<Rightarrow> string \<Rightarrow> nat list \<Rightarrow> bool res" where
  "else_follows lines fragment following =
     (if \<not> Searches rx_white_or_else fragment then Inr False
      else if Searches rx_else_start fragment then Inr True
      else (case following of
              [] \<Rightarrow> Inr False
            | l # ls \<Rightarrow> rbind (py_idx lines (int l)) (\<lambda>fragment'. else_follows lines fragment' ls)))"

declare opening_brace.simps [simp del] else_follows.simps [simp del]

text \<open>The text between the braces; in a body of several lines, the rest of the first line character by character.\<close>

definition body_text :: "CleansedLines \<Rightarrow> nat \<Rightarrow> string \<Rightarrow> nat \<Rightarrow> nat \<Rightarrow> int \<Rightarrow> string res" where
  "body_text cl opening_linenum opening_line opening_pos closing_linenum closing_pos =
     (if closing_linenum > opening_linenum then
        rbind (py_idx (elided cl) (int closing_linenum)) (\<lambda>last_line.
          Inr (py_join [newline]
            (map (\<lambda>c. [c]) (drop (opening_pos + 1) opening_line) @
             drop (opening_linenum + 1) (take closing_linenum (raw_lines cl)) @
             [py_upto last_line (closing_pos - 1)])))
      else Inr (drop (opening_pos + 1) (py_upto opening_line (closing_pos - 1))))"

definition check_if_body ::
  "string \<Rightarrow> CleansedLines \<Rightarrow> error_fn \<Rightarrow> nat \<Rightarrow> nat \<Rightarrow> nat \<Rightarrow> action" where
  "check_if_body filename cl error end_linenum opening_linenum opening_pos s =
     rbind (py_idx (elided cl) (int opening_linenum)) (\<lambda>opening_line.
     rbind (CloseExpression cl opening_linenum opening_pos) (\<lambda>(closing_line, closing_linenum, closing_pos).
       if closing_pos < 0 then Inr s
       else rbind (py_idx (raw_lines cl) (int opening_linenum)) (\<lambda>raw.
         if raw \<noteq> CleanseComments raw then Inr s
         else rbind (body_text cl opening_linenum opening_line opening_pos closing_linenum closing_pos) (\<lambda>body.
           if \<not> Searches EMPTY_CONDITIONAL_BODY_PATTERN body then Inr s
           else rbind (else_follows (elided cl) (drop (nat closing_pos) closing_line)
                         [closing_linenum + 1..<length (elided cl)]) (\<lambda>has_else.
             whenever (\<not> has_else)
               (error filename (int end_linenum) ''whitespace/empty_if_body'' 4
                  ''If statement had no body and no else clause'') s)))))"

definition check_empty_if :: "string \<Rightarrow> CleansedLines \<Rightarrow> error_fn \<Rightarrow> string \<times> nat \<times> int \<Rightarrow> action" where
  "check_empty_if filename cl error condition_end s =
     (case condition_end of (end_line, end_linenum, end_pos) \<Rightarrow>
        rbind (opening_brace (elided cl) end_linenum (drop (nat end_pos) end_line) [end_linenum + 1..<length (elided cl)]) (\<lambda>brace.
          case brace of
            None \<Rightarrow> Inr s
          | Some (opening_linenum, fragment) \<Rightarrow>
              check_if_body filename cl error end_linenum opening_linenum
                (the (py_find ''{'' fragment) + (if opening_linenum = end_linenum then nat end_pos else 0)) s))"

definition check_condition_end ::
  "string \<Rightarrow> CleansedLines \<Rightarrow> error_fn \<Rightarrow> string \<Rightarrow> string \<times> nat \<times> int \<Rightarrow> action" where
  "check_condition_end filename cl error keyword condition_end =
     (let (end_line, end_linenum, end_pos) = condition_end
      in steps [
           whenever (end_pos \<ge> 0 \<and> Matches rx_semicolon_here (drop (nat end_pos) end_line))
             (if keyword = ''if'' then
                error filename (int end_linenum) ''whitespace/empty_conditional_body'' 5
                  ''Empty conditional bodies should use {}''
              else error filename (int end_linenum) ''whitespace/empty_loop_body'' 5
                  ''Empty loop bodies should use {} or continue''),
           whenever (end_pos \<ge> 0 \<and> keyword = ''if'') (check_empty_if filename cl error condition_end)])"

definition CheckEmptyBlockBody :: "string \<Rightarrow> CleansedLines \<Rightarrow> nat \<Rightarrow> error_fn \<Rightarrow> action" where
  "CheckEmptyBlockBody filename cl linenum error =
     on_line (elided cl) linenum (\<lambda>line s.
       case Match rx_control_first line of
         None \<Rightarrow> Inr s
       | Some matched \<Rightarrow>
           rbind (CloseExpression cl linenum (the (py_find ''('' line))) (\<lambda>condition_end.
             check_condition_end filename cl error (group matched 1) condition_end s))"

subsection \<open>Every check returns\<close>

lemma Searches_has: "needs w r \<Longrightarrow> Searches r s \<Longrightarrow> py_find w s \<noteq> None"
  using needs_no_Search py_find_None_iff by blast

lemma Matches_has: "needs w r \<Longrightarrow> Matches r s \<Longrightarrow> py_find w s \<noteq> None"
  using needs_no_Match py_find_None_iff by blast

lemma py_find_less: "py_find w s = Some p \<Longrightarrow> w \<noteq> [] \<Longrightarrow> p < length s"
  using py_find_bound [of w s p] by (cases w) auto

lemma py_rfind_less: "py_rfind c s = Some p \<Longrightarrow> p < length s"
  using py_find_less [of "[c]" "rev s"] by (auto simp: py_rfind_def)

lemma py_rfind_found: "c \<in> set s \<Longrightarrow> py_rfind c s \<noteq> None"
  using py_find_append [of "[c]"] by (auto simp: py_rfind_def dest!: split_list)

lemma GetPreviousNonBlankLine_lands:
  assumes "n \<le> length (elided cl)" shows "lands (\<lambda>_. True) (GetPreviousNonBlankLine cl n)"
proof -
  have f: "find_line P (elided cl) (rev [0..<n]) = Inr (List.find (\<lambda>i. P (elided cl ! i)) (rev [0..<n]))" for P
    using assms by (intro find_line_eq) auto
  have "i < length (elided cl)" if "List.find P (rev [0..<n]) = Some i" for P i
    using that assms by (auto simp: find_Some_iff rev_nth)
  then show ?thesis by (auto simp: GetPreviousNonBlankLine_def f split: option.split)
qed

lemma semicolon_line_lands:
  "\<forall>l \<in> set ls. l < length lines \<Longrightarrow> lands (\<lambda>r. \<forall>l. r = Some l \<longrightarrow> l < length lines) (semicolon_line lines p ls)"
  by (induction lines p ls rule: semicolon_line.induct) auto

lemma opens_block_lands: "lands (\<lambda>_. True) (opens_block cl close)"
  by (cases close) (simp add: opens_block_def Let_def del: of_nat_add of_nat_Suc)

lemma group_one_next:
  assumes "Match (cats (Bol # Grp 1 a # Lit [c] # rs)) line = Some m" "capfree a" "list_all capfree rs"
  shows "line ! length (group m 1) = c"
proof -
  have "list_all flat rs" using assms(3) by (auto simp: list_all_iff elim!: ballE intro: flat_capfree)
  with Match_layout [OF assms(1)] assms(2) obtain ws t where
    "list_all2 consumes (Bol # Grp 1 a # Lit [c] # rs) ws" "line = concat ws @ t" "m_caps m = caps_of (Bol # Grp 1 a # Lit [c] # rs) ws"
    by auto
  with assms(3) show ?thesis by (auto simp: list_all2_Cons1 grp_def caps_of_capfree)
qed

lemma block_brace_lands:
  assumes "lines_ok cl" "linenum < num_lines cl"
  shows "lands (\<lambda>r. \<forall>p. r = Some p \<longrightarrow> p < length (elided cl ! linenum) \<and> elided cl ! linenum ! p = CHR ''{'') (block_brace cl linenum (elided cl ! linenum))"
proof -
  let ?line = "elided cl ! linenum"
  have n: "length (elided cl) = num_lines cl" using assms(1) by (simp add: lines_ok_def)
  have first: "length (group m 1) < length ?line" "?line ! length (group m 1) = CHR ''{''"
    if "Match r ?line = Some m" "r \<in> {rx_paren_brace, rx_else_or_const, rx_brace_first}" for r m
    using that group_one_shorter [of _ "''{''" "[]" ?line m] group_one_next [of _ "CHR ''{''" "[]" ?line m]
    by (auto simp: rx_paren_brace_def rx_else_or_const_def rx_brace_first_def)
  show ?thesis
  proof (cases "Match rx_paren_brace ?line")
    case (Some m)
    from Match_layout [OF Some [unfolded rx_paren_brace_def]] obtain w where
      "group m 1 = w" "consumes (cats [any0, Lit '')'', sp0]) w" by (auto simp: list_all2_Cons1 grp_def)
    then have "CHR '')'' \<in> set (group m 1)" by (auto dest!: consumes_Cat)
    then obtain p where p: "py_rfind CHR '')'' (group m 1) = Some p" using py_rfind_found by blast
    with first(1) [OF Some] have "p < length ?line" by (auto dest: py_rfind_less)
    from ReverseCloseExpression_lands [OF assms this] obtain x l e where
      r: "ReverseCloseExpression cl linenum p = Inr (x, l, e)" "l \<le> linenum" by (auto simp: lands_def found_before_def)
    have "l > 1 \<Longrightarrow> \<exists>previous. py_idx (elided cl) (int l - 1) = Inr previous"
      using py_idx_returns [of "elided cl" "int l - 1"] r(2) n assms(2) by (auto simp: returns_def)
    with Some p r first [OF Some] show ?thesis by (auto simp: block_brace_def)
  next
    case None
    show ?thesis
    proof (cases "Match rx_else_or_const ?line")
      case (Some m)
      with None first [OF Some] show ?thesis by (simp add: block_brace_def)
    next
      case none: None
      from GetPreviousNonBlankLine_lands [of linenum cl] n assms(2) obtain prevline i where
        "GetPreviousNonBlankLine cl linenum = Inr (prevline, i)" by (auto simp: lands_def)
      with None none first show ?thesis by (auto simp: block_brace_def)
    qed
  qed
qed

lemma opening_brace_lands:
  "l < length lines \<Longrightarrow> sorted_wrt (<) (l # ls) \<Longrightarrow> \<forall>i \<in> set ls. i < length lines \<Longrightarrow>
   lands (\<lambda>r. \<forall>l' f. r = Some (l', f) \<longrightarrow> l' < length lines \<and> py_find ''{'' f \<noteq> None \<and>
       ((l' = l \<and> f = fragment) \<or> (l < l' \<and> f = lines ! l')))
     (opening_brace lines l fragment ls)"
proof (induction ls arbitrary: l fragment)
  case Nil
  then show ?case
    using Searches_has [of "''{''" rx_brace_start] by (subst opening_brace.simps) (auto simp: rx_brace_start_def)
next
  case (Cons i ls)
  then have "lands (\<lambda>r. \<forall>l' f. r = Some (l', f) \<longrightarrow> l' < length lines \<and> py_find ''{'' f \<noteq> None \<and>
       ((l' = i \<and> f = lines ! i) \<or> (i < l' \<and> f = lines ! l'))) (opening_brace lines i (lines ! i) ls)" by simp
  then have "lands (\<lambda>r. \<forall>l' f. r = Some (l', f) \<longrightarrow> l' < length lines \<and> py_find ''{'' f \<noteq> None \<and>
       ((l' = l \<and> f = fragment) \<or> (l < l' \<and> f = lines ! l'))) (opening_brace lines i (lines ! i) ls)"
    by (rule lands_mono) (use Cons.prems(2) in \<open>fastforce\<close>)
  then show ?case
    using Searches_has [of "''{''" rx_brace_start fragment] Cons.prems
    by (subst opening_brace.simps) (simp add: rx_brace_start_def)
qed

lemma else_follows_lands:
  "\<forall>i \<in> set ls. i < length lines \<Longrightarrow> lands (\<lambda>_. True) (else_follows lines fragment ls)"
  by (induction ls arbitrary: fragment) (subst else_follows.simps; simp)+

context suppressing_handler
begin

lemma CheckBraces_keeps:
  assumes "lines_ok cl" "linenum < num_lines cl"
  shows "keeps I (CheckBraces filename cl linenum error)"
proof -
  let ?line = "elided cl ! linenum"
  have n: "length (elided cl) = num_lines cl" using assms(1) by (simp add: lines_ok_def)
  from GetPreviousNonBlankLine_lands [of linenum cl] n assms(2) obtain prevline i where
    prev: "GetPreviousNonBlankLine cl linenum = Inr (prevline, i)" by (auto simp: lands_def)
  have 1: "keeps I (check_brace_alone filename cl linenum error ?line)" "keeps I (check_else_alone filename cl linenum error ?line)"
    by (auto intro!: keepsI lands_whenever error_lands simp: check_brace_alone_def check_else_alone_def prev)
  have 2: "keeps I (check_else_braces filename cl linenum error ?line)"
  proof (rule keepsI)
    fix s assume "I s"
    have "\<exists>r. CloseExpression cl linenum p = Inr r" if "py_find_from ''('' ?line k = Some p" for p k
    proof -
      from that have "p < length ?line" using py_find_bound [of "''(''" "drop k ?line"]
        by (auto simp: py_find_from_def split: if_splits)
      from CloseExpression_lands [OF assms this] show ?thesis by (auto simp: lands_def)
    qed
    with \<open>I s\<close> show "lands I (check_else_braces filename cl linenum error ?line s)"
      by (fastforce simp: check_else_braces_def Let_def bind_eq_Some_conv intro!: lands_whenever error_lands split: option.split)
  qed
  have 3: "keeps I (check_body_end filename cl linenum error ?line b l)" if "l < length (elided cl)" for b l
    using that by (auto intro!: keepsI lands_whenever error_lands simp: check_body_end_def Let_def simp del: of_nat_add of_nat_Suc)
  have body: "lands I (check_body filename cl linenum error ?line head_end s)" if "I s" for head_end s
    unfolding check_body_def
    by (intro lands_bind [OF opens_block_lands] lands_if lands_bind [OF semicolon_line_lands])
      (use that in \<open>auto intro: keeps_lands [OF 3] split: option.split\<close>)
  have 4: "keeps I (check_single_body filename cl linenum error ?line)"
  proof (rule keepsI)
    fix s assume s: "I s"
    have "lands I (rbind (CloseExpression cl linenum (m_end if_match - 1)) (\<lambda>head_end. check_body filename cl linenum error ?line head_end s))"
      if "Search rx_if_paren ?line = Some if_match" for if_match
    proof -
      have "py_find ''if'' ?line \<noteq> None" using that by (intro Searches_has) (auto simp: rx_if_paren_def Searches_def)
      then have "?line \<noteq> []" by auto
      moreover have "m_end if_match \<le> length ?line" using Search_text [OF that] by simp
      ultimately have "m_end if_match - 1 < length ?line" by (cases ?line) auto
      from CloseExpression_lands [OF assms this] show ?thesis by (rule lands_bind) (rule body [OF s])
    qed
    with s body [OF s] show "lands I (check_single_body filename cl linenum error ?line s)"
      by (auto simp: check_single_body_def split: option.split)
  qed
  from 1 2 4 n assms(2) show ?thesis
    unfolding CheckBraces_def by (auto intro!: keeps_intros error_keeps)
qed

lemma CheckTrailingSemicolon_keeps:
  assumes "copies_ok cl" "linenum < num_lines cl"
  shows "keeps I (CheckTrailingSemicolon filename cl linenum error)"
proof -
  note len = copies_okD [OF assms(1)]
  have nolint: "lands I (ParseNolintSuppressions error filename raw l s)" if "I s" for raw l s
    using ParseNolintSuppressions_keeps that by (rule keeps_lands)
  have report: "lands I (report_semicolon filename cl error l s)" if "I s" "l < num_lines cl" for l s
  proof -
    have "returns (py_idx (raw_lines cl) (int l - 1))" using len that(2) by (intro py_idx_returns) auto
    then obtain x where "py_idx (raw_lines cl) (int l - 1) = Inr x" by (auto simp: returns_def)
    moreover have "py_idx (raw_lines cl) (int l) = Inr (raw_lines cl ! l)" using len that(2) by simp
    ultimately show ?thesis using that(1)
      by (auto simp: report_semicolon_def intro!: lands_bind [OF nolint] error_lands)
  qed
  have "lands I (check_after_block filename cl linenum error pos s)" if "I s" "pos < length (elided cl ! linenum)" for pos s
    unfolding check_after_block_def
    by (rule lands_bind [OF CloseExpression_lands [OF len(1) assms(2) that(2)]])
      (use that report in \<open>auto simp: found_after_def intro!: lands_whenever\<close>)
  then have "keeps I (\<lambda>s. rbind (block_brace cl linenum (elided cl ! linenum)) (\<lambda>brace.
      case brace of None \<Rightarrow> Inr s | Some pos \<Rightarrow> check_after_block filename cl linenum error pos s))"
    by (intro keepsI lands_bind [OF block_brace_lands [OF len(1) assms(2)]]) (auto split: option.split)
  with len assms(2) show ?thesis unfolding CheckTrailingSemicolon_def by (intro keeps_on_line) auto
qed

lemma CheckEmptyBlockBody_keeps:
  assumes "copies_ok cl" "linenum < num_lines cl"
  shows "keeps I (CheckEmptyBlockBody filename cl linenum error)"
proof -
  note len = copies_okD [OF assms(1)]
  have body: "lands (\<lambda>_. True) (body_text cl l x p l' e)" if "l' < num_lines cl" for l x p l' e
    using that len by (simp add: body_text_def)
  have check: "lands I (check_if_body filename cl error l0 l p s)"
    if "I s" "l < num_lines cl" "p < length (elided cl ! l)" for l0 l p s
  proof -
    have ix: "py_idx (elided cl) (int l) = Inr (elided cl ! l)" "py_idx (raw_lines cl) (int l) = Inr (raw_lines cl ! l)"
      using len that(2) by simp_all
    show ?thesis
      unfolding check_if_body_def ix rbind_simps
      by (rule lands_bind [OF CloseExpression_lands [OF len(1) that(2,3)]])
        (use that(1) in \<open>auto simp: found_after_def intro!: lands_bind [OF body] lands_bind [OF else_follows_lands] lands_whenever error_lands\<close>)
  qed
  have empty: "lands I (check_empty_if filename cl error condition_end s)"
    if "I s" "found_after cl linenum condition_end" "snd (snd condition_end) \<ge> 0" for condition_end s
  proof -
    obtain x l e where c: "condition_end = (x, l, e)" by (cases condition_end)
    with that(2,3) have l: "l < num_lines cl" "x = elided cl ! l" "0 < e" "e \<le> int (length x)" by (auto simp: found_after_def)
    have "l < length (elided cl)" "sorted_wrt (<) (l # [l + 1..<length (elided cl)])"
      "\<forall>i \<in> set [l + 1..<length (elided cl)]. i < length (elided cl)" using l(1) len by auto
    from opening_brace_lands [OF this, of "drop (nat e) x"]
    show ?thesis
      unfolding check_empty_if_def c prod.case
    proof (rule lands_bind)
      fix brace
      assume o: "\<forall>l' f. brace = Some (l', f) \<longrightarrow> l' < length (elided cl) \<and> py_find ''{'' f \<noteq> None \<and>
         ((l' = l \<and> f = drop (nat e) x) \<or> (l < l' \<and> f = elided cl ! l'))"
      show "lands I (case brace of None \<Rightarrow> Inr s | Some (l', fragment) \<Rightarrow>
          check_if_body filename cl error l l' (the (py_find ''{'' fragment) + (if l' = l then nat e else 0)) s)"
      proof (cases brace)
        case (Some lf)
        obtain l' f where lf: "lf = (l', f)" by (cases lf)
        with o Some obtain p where p: "l' < num_lines cl" "py_find ''{'' f = Some p"
          "(l' = l \<and> f = drop (nat e) x) \<or> (l < l' \<and> f = elided cl ! l')" using len by auto
        from py_find_less [OF p(2)] p(3) l have "p + (if l' = l then nat e else 0) < length (elided cl ! l')" by auto
        with check [OF that(1) p(1) this] Some lf p(2) show ?thesis by simp
      qed (use that(1) in simp)
    qed
  qed
  have final: "lands I (check_condition_end filename cl error keyword condition_end s)"
    if "I s" "found_after cl linenum condition_end" for keyword condition_end s
  proof -
    have "keeps I (check_empty_if filename cl error condition_end)" if "snd (snd condition_end) \<ge> 0"
      using that empty \<open>found_after cl linenum condition_end\<close> by (intro keepsI) auto
    then have "keeps I (check_condition_end filename cl error keyword condition_end)"
      by (cases condition_end) (auto simp: check_condition_end_def intro!: keeps_intros error_keeps)
    then show ?thesis using that(1) by (rule keeps_lands)
  qed
  let ?line = "elided cl ! linenum"
  have "keeps I (\<lambda>s. case Match rx_control_first ?line of None \<Rightarrow> Inr s | Some matched \<Rightarrow>
      rbind (CloseExpression cl linenum (the (py_find ''('' ?line)))
        (\<lambda>condition_end. check_condition_end filename cl error (group matched 1) condition_end s))"
  proof (cases "Match rx_control_first ?line")
    case (Some m)
    then have "py_find ''('' ?line \<noteq> None" by (intro Matches_has) (auto simp: rx_control_first_def Matches_def)
    then have "the (py_find ''('' ?line) < length ?line" using py_find_less by auto
    from CloseExpression_lands [OF len(1) assms(2) this] Some show ?thesis
      by (auto intro!: keepsI lands_bind [where Q = "found_after cl linenum"] final)
  qed (simp add: keeps_intros)
  with len assms(2) show ?thesis unfolding CheckEmptyBlockBody_def by (intro keeps_on_line) auto
qed

end

subsection \<open>Properties\<close>


definition double_semicolon :: CleansedLines where
  "double_semicolon = (let ls = [''while (x) {'', ''  f();'', ''};'']
     in \<lparr>elided = ls, cl_lines = ls, raw_lines = ls, lines_without_raw_strings = ls, num_lines = 3\<rparr>)"


end
