(* ===== verification/Style.thy ===== *)
theory Style
  imports Braces Constructs Check_Macros Header_Guard
begin

section \<open>The style checks of a line\<close>

text \<open>
  \<open>CheckStyle\<close> of \<^verbatim>\<open>src/cpplint.py\<close>: its own checks of tabs, indentation, trailing white space, line length and
  commands per line, and the checks that it calls, in the order in which it calls them.
\<close>

definition rx_scope_or_label :: rx where
  "rx_scope_or_label = cats [sp0, wd1, sp0, Lit '':'', sp0, opt (Lit [backslash]), Eol]"

definition rx_continues :: rx where
  "rx_continues = cats [Set [Ch [dquote], Ch '',=><''], star (Lit '' ''), Eol]"

definition rx_raw_string_line :: rx where
  "rx_raw_string_line = cats [Bol, sp0, Lit [dquote, dquote]]"

definition rx_url_line :: rx where
  "rx_url_line = cats [Bol, sp0, Lit ''//'', any0, Lit ''http'', Grp 1 (opt (Lit ''s'')), Lit ''://'', star (Set [NSp]), Eol]"

definition rx_one_word_comment :: rx where
  "rx_one_word_comment = cats [Bol, sp0, Lit ''//'', sp0, star (NSet [Sp]), Eol]"

definition rx_id_line :: rx where
  "rx_id_line = cats [Bol, Lit ''// $Id:'', any0, Lit ''#'', plus1 (Set [Rg (CHR ''0'') (CHR ''9'')]), Lit '' $'', Eol]"

definition initial_spaces :: "string \<Rightarrow> nat" where
  "initial_spaces line = length (takeWhile (\<lambda>c. c = CHR '' '') line)"

definition check_indent :: "string \<Rightarrow> CleansedLines \<Rightarrow> nat \<Rightarrow> error_fn \<Rightarrow> string \<Rightarrow> string \<Rightarrow> string \<Rightarrow> action" where
  "check_indent filename cl linenum error prev line cleansed_line s =
     (if Searches rx_continues prev \<or> initial_spaces line \<notin> {1, 3} \<or> Matches rx_scope_or_label cleansed_line then Inr s
      else rbind (py_idx (raw_lines cl) (int linenum)) (\<lambda>raw.
        whenever (\<not> (raw \<noteq> line \<and> Matches rx_raw_string_line line))
          (error filename (int linenum) ''whitespace/indent'' 3
             (''Weird number of spaces at line-start.  '' @ ''Are you using a 2-space indent?'')) s))"

definition is_header_guard :: "env \<Rightarrow> (string \<Rightarrow> rx) \<Rightarrow> string \<Rightarrow> string \<Rightarrow> string \<Rightarrow> lint \<Rightarrow> bool res" where
  "is_header_guard env compile filename file_extension line s =
     (if file_extension = ''h'' then
        rbind (GetHeaderGuardCPPVariable env compile filename s) (\<lambda>cppvar.
          Inr (py_startswith line (''#ifndef '' @ cppvar) \<or> py_startswith line (''#define '' @ cppvar) \<or>
               py_startswith line (''#endif  // '' @ cppvar)))
      else Inr False)"

definition check_line_length ::
  "env \<Rightarrow> (string \<Rightarrow> rx) \<Rightarrow> string \<Rightarrow> nat \<Rightarrow> string \<Rightarrow> error_fn \<Rightarrow> string \<Rightarrow> action" where
  "check_line_length env compile filename linenum file_extension error line s =
     rbind (is_header_guard env compile filename file_extension line s) (\<lambda>guard.
       whenever (\<not> py_startswith line ''#include'' \<and> \<not> guard \<and> \<not> Matches rx_url_line line \<and>
                 \<not> Matches rx_one_word_comment line \<and> \<not> Matches rx_id_line line \<and>
                 int (GetLineWidth line) > line_length s)
         (error filename (int linenum) ''whitespace/line_length'' 2
            (''Lines should be <= '' @ int_str (line_length s) @ '' characters long'')) s)"

definition check_one_command :: "string \<Rightarrow> CleansedLines \<Rightarrow> nat \<Rightarrow> error_fn \<Rightarrow> string \<Rightarrow> action" where
  "check_one_command filename cl linenum error cleansed_line s =
     (if py_count '';'' cleansed_line > 1 \<and> \<not> py_in ''for'' cleansed_line then
        rbind (GetPreviousNonBlankLine cl linenum) (\<lambda>(prevline, _).
          whenever ((\<not> py_in ''for'' prevline \<or> py_in '';'' prevline) \<and>
                    \<not> ((py_in ''case '' cleansed_line \<or> py_in ''default:'' cleansed_line) \<and> py_in ''break;'' cleansed_line))
            (error filename (int linenum) ''whitespace/newline'' 0 ''More than one command on the same line'') s)
      else Inr s)"

definition check_line_layout ::
  "env \<Rightarrow> (string \<Rightarrow> rx) \<Rightarrow> string \<Rightarrow> CleansedLines \<Rightarrow> nat \<Rightarrow> string \<Rightarrow> error_fn \<Rightarrow>
   string \<Rightarrow> string \<Rightarrow> string \<Rightarrow> action" where
  "check_line_layout env compile filename cl linenum file_extension error prev line cleansed_line = steps [
     whenever (py_in [CHR 0x09] line)
       (error filename (int linenum) ''whitespace/tab'' 1 ''Tab found; better to use spaces''),
     check_indent filename cl linenum error prev line cleansed_line,
     whenever (line \<noteq> [] \<and> py_isspace [last line])
       (error filename (int linenum) ''whitespace/end_of_line'' 4
          ''Line ends in whitespace.  Consider deleting these extra spaces.''),
     check_line_length env compile filename linenum file_extension error line,
     check_one_command filename cl linenum error cleansed_line]"

definition check_sections :: "string \<Rightarrow> CleansedLines \<Rightarrow> nat \<Rightarrow> NestingState \<Rightarrow> error_fn \<Rightarrow> action" where
  "check_sections filename cl linenum nesting_state error =
     (case InnermostClass nesting_state of
        None \<Rightarrow> Inr
      | Some b \<Rightarrow>
          (case kind b of
             Class_Block c \<Rightarrow> CheckSectionSpacing filename cl b c linenum error
           | _ \<Rightarrow> Inr))"

definition more_style_checks :: "string \<Rightarrow> CleansedLines \<Rightarrow> nat \<Rightarrow> NestingState \<Rightarrow> error_fn \<Rightarrow> action" where
  "more_style_checks filename cl linenum nesting_state error = steps [
     CheckBraces filename cl linenum error,
     CheckTrailingSemicolon filename cl linenum error,
     CheckEmptyBlockBody filename cl linenum error,
     CheckAccess filename cl linenum nesting_state error,
     CheckSpacing filename cl linenum nesting_state error,
     CheckOperatorSpacing filename cl linenum error,
     CheckParenthesisSpacing filename cl linenum error,
     CheckCommaSpacing filename cl linenum error,
     CheckBracesSpacing filename cl linenum nesting_state error,
     CheckSpacingForFunctionCall filename cl linenum error,
     CheckCheck filename cl linenum error,
     CheckAltTokens filename cl linenum error,
     check_sections filename cl linenum nesting_state error]"

definition CheckStyle ::
  "env \<Rightarrow> (string \<Rightarrow> rx) \<Rightarrow> string \<Rightarrow> CleansedLines \<Rightarrow> nat \<Rightarrow> string \<Rightarrow> NestingState \<Rightarrow> error_fn \<Rightarrow> action" where
  "CheckStyle env compile filename cl linenum file_extension nesting_state error s =
     rbind (py_idx (lines_without_raw_strings cl) (int linenum)) (\<lambda>line.
     rbind (if linenum > 0 then py_idx (lines_without_raw_strings cl) (int linenum - 1) else Inr []) (\<lambda>prev.
     rbind (py_idx (elided cl) (int linenum)) (\<lambda>cleansed_line.
       andthen (check_line_layout env compile filename cl linenum file_extension error prev line cleansed_line)
         (more_style_checks filename cl linenum nesting_state error) s)))"

subsection \<open>Every check returns\<close>

lemma InnermostClass_in: "InnermostClass ns = Some b \<Longrightarrow> b \<in> set (stack ns)"
  by (auto simp: InnermostClass_def find_Some_iff)

text \<open>What the pass over the lines knows of the file and of the blocks around a line.\<close>

definition line_ok :: "CleansedLines \<Rightarrow> nat \<Rightarrow> NestingState \<Rightarrow> bool" where
  "line_ok cl linenum ns \<longleftrightarrow> copies_ok cl \<and> linenum < num_lines cl \<and> (\<forall>l \<in> set (elided cl). newline \<notin> set l) \<and>
     (\<forall>b \<in> set (stack ns). starting_linenum b < num_lines cl)"

context suppressing_handler
begin

lemma more_style_checks_keep:
  assumes "line_ok cl linenum ns"
  shows "keeps I (more_style_checks filename cl linenum ns error)"
proof -
  from assms have ok: "copies_ok cl" "linenum < num_lines cl" "\<forall>l \<in> set (elided cl). newline \<notin> set l"
    "\<forall>b \<in> set (stack ns). starting_linenum b < num_lines cl" by (auto simp: line_ok_def)
  note len = copies_okD [OF ok(1)]
  have n: "linenum < length (elided cl)" "newline \<notin> set (elided cl ! linenum)" using len ok(2,3) by simp_all
  have "keeps I (check_sections filename cl linenum ns error)"
    using CheckSectionSpacing_keeps [OF ok(1,2)]
    by (auto simp: check_sections_def intro: keeps_intros split: option.split block_kind.split)
  then show ?thesis
    unfolding more_style_checks_def
    using CheckBraces_keeps [OF len(1) ok(2)] CheckTrailingSemicolon_keeps [OF ok(1,2)] CheckEmptyBlockBody_keeps [OF ok(1,2)]
      CheckAccess_keeps [OF n(1)] CheckSpacing_keeps [OF ok(1,2)] CheckOperatorSpacing_keeps [OF len(1) ok(2) n(2)]
      CheckParenthesisSpacing_keeps [OF n(1)] CheckCommaSpacing_keeps [OF ok(1,2)] CheckBracesSpacing_keeps [OF len(1) ok(2,4)]
      CheckSpacingForFunctionCall_keeps [OF n(1)] CheckCheck_keeps [OF len(1) ok(2,3)] CheckAltTokens_keeps [OF len(1) ok(2)]
    by (intro keeps_steps) simp
qed

lemma check_line_layout_lands:
  assumes "copies_ok cl" "linenum < num_lines cl" "I s"
    and guard: "\<And>s. I s \<Longrightarrow> file_extension = ''h'' \<Longrightarrow> returns (GetHeaderGuardCPPVariable env compile filename s)"
  shows "lands I (check_line_layout env compile filename cl linenum file_extension error prev line cleansed_line s)"
proof -
  note len = copies_okD [OF assms(1)]
  have "keeps I (check_indent filename cl linenum error prev line cleansed_line)"
    using len assms(2) by (auto simp: check_indent_def intro!: keepsI lands_whenever error_lands)
  moreover have "keeps I (check_line_length env compile filename linenum file_extension error line)"
  proof (rule keepsI)
    fix s assume "I s"
    then have "returns (is_header_guard env compile filename file_extension line s)"
      using guard [of s] by (auto simp: is_header_guard_def returns_def rbind_Inr_iff)
    with \<open>I s\<close> show "lands I (check_line_length env compile filename linenum file_extension error line s)"
      by (auto simp: check_line_length_def returns_def intro!: lands_whenever error_lands)
  qed
  moreover obtain prevline i where "GetPreviousNonBlankLine cl linenum = Inr (prevline, i)"
    using GetPreviousNonBlankLine_lands [of linenum cl] len assms(2) by (auto simp: lands_def)
  then have "keeps I (check_one_command filename cl linenum error cleansed_line)"
    by (auto simp: check_one_command_def intro!: keepsI lands_whenever error_lands)
  ultimately have "keeps I (check_line_layout env compile filename cl linenum file_extension error prev line cleansed_line)"
    unfolding check_line_layout_def by (intro keeps_steps) (simp add: keeps_whenever error_keeps)
  then show ?thesis using assms(3) by (rule keeps_lands)
qed

lemma CheckStyle_keeps:
  assumes "line_ok cl linenum ns"
    and guard: "\<And>s. I s \<Longrightarrow> file_extension = ''h'' \<Longrightarrow> returns (GetHeaderGuardCPPVariable env compile filename s)"
  shows "keeps I (CheckStyle env compile filename cl linenum file_extension ns error)"
proof (rule keepsI)
  fix s assume s: "I s"
  from assms(1) have ok: "copies_ok cl" "linenum < num_lines cl" by (auto simp: line_ok_def)
  note len = copies_okD [OF ok(1)]
  have "\<exists>prev. (if linenum > 0 then py_idx (lines_without_raw_strings cl) (int linenum - 1) else Inr []) = Inr prev"
    using py_idx_returns [of "lines_without_raw_strings cl" "int linenum - 1"] len ok(2) by (auto simp: returns_def)
  then obtain prev where p: "(if linenum > 0 then py_idx (lines_without_raw_strings cl) (int linenum - 1) else Inr []) = Inr prev" ..
  have ix: "py_idx (lines_without_raw_strings cl) (int linenum) = Inr (lines_without_raw_strings cl ! linenum)"
    "py_idx (elided cl) (int linenum) = Inr (elided cl ! linenum)" using len ok(2) by simp_all
  show "lands I (CheckStyle env compile filename cl linenum file_extension ns error s)"
    unfolding CheckStyle_def ix rbind_simps p andthen_def
    by (rule lands_bind [OF check_line_layout_lands [OF ok s guard]])
      (auto intro: keeps_lands [OF more_style_checks_keep [OF assms(1)]])
qed

end

end
