(* ===== verification/Casts.thy ===== *)
theory Casts
  imports Braces
begin

section \<open>Casts\<close>

text \<open>
  \<open>ExpectingFunctionArgs\<close>, \<open>CheckCStyleCast\<close> and \<open>CheckCasts\<close> of \<^verbatim>\<open>src/cpplint.py\<close>.
\<close>

subsection \<open>Patterns\<close>

abbreviation digits1 :: rx where "digits1 \<equiv> plus1 (Set [Dg])"

definition rx_mock_method :: rx where
  "rx_mock_method = cats [Bol, sp0, Lit ''MOCK_'', opt (Grp 1 (Lit ''CONST_'')), Lit ''METHOD'', digits1,
     opt (Grp 2 (Lit ''_T'')), Lit ''('']"

definition rx_mock_name_line :: rx where
  "rx_mock_name_line = cats [Bol, sp0, Lit ''MOCK_'', opt (Lit ''CONST_''), Lit ''METHOD'', digits1,
     opt (Lit ''_T''), Lit ''('', opt (cats [plus1 (Set [NSp]), Lit '','']), sp0, Eol]"

definition rx_mock_open_line :: rx where
  "rx_mock_open_line = cats [Bol, sp0, Lit ''MOCK_'', opt (Lit ''CONST_''), Lit ''METHOD'', digits1,
     opt (Lit ''_T''), Lit ''('', sp0, Eol]"

definition rx_std_function :: rx where
  "rx_std_function = cats [WordB, Lit ''std::'', opt (Lit ''m''), Lit ''function'', sp0, Lit ''<'', sp0, Eol]"

definition rx_keyword_before :: rx where
  "rx_keyword_before = cats [any0, WordB,
     alts [Lit ''sizeof'', Lit ''alignof'', Lit ''alignas'',
       cats [Set [Ch ''_'', Rg CHR ''A'' CHR ''Z''], star (Set [Ch ''_'', Rg CHR ''A'' CHR ''Z'', Rg CHR ''0'' CHR ''9''])]],
     sp0, Eol]"

definition rx_inside_macro :: rx where
  "rx_inside_macro = cats [any0, WordB, Set [Ch ''_'', Rg CHR ''A'' CHR ''Z''],
     star (Set [Ch ''_'', Rg CHR ''A'' CHR ''Z'', Rg CHR ''0'' CHR ''9'']), sp0, Lit ''('',
     star (alts [cats [Lit ''('', star (NSet [Ch ''()'']), Lit '')''], NSet [Ch ''()'']]), Eol]"

definition rx_unnamed_argument :: rx where
  "rx_unnamed_argument = cats [Bol, sp0,
     alts [Lit '';'', cats [Lit ''const'', WordB], cats [Lit ''throw'', WordB], cats [Lit ''final'', WordB],
       cats [Lit ''override'', WordB], Set [Ch ''=>{),''], Lit ''->'']]"

definition rx_basic_type_cast :: rx where
  "rx_basic_type_cast = cats [Lit ''('',
     Grp 1 (alts [Lit ''int'', Lit ''float'', Lit ''double'', Lit ''bool'', Lit ''char'',
       cats [opt (Lit ''u''), Lit ''int'', Grp 2 (alts [Lit ''16'', Lit ''32'', Lit ''64'']), Lit ''_t''], Lit ''size_t'']),
     Lit '')'']"

definition rx_string_cast :: rx where
  "rx_string_cast = cats [Lit ''('', Grp 1 (cats [Lit ''char'', opt (Set [Sp]), plus1 (Lit ''*''), opt (Set [Sp])]),
     Lit '')'', sp0, Lit [dquote]]"

definition rx_pointer_cast :: rx where
  "rx_pointer_cast = cats [Lit ''('', Grp 1 (cats [wd1, opt (Set [Sp]), plus1 (Lit ''*''), opt (Set [Sp])]), Lit '')'']"

definition rx_function_cast :: rx where
  "rx_function_cast = cats [
     opt (Grp 1 (alts [cats [WordB, Lit ''new'', sp1, opt (cats [Lit ''const'', sp1])],
       cats [Set [NSp], Lit ''<'', sp0, opt (cats [Lit ''const'', sp1])]])),
     WordB,
     Grp 2 (alts [Lit ''int'', Lit ''float'', Lit ''double'', Lit ''bool'', Lit ''char'', Lit ''int32'', Lit ''uint32'',
       Lit ''int64'', Lit ''uint64'']),
     Grp 3 (cats [Lit ''('', NSet [Ch '')''], any0])]"

definition rx_array_after :: rx where
  "rx_array_after = cats [Lit ''('', plus1 (NSet [Ch ''()'']), Lit '')'', sp0, Lit ''['']"

definition rx_function_pointer_after :: rx where
  "rx_function_pointer_after = cats [Lit ''('', opt (cats [plus1 (NSet [Ch ''() '']), Lit ''::'', sp0, Lit ''*'', sp0]),
     plus1 (NSet [Ch ''() '']), Lit '')'', sp0, Lit ''('']"

definition rx_alias_of :: "string \<Rightarrow> rx" where
  "rx_alias_of matched_type = cats [sp0, Lit ''using'', sp1, plus1 (Set [NSp]), sp0, Lit ''='', sp0, Lit matched_type]"

definition rx_placement_new :: "string \<Rightarrow> rx" where
  "rx_placement_new matched_type = cats [Lit ''new('', plus1 (Set [NSp]), Lit '')'', sp0, Lit matched_type]"

definition cast_names :: rx where
  "cast_names = alts [Lit ''static'', Lit ''dynamic'', Lit ''down'', Lit ''reinterpret'']"

definition rx_address_of_cast :: rx where
  "rx_address_of_cast = alts [
     cats [NSet [Wd], Lit ''&('', Grp 1 (cats [NSet [Ch '')*''], star (NSet [Ch '')''])]), Lit '')'', Set [Wd, Ch ''('']],
     cats [NSet [Wd], Lit ''&'', Grp 2 cast_names, Lit ''_cast'', WordB]]"

definition rx_address_of_named_cast :: rx where
  "rx_address_of_named_cast = cats [Bol, Grp 1 (cats [any0, Lit ''&'', cast_names, Lit ''_cast'', WordB]), Lit ''<'']"

definition rx_dereference :: rx where
  "rx_dereference = cats [sp0, alts [Lit ''->'', Lit ''['']]"

subsection \<open>The checks\<close>

definition ExpectingFunctionArgs :: "CleansedLines \<Rightarrow> nat \<Rightarrow> bool res" where
  "ExpectingFunctionArgs cl linenum =
     rbind (py_idx (elided cl) (int linenum)) (\<lambda>line.
       if Matches rx_mock_method line then Inr True
       else if linenum < 2 then Inr False
       else rbind (py_idx (elided cl) (int linenum - 1)) (\<lambda>one_up.
            rbind (py_idx (elided cl) (int linenum - 2)) (\<lambda>two_up.
              Inr (Matches rx_mock_name_line one_up \<or> Matches rx_mock_open_line two_up \<or> Searches rx_std_function one_up))))"

text \<open>
  Group 1 of the pattern starts behind its first character, so that \<^verbatim>\<open>match.start(1) - 1\<close> is the start of
  the match.  The result says whether an error was emitted.
\<close>

definition CheckCStyleCast ::
  "string \<Rightarrow> CleansedLines \<Rightarrow> nat \<Rightarrow> string \<Rightarrow> rx \<Rightarrow> error_fn \<Rightarrow> lint \<Rightarrow> (bool \<times> lint) res" where
  "CheckCStyleCast filename cl linenum cast_type pattern error s =
     rbind (py_idx (elided cl) (int linenum)) (\<lambda>line.
       case Search pattern line of
         None \<Rightarrow> Inr (False, s)
       | Some m \<Rightarrow>
           let context0 = take (m_start m) line in
           if Matches rx_keyword_before context0 then Inr (False, s)
           else rbind (rmap (\<lambda>i. py_idx (elided cl) (int i)) (down_to linenum (linenum - 5))) (\<lambda>preceding.
             let context1 = concat (rev preceding) @ context0 in
             if Matches rx_inside_macro context1 \<or>
                py_endswith context1 '' operator++'' \<or> py_endswith context1 '' operator--'' \<or>
                Matches rx_unnamed_argument (drop (m_end m) line)
             then Inr (False, s)
             else rbind (error filename (int linenum) ''readability/casting'' 4
                    (''Using C-style cast.  Use '' @ cast_type @ ''<'' @ group m 1 @ ''>(...) instead'') s)
                  (\<lambda>s. Inr (True, s))))"

definition c_style_cast :: "string \<Rightarrow> CleansedLines \<Rightarrow> nat \<Rightarrow> string \<Rightarrow> rx \<Rightarrow> error_fn \<Rightarrow> action" where
  "c_style_cast filename cl linenum cast_type pattern error s =
     rbind (CheckCStyleCast filename cl linenum cast_type pattern error s) (\<lambda>(_, s). Inr s)"

definition check_pointer_casts :: "string \<Rightarrow> CleansedLines \<Rightarrow> nat \<Rightarrow> error_fn \<Rightarrow> action" where
  "check_pointer_casts filename cl linenum error s =
     rbind (CheckCStyleCast filename cl linenum ''const_cast'' rx_string_cast error s) (\<lambda>(found, s).
       whenever (\<not> found) (c_style_cast filename cl linenum ''reinterpret_cast'' rx_pointer_cast error) s)"

text \<open>The report on a function-style cast of a basic type, for the groups of its match.\<close>

definition check_function_cast :: "string \<Rightarrow> nat \<Rightarrow> error_fn \<Rightarrow> string \<Rightarrow> pmatch \<Rightarrow> action" where
  "check_function_cast filename linenum error line m =
     (let matched_type = group m 2; matched_funcptr = group m 3 in
      whenever (grp m 1 = None \<and>
          \<not> (matched_funcptr \<noteq> [] \<and>
             (Matches rx_function_pointer_after matched_funcptr \<or> py_startswith matched_funcptr ''(*)'')) \<and>
          \<not> Matches (rx_alias_of matched_type) line \<and> \<not> Searches (rx_placement_new matched_type) line)
        (error filename (int linenum) ''readability/casting'' 4
           (''Using deprecated casting style.  Use static_cast<'' @ matched_type @ ''>(...) instead'')))"

text \<open>Whether the address is taken of something that the cast pointer points to.\<close>

definition parenthesis_error :: "CleansedLines \<Rightarrow> nat \<Rightarrow> string \<Rightarrow> bool res" where
  "parenthesis_error cl linenum line =
     (case Match rx_address_of_named_cast line of
        None \<Rightarrow> Inr False
      | Some m \<Rightarrow>
          rbind (CloseExpression cl linenum (length (group m 1))) (\<lambda>(_, y1, x1).
            if x1 < 0 then Inr False
            else rbind (py_idx (elided cl) (int y1)) (\<lambda>l1. rbind (py_idx l1 x1) (\<lambda>c.
              if c \<noteq> CHR ''('' then Inr False
              else rbind (CloseExpression cl y1 (nat x1)) (\<lambda>(_, y2, x2).
                if x2 < 0 then Inr False
                else rbind (py_idx (elided cl) (int y2)) (\<lambda>l2.
                     rbind (if int y2 < int (NumLines cl) - 1 then py_idx (elided cl) (int y2 + 1) else Inr []) (\<lambda>next_line.
                       Inr (Matches rx_dereference (drop (nat x2) l2 @ next_line)))))))))"

definition check_address_of_cast :: "string \<Rightarrow> CleansedLines \<Rightarrow> nat \<Rightarrow> error_fn \<Rightarrow> string \<Rightarrow> action" where
  "check_address_of_cast filename cl linenum error line s =
     (if \<not> Searches rx_address_of_cast line then Inr s
      else rbind (parenthesis_error cl linenum line) (\<lambda>dereferenced.
        if dereferenced then
          error filename (int linenum) ''readability/casting'' 4
            (''Are you taking an address of something dereferenced '' @
             ''from a cast?  Wrapping the dereferenced expression in '' @
             ''parentheses will make the binding more obvious'') s
        else
          error filename (int linenum) ''runtime/casting'' 4
            (''Are you taking an address of a cast?  '' @
             ''This is dangerous: could be a temp var.  '' @
             ''Take the address before doing the cast, rather than after'') s))"

definition CheckCasts :: "string \<Rightarrow> CleansedLines \<Rightarrow> nat \<Rightarrow> error_fn \<Rightarrow> action" where
  "CheckCasts filename cl linenum error s =
     rbind (py_idx (elided cl) (int linenum)) (\<lambda>line.
     rbind (ExpectingFunctionArgs cl linenum) (\<lambda>expecting_function.
       let m = Search rx_function_cast line; is_cast = (m \<noteq> None \<and> \<not> expecting_function) in
       if is_cast \<and> Matches rx_array_after (group (the m) 3) then Inr s
       else steps [
         whenever is_cast (check_function_cast filename linenum error line (the m)),
         whenever (\<not> expecting_function) (c_style_cast filename cl linenum ''static_cast'' rx_basic_type_cast error),
         check_pointer_casts filename cl linenum error,
         check_address_of_cast filename cl linenum error line] s))"

text \<open>The same with the groups taken only from a match that there is, for evaluation.\<close>

lemma CheckCasts_code [code]:
  "CheckCasts filename cl linenum error s =
     rbind (py_idx (elided cl) (int linenum)) (\<lambda>line.
     rbind (ExpectingFunctionArgs cl linenum) (\<lambda>expecting_function.
       let m = Search rx_function_cast line; is_cast = (m \<noteq> None \<and> \<not> expecting_function) in
       if is_cast \<and> Matches rx_array_after (group (the m) 3) then Inr s
       else steps [
         (case m of None \<Rightarrow> Inr | Some m \<Rightarrow> whenever (\<not> expecting_function) (check_function_cast filename linenum error line m)),
         whenever (\<not> expecting_function) (c_style_cast filename cl linenum ''static_cast'' rx_basic_type_cast error),
         check_pointer_casts filename cl linenum error,
         check_address_of_cast filename cl linenum error line] s))"
  unfolding CheckCasts_def Let_def by (intro arg_cong2 [where f = rbind] refl ext) (auto split: option.split)

subsection \<open>Where the checks can raise\<close>

text \<open>
  The text that follows the template arguments of a named cast whose address is taken starts on another
  line: the index behind the closing bracket is then the length of the line.
\<close>

definition cast_type_ends_line :: "CleansedLines \<Rightarrow> nat \<Rightarrow> bool" where
  "cast_type_ends_line cl linenum \<longleftrightarrow>
     (\<exists>m l y x. Searches rx_address_of_cast (elided cl ! linenum) \<and>
        Match rx_address_of_named_cast (elided cl ! linenum) = Some m \<and>
        CloseExpression cl linenum (length (group m 1)) = Inr (l, y, x) \<and> x \<ge> 0 \<and> x = int (length (elided cl ! y)))"

text \<open>The check stops at something like an array of functions.\<close>

definition stops_at_array :: "CleansedLines \<Rightarrow> nat \<Rightarrow> bool" where
  "stops_at_array cl linenum \<longleftrightarrow>
     (case Search rx_function_cast (elided cl ! linenum) of
        None \<Rightarrow> False
      | Some m \<Rightarrow> ExpectingFunctionArgs cl linenum = Inr False \<and> Matches rx_array_after (group m 3))"

lemma ExpectingFunctionArgs_lands:
  assumes "linenum < length (elided cl)"
  shows "lands (\<lambda>_. True) (ExpectingFunctionArgs cl linenum)"
proof -
  have "lands (\<lambda>_. True) (py_idx (elided cl) (int linenum - int k))" if "k \<le> linenum" for k
    using assms that py_idx_nat [of "linenum - k" "elided cl"] by (simp add: of_nat_diff)
  from this [of 1] this [of 2] show ?thesis
    unfolding ExpectingFunctionArgs_def py_idx_nat [OF assms] rbind_simps
    by (intro lands_if lands_Inr [THEN iffD2] lands_bind [where Q = "\<lambda>_. True"]) auto
qed

lemma named_cast_group:
  assumes "Match rx_address_of_named_cast line = Some m"
  shows "length (group m 1) < length line \<and> line ! length (group m 1) = CHR ''<''"
proof -
  let ?rs = "[Bol, Grp 1 (cats [any0, Lit ''&'', cast_names, Lit ''_cast'', WordB]), Lit ''<'']"
  have m: "Match (cats ?rs) line = Some m" using assms by (simp only: rx_address_of_named_cast_def)
  have "list_all flat ?rs" by (simp add: cast_names_def)
  from Match_layout [OF m this] obtain ws t where ws: "list_all2 consumes ?rs ws" "line = concat ws @ t" "m_caps m = caps_of ?rs ws"
    by blast
  from ws(1) obtain w where "ws = [[], w, ''<'']" by (auto simp: list_all2_Cons1 simp del: cats.simps)
  with ws(2,3) show ?thesis by (simp add: grp_def nth_append)
qed

lemma py_idx_int: "0 \<le> x \<Longrightarrow> py_idx xs x = (if x < int (length xs) then Inr (xs ! nat x) else Inl IndexError)"
  by (simp add: py_idx_def)

text \<open>The only way in which looking behind the cast can fail.\<close>

lemma parenthesis_error_cases:
  assumes "lines_ok cl" "linenum < num_lines cl"
  shows "if \<exists>m l y x. Match rx_address_of_named_cast (elided cl ! linenum) = Some m \<and>
            CloseExpression cl linenum (length (group m 1)) = Inr (l, y, x) \<and> x \<ge> 0 \<and> x = int (length (elided cl ! y))
     then parenthesis_error cl linenum (elided cl ! linenum) = Inl IndexError
     else returns (parenthesis_error cl linenum (elided cl ! linenum))"
proof (cases "Match rx_address_of_named_cast (elided cl ! linenum)")
  case None
  then show ?thesis by (simp add: parenthesis_error_def)
next
  case (Some m)
  from CloseExpression_lands [OF assms conjunct1 [OF named_cast_group [OF Some]]] obtain l y x where
    c: "CloseExpression cl linenum (length (group m 1)) = Inr (l, y, x)" and f: "found_after cl linenum (l, y, x)"
    by (auto simp: lands_def)
  show ?thesis
  proof (cases "x < 0")
    case True
    with Some c show ?thesis by (auto simp: parenthesis_error_def)
  next
    case False
    with f have y: "y < num_lines cl" "0 < x" "x \<le> int (length (elided cl ! y))" by (auto simp: found_after_def)
    have len: "length (elided cl) = num_lines cl" using assms(1) by (simp add: lines_ok_def)
    have iy: "py_idx (elided cl) (int y) = Inr (elided cl ! y)" using y(1) len by simp
    show ?thesis
    proof (cases "x = int (length (elided cl ! y))")
      case True
      then have "parenthesis_error cl linenum (elided cl ! linenum) = Inl IndexError"
        using Some c iy by (simp add: parenthesis_error_def)
      with Some c True show ?thesis by auto
    next
      case ne: False
      with y have x: "nat x < length (elided cl ! y)" "x < int (length (elided cl ! y))" by simp_all
      obtain l2 y2 x2 where c2: "CloseExpression cl y (nat x) = Inr (l2, y2, x2)" "found_after cl y (l2, y2, x2)"
        using CloseExpression_lands [OF assms(1) y(1) x(1)] by (auto simp: lands_def)
      have "returns (if x2 < 0 then Inr False else rbind (py_idx (elided cl) (int y2)) (\<lambda>l2.
           rbind (if int y2 < int (NumLines cl) - 1 then py_idx (elided cl) (int y2 + 1) else Inr []) (\<lambda>next_line.
             Inr (Matches rx_dereference (drop (nat x2) l2 @ next_line)))))"
        using c2(2) len py_idx_nat [of "Suc y2" "elided cl"] by (auto simp: found_after_def NumLines_def algebra_simps)
      then have "returns (parenthesis_error cl linenum (elided cl ! linenum))"
        using Some c iy x False c2(1) by (auto simp: parenthesis_error_def py_idx_int)
      with Some c ne show ?thesis by auto
    qed
  qed
qed

context error_handler
begin

lemma CheckCStyleCast_lands:
  assumes "linenum < length (elided cl)" "I s"
  shows "lands (\<lambda>(_, s). I s) (CheckCStyleCast filename cl linenum cast_type pattern error s)"
proof -
  have "\<forall>i \<in> set (down_to linenum (linenum - 5)). i < length (elided cl)"
    using assms(1) by (auto simp: down_to_def)
  note before = rmap_idx [OF this]
  show ?thesis
    unfolding CheckCStyleCast_def py_idx_nat [OF assms(1)] rbind_simps before Let_def
    using assms(2) by (auto intro!: lands_bind [OF error_lands] lands_if split: option.split)
qed

lemma c_style_cast_keeps: "linenum < length (elided cl) \<Longrightarrow> keeps I (c_style_cast filename cl linenum cast_type pattern error)"
  unfolding c_style_cast_def by (rule keepsI, rule lands_bind [OF CheckCStyleCast_lands]) auto

lemma check_pointer_casts_keeps: "linenum < length (elided cl) \<Longrightarrow> keeps I (check_pointer_casts filename cl linenum error)"
  unfolding check_pointer_casts_def
  by (rule keepsI, rule lands_bind [OF CheckCStyleCast_lands])
    (auto intro: keeps_lands [OF keeps_whenever] c_style_cast_keeps)

lemma check_address_of_cast_cases:
  assumes "lines_ok cl" "linenum < num_lines cl" "I s"
  shows "if cast_type_ends_line cl linenum
     then check_address_of_cast filename cl linenum error (elided cl ! linenum) s = Inl IndexError
     else lands I (check_address_of_cast filename cl linenum error (elided cl ! linenum) s)"
proof (cases "Searches rx_address_of_cast (elided cl ! linenum)")
  case True
  with parenthesis_error_cases [OF assms(1,2)] assms(3) show ?thesis
    by (auto simp: check_address_of_cast_def cast_type_ends_line_def returns_def intro!: error_lands split: if_splits)
next
  case False
  with assms(3) show ?thesis by (simp add: check_address_of_cast_def cast_type_ends_line_def)
qed

lemma CheckCasts_cases:
  assumes "lines_ok cl" "linenum < num_lines cl" "I s"
  shows "if cast_type_ends_line cl linenum \<and> \<not> stops_at_array cl linenum
     then CheckCasts filename cl linenum error s = Inl IndexError
     else lands I (CheckCasts filename cl linenum error s)"
proof -
  have n: "linenum < length (elided cl)" using assms(1,2) by (simp add: lines_ok_def)
  let ?line = "elided cl ! linenum"
  from ExpectingFunctionArgs_lands [OF n] obtain ex where ex: "ExpectingFunctionArgs cl linenum = Inr ex"
    by (auto simp: lands_def)
  let ?m = "Search rx_function_cast ?line" let ?cast = "?m \<noteq> None \<and> \<not> ex"
  let ?a = "whenever ?cast (check_function_cast filename linenum error ?line (the ?m))"
  let ?b = "whenever (\<not> ex) (c_style_cast filename cl linenum ''static_cast'' rx_basic_type_cast error)"
  let ?c = "check_pointer_casts filename cl linenum error"
  let ?d = "check_address_of_cast filename cl linenum error ?line"
  let ?before = "steps [?a, ?b, ?c]"
  have stop: "stops_at_array cl linenum \<longleftrightarrow> ?cast \<and> Matches rx_array_after (group (the ?m) 3)"
    by (auto simp: stops_at_array_def ex split: option.split)
  have run: "CheckCasts filename cl linenum error s =
     (if ?cast \<and> Matches rx_array_after (group (the ?m) 3) then Inr s
      else rbind (?before s) (check_address_of_cast filename cl linenum error ?line))"
    unfolding CheckCasts_def py_idx_nat [OF n] ex rbind_simps Let_def
    using steps_append [of "[?a, ?b, ?c]" "[?d]" s] unfolding append.simps steps_single by (rule arg_cong)
  show ?thesis
  proof (cases "stops_at_array cl linenum")
    case True
    with stop run assms(3) show ?thesis by simp
  next
    case False
    have "keeps I ?before"
      by (intro keeps_steps)
        (auto simp: check_function_cast_def Let_def intro!: keeps_whenever error_keeps c_style_cast_keeps check_pointer_casts_keeps n)
    from keepsD [OF this assms(3)] obtain s1 where "?before s = Inr s1" "I s1" by blast
    with check_address_of_cast_cases [OF assms(1,2), of s1 filename] False show ?thesis
      unfolding run stop by (auto split: if_splits)
  qed
qed

lemma CheckCasts_permits:
  assumes "lines_ok cl" "linenum < num_lines cl"
  shows "permits {IndexError} I (CheckCasts filename cl linenum error)"
  unfolding permits_iff
proof (intro allI impI)
  fix s assume "I s"
  from CheckCasts_cases [OF assms this, of filename]
  show "(\<forall>e. CheckCasts filename cl linenum error s = Inl e \<longrightarrow> e \<in> {IndexError}) \<and>
      (\<forall>s'. CheckCasts filename cl linenum error s = Inr s' \<longrightarrow> I s')"
    by (auto simp: lands_def split: if_splits)
qed

end

subsection \<open>Properties\<close>


definition split_cast :: CleansedLines where
  "split_cast = (let ls = [''  x = &static_cast<int*>'', ''  (p);'', ''  x = &static_cast<int*>(p)[1];'']
     in \<lparr>elided = ls, cl_lines = ls, raw_lines = ls, lines_without_raw_strings = ls, num_lines = 3\<rparr>)"


end
