(* ===== verification/References.thy ===== *)
theory References
  imports Braces
begin

section \<open>Non-const references\<close>

text \<open>
  \<open>IsDerivedFunction\<close>, \<open>IsOutOfLineMethodDefinition\<close>, \<open>IsInitializerList\<close> and
  \<open>CheckForNonConstReference\<close> of \<^verbatim>\<open>src/cpplint.py\<close>.
\<close>

subsection \<open>Patterns of reference parameters\<close>

definition RE_PATTERN_IDENT :: rx where
  "RE_PATTERN_IDENT = cats [Set [Ch ''_'', Rg CHR ''a'' CHR ''z'', Rg CHR ''A'' CHR ''Z''], wd0]"

text \<open>Text between angle brackets, with at most \<open>n\<close> levels of brackets inside.\<close>

primrec angle_text :: "nat \<Rightarrow> rx" where
  "angle_text 0 = star (NSet [Ch ''<>''])"
| "angle_text (Suc n) = star (alts [cats [Lit ''<'', angle_text n, Lit ''>''], NSet [Ch ''<>'']])"

definition RE_PATTERN_TYPE :: rx where
  "RE_PATTERN_TYPE = cats [opt (cats [Lit ''const'', sp1]),
     opt (alts [cats [Lit ''typename'', sp1], cats [Lit ''class'', sp1], cats [Lit ''struct'', sp1],
       cats [Lit ''union'', sp1], cats [Lit ''enum'', sp1]]),
     plus1 (alts [Set [Wd], cats [sp0, Lit ''<'', angle_text 2, Lit ''>''], Lit ''::''])]"

definition RE_PATTERN_REF_PARAM :: rx where
  "RE_PATTERN_REF_PARAM = cats [
     Grp 1 (cats [RE_PATTERN_TYPE, star (cats [sp0, alts [cats [WordB, Lit ''const'', WordB], Set [Ch ''*'']]]), sp0,
       Lit ''&'', sp0, RE_PATTERN_IDENT]),
     sp0, opt (cats [Lit ''='', plus1 (NSet [Ch '',()''])]), Set [Ch '',)'']]"

definition RE_PATTERN_CONST_REF_PARAM :: rx where
  "RE_PATTERN_CONST_REF_PARAM = alts [
     cats [any0, sp0, WordB, Lit ''const'', sp0, Lit ''&'', sp0, RE_PATTERN_IDENT],
     cats [Lit ''const'', sp1, RE_PATTERN_TYPE, sp0, Lit ''&'', sp0, RE_PATTERN_IDENT]]"

definition RE_PATTERN_REF_STREAM_PARAM :: rx where
  "RE_PATTERN_REF_STREAM_PARAM = cats [any0, Lit ''stream'', sp0, Lit ''&'', sp0, RE_PATTERN_IDENT]"

subsection \<open>Patterns of the lines around\<close>

definition rx_call_start :: rx where
  "rx_call_start = cats [Bol, Grp 1 (cats [star (NSet [Ch ''()'']), wd1]), Lit ''('']"

definition rx_override :: rx where
  "rx_override = cats [WordB, Lit ''override'', WordB]"

definition rx_method_definition :: rx where
  "rx_method_definition = cats [Bol, star (NSet [Ch ''()'']), wd1, Lit ''::'', wd1, Lit ''('']"

definition rx_function_body :: rx where
  "rx_function_body = cats [Bol, Grp 1 any0, Lit ''{'', sp0, Eol]"

definition rx_member_initializer :: rx where
  "rx_member_initializer = cats [Set [Sp], Lit '':'', sp0, wd1, Set [Ch ''({'']]"

definition rx_brace_comma :: rx where
  "rx_brace_comma = cats [Lit ''}'', sp0, Lit '','', sp0, Eol]"

definition rx_code_end :: rx where
  "rx_code_end = cats [Set [Ch ''{};''], sp0, Eol]"

definition type_pieces :: rx where
  "type_pieces = plus1 (alts [Set [Wd, Ch ''<>''], Lit ''::''])"

definition rx_type_continued :: rx where
  "rx_type_continued = cats [sp0, Lit ''::'', type_pieces, sp0, Lit ''&'', sp0, Set [NSp]]"

definition rx_type_begun :: rx where
  "rx_type_begun = cats [WordB, Grp 1 (cats [opt (cats [Lit ''const'', sp0]), type_pieces, Set [Wd, Ch ''<>'']]), sp0, Eol]"

definition rx_type_last :: rx where
  "rx_type_last = cats [sp0, Set [Rg CHR ''a'' CHR ''z'', Rg CHR ''A'' CHR ''Z'', Ch ''_''],
     plus1 (Grp 1 (alts [Set [Wd, Ch ''<>''], Lit ''::''])), sp0, Lit ''&'', sp0, Set [NSp]]"

definition rx_scope_begun :: rx where
  "rx_scope_begun = cats [WordB, Grp 1 (cats [opt (cats [Lit ''const'', sp0]), type_pieces, Lit ''::'']), sp0, Eol]"

definition rx_list_goes_on :: rx where
  "rx_list_goes_on = cats [Set [Ch ''),''], sp0, Eol]"

definition rx_lone_colon :: rx where
  "rx_lone_colon = cats [Bol, sp0, Lit '':'', sp1, Set [NSp]]"

definition rx_backslash_end :: rx where
  "rx_backslash_end = cats [Lit [backslash], sp0, Eol]"

definition whitelisted_functions :: rx where
  "whitelisted_functions = cats [
     alts [cats [Set [Ch ''sS''], Lit ''wap'', opt (cats [Lit ''<'', Set [Wd], plus1 (Lit '':''), Lit ''>''])],
       cats [Lit ''operator'', sp0, Set [Ch ''<>''], Set [Ch ''<>'']], Lit ''static_assert'', Lit ''COMPILE_ASSERT''],
     sp0, Lit ''('']"

definition rx_open_call :: rx where
  "rx_open_call = cats [plus1 (Set [NSp]), Lit ''('', star (NSet [Ch '')'']), Eol]"

definition rx_braced :: rx where
  "rx_braced = cats [Lit ''{'', star (NSet [Ch ''}'']), Lit ''}'']"

definition rx_spaces_angle :: rx where
  "rx_spaces_angle = cats [star (Lit '' ''), Lit ''<'']"

subsection \<open>The function around a line\<close>

text \<open>\<^verbatim>\<open>xrange(linenum, max(-1, linenum - 10), -1)\<close>: the line and at most nine lines above it.\<close>

definition ten_lines_up :: "nat \<Rightarrow> nat list" where
  "ten_lines_up linenum = rev [linenum - 9..<linenum + 1]"

definition IsDerivedFunction :: "CleansedLines \<Rightarrow> nat \<Rightarrow> bool res" where
  "IsDerivedFunction cl linenum =
     rbind (find_line (Matches rx_call_start) (elided cl) (ten_lines_up linenum)) (\<lambda>found.
       case found of
         None \<Rightarrow> Inr False
       | Some i \<Rightarrow>
           rbind (py_idx (elided cl) (int i)) (\<lambda>start_line.
           rbind (CloseExpression cl i (length (group (the (Match rx_call_start start_line)) 1))) (\<lambda>(line, _, closing_paren).
             Inr (closing_paren \<ge> 0 \<and> Searches rx_override (drop (nat closing_paren) line)))))"

definition IsOutOfLineMethodDefinition :: "CleansedLines \<Rightarrow> nat \<Rightarrow> bool res" where
  "IsOutOfLineMethodDefinition cl linenum =
     rbind (find_line (Matches rx_call_start) (elided cl) (ten_lines_up linenum)) (\<lambda>found.
       case found of
         None \<Rightarrow> Inr False
       | Some i \<Rightarrow> rbind (py_idx (elided cl) (int i)) (\<lambda>line. Inr (Matches rx_method_definition line)))"

primrec initializer_loop :: "CleansedLines \<Rightarrow> nat \<Rightarrow> nat list \<Rightarrow> bool res" where
  "initializer_loop cl linenum [] = Inr False"
| "initializer_loop cl linenum (i # is) =
     rbind (py_idx (elided cl) (int i)) (\<lambda>line0.
       let line = (if i = linenum
                   then (case Match rx_function_body line0 of Some m \<Rightarrow> group m 1 | None \<Rightarrow> line0)
                   else line0)
       in if Searches rx_member_initializer line then Inr True
          else if Searches rx_brace_comma line then Inr True
          else if Searches rx_code_end line then Inr False
          else initializer_loop cl linenum is)"

definition IsInitializerList :: "CleansedLines \<Rightarrow> nat \<Rightarrow> bool res" where
  "IsInitializerList cl linenum = initializer_loop cl linenum (rev [2..<linenum + 1])"

subsection \<open>The check\<close>

text \<open>The text of a parameter whose type started on an earlier line.\<close>

definition join_template :: "CleansedLines \<Rightarrow> nat \<Rightarrow> string \<Rightarrow> string res" where
  "join_template cl linenum line =
     (case py_rfind CHR ''>'' line of
        None \<Rightarrow> Inr line
      | Some endpos \<Rightarrow>
          rbind (ReverseCloseExpression cl linenum endpos) (\<lambda>(_, startline, startpos).
            if startpos > -1 \<and> startline < linenum then
              rbind (rmap (\<lambda>i. py_idx (elided cl) (int i)) [startline..<linenum + 1]) (\<lambda>ls. Inr (concat (map py_strip ls)))
            else Inr line))"

definition join_type :: "CleansedLines \<Rightarrow> nat \<Rightarrow> string \<Rightarrow> string res" where
  "join_type cl linenum line =
     (if linenum \<le> 1 then Inr line
      else rbind (py_idx (elided cl) (int linenum - 1)) (\<lambda>line_before.
        let previous = (if Matches rx_type_continued line then Search rx_type_begun line_before
                        else if Matches rx_type_last line then Search rx_scope_begun line_before
                        else None)
        in case previous of
             Some m \<Rightarrow> Inr (group m 1 @ py_lstrip line)
           | None \<Rightarrow> join_template cl linenum line))"

definition in_function_body :: "NestingState \<Rightarrow> bool" where
  "in_function_body ns \<longleftrightarrow>
     (case previous_stack_top ns of None \<Rightarrow> False | Some b \<Rightarrow> \<not> (is_class b \<or> is_namespace b))"

text \<open>Scanning back over lines that end in a parenthesis or a comma for one that starts with a colon.\<close>

primrec colon_above :: "CleansedLines \<Rightarrow> nat list \<Rightarrow> bool res" where
  "colon_above cl [] = Inr False"
| "colon_above cl (i # is) =
     rbind (py_idx (elided cl) (int i)) (\<lambda>previous_line.
       if \<not> Searches rx_list_goes_on previous_line then Inr False
       else if Matches rx_lone_colon previous_line then Inr True
       else colon_above cl is)"

definition whitelisted :: "CleansedLines \<Rightarrow> nat \<Rightarrow> string \<Rightarrow> bool res" where
  "whitelisted cl linenum line =
     (if Searches whitelisted_functions line then Inr True
      else if Searches rx_open_call line then Inr False
      else rbind (find_line (Searches whitelisted_functions) (elided cl) (map (\<lambda>i. linenum - i - 1) (filter (\<lambda>i. linenum > i) [0..<2])))
             (\<lambda>found. Inr (found \<noteq> None)))"

definition reference_parameters :: "string \<Rightarrow> string list" where
  "reference_parameters decls = map (\<lambda>m. group m 1) (finditer RE_PATTERN_REF_PARAM [] decls)"

definition check_parameters :: "string \<Rightarrow> nat \<Rightarrow> error_fn \<Rightarrow> string \<Rightarrow> action" where
  "check_parameters filename linenum error line =
     rfold (\<lambda>parameter.
         whenever (\<not> Matches RE_PATTERN_CONST_REF_PARAM parameter \<and> \<not> Matches RE_PATTERN_REF_STREAM_PARAM parameter)
           (error filename (int linenum) ''runtime/references'' 2
              (''Is this a non-const reference? '' @ ''If so, make const or use a pointer: '' @
               ReplaceAll rx_spaces_angle ''<'' parameter)))
       (reference_parameters (ReplaceAll rx_braced '' '' line))"

text \<open>The early returns in their order; what is left is a line that may declare reference parameters.\<close>

definition CheckForNonConstReference ::
  "string \<Rightarrow> CleansedLines \<Rightarrow> nat \<Rightarrow> NestingState \<Rightarrow> error_fn \<Rightarrow> action" where
  "CheckForNonConstReference filename cl linenum nesting_state error s =
     rbind (py_idx (elided cl) (int linenum)) (\<lambda>line0.
     if \<not> py_in ''&'' line0 then Inr s
     else rbind (IsDerivedFunction cl linenum) (\<lambda>derived. if derived then Inr s
     else rbind (IsOutOfLineMethodDefinition cl linenum) (\<lambda>out_of_line. if out_of_line then Inr s
     else rbind (join_type cl linenum line0) (\<lambda>line. if in_function_body nesting_state then Inr s
     else rbind (colon_above cl (down_to linenum (linenum - 10))) (\<lambda>colon. if colon then Inr s
     else if Searches rx_backslash_end line then Inr s
     else rbind (IsInitializerList cl linenum) (\<lambda>initializer. if initializer then Inr s
     else rbind (whitelisted cl linenum line) (\<lambda>allowed. if allowed then Inr s
     else check_parameters filename linenum error line s)))))))"

subsection \<open>The check always returns\<close>

lemma call_start_group:
  assumes "Match rx_call_start line = Some m"
  shows "length (group m 1) < length line"
proof -
  let ?rs = "[Bol, Grp 1 (cats [star (NSet [Ch ''()'']), wd1]), Lit ''('']"
  have m: "Match (cats ?rs) line = Some m" using assms by (simp only: rx_call_start_def)
  have "list_all flat ?rs" by simp
  from Match_layout [OF m this] obtain ws t where ws: "list_all2 consumes ?rs ws" "line = concat ws @ t" "m_caps m = caps_of ?rs ws"
    by blast
  from ws(1) obtain w where "ws = [[], w, ''('']" by (auto simp: list_all2_Cons1 simp del: cats.simps)
  with ws(2,3) show ?thesis by (simp add: grp_def)
qed

lemma ten_lines_up_le: "i \<in> set (ten_lines_up linenum) \<Longrightarrow> i \<le> linenum"
  by (auto simp: ten_lines_up_def)

lemma around_function_lands:
  assumes "lines_ok cl" "linenum < num_lines cl"
  shows "lands (\<lambda>_. True) (IsDerivedFunction cl linenum)" and "lands (\<lambda>_. True) (IsOutOfLineMethodDefinition cl linenum)"
proof -
  have len: "length (elided cl) = num_lines cl" using assms(1) by (simp add: lines_ok_def)
  with assms(2) have up: "\<forall>i \<in> set (ten_lines_up linenum). i < length (elided cl)"
    by (auto dest!: ten_lines_up_le)
  note found = find_line_lands [OF up, of "Matches rx_call_start"]
  have start: "lands (\<lambda>_. True) (CloseExpression cl i (length (group (the (Match rx_call_start (elided cl ! i))) 1)))"
    if "i \<in> set (ten_lines_up linenum)" "Matches rx_call_start (elided cl ! i)" for i
  proof -
    from that(2) obtain m where m: "Match rx_call_start (elided cl ! i) = Some m" by (auto simp: Matches_def)
    have "i < num_lines cl" using up that(1) len by auto
    from CloseExpression_lands [OF assms(1) this call_start_group [OF m]] m show ?thesis by (auto simp: lands_def)
  qed
  show "lands (\<lambda>_. True) (IsDerivedFunction cl linenum)"
    unfolding IsDerivedFunction_def
    by (rule lands_bind [OF found]) (use up in \<open>auto intro!: lands_bind [OF start] split: option.split simp del: One_nat_def\<close>)
  show "lands (\<lambda>_. True) (IsOutOfLineMethodDefinition cl linenum)"
    unfolding IsOutOfLineMethodDefinition_def
    by (rule lands_bind [OF found]) (use up in \<open>auto split: option.split\<close>)
qed

lemma initializer_loop_lands: "\<forall>i \<in> set is. i < length (elided cl) \<Longrightarrow> lands (\<lambda>_. True) (initializer_loop cl linenum is)"
  by (induction "is") (auto simp: Let_def)

lemma colon_above_lands: "\<forall>i \<in> set is. i < length (elided cl) \<Longrightarrow> lands (\<lambda>_. True) (colon_above cl is)"
  by (induction "is") auto

lemma join_type_lands:
  assumes "lines_ok cl" "linenum < num_lines cl"
  shows "lands (\<lambda>_. True) (join_type cl linenum (elided cl ! linenum))"
proof -
  have len: "length (elided cl) = num_lines cl" using assms(1) by (simp add: lines_ok_def)
  have "lands (\<lambda>_. True) (join_template cl linenum (elided cl ! linenum))"
  proof (cases "py_rfind CHR ''>'' (elided cl ! linenum)")
    case (Some e)
    have pieces: "lands (\<lambda>_. True) (rmap (\<lambda>i. py_idx (elided cl) (int i)) [k..<linenum + 1])" for k
      using assms(2) len by (subst rmap_idx) auto
    from ReverseCloseExpression_lands [OF assms py_rfind_less [OF Some]] obtain x l p where
      r: "ReverseCloseExpression cl linenum e = Inr (x, l, p)" by (auto simp: lands_def)
    show ?thesis
      unfolding join_template_def Some option.case r rbind_simps prod.case
      by (intro lands_if lands_bind [OF pieces] lands_Inr [THEN iffD2] TrueI)
  qed (simp add: join_template_def)
  moreover have "lands (\<lambda>_. True) (py_idx (elided cl) (int linenum - 1))" if "linenum > 1"
    using that assms(2) len py_idx_nat [of "linenum - 1" "elided cl"] by (simp add: of_nat_diff)
  ultimately show ?thesis
    unfolding join_type_def Let_def
    by (intro lands_if lands_bind [where Q = "\<lambda>_. True"]) (auto split: option.split)
qed

lemma whitelisted_lands:
  assumes "linenum < length (elided cl)"
  shows "lands (\<lambda>_. True) (whitelisted cl linenum line)"
proof -
  have "\<forall>i \<in> set (map (\<lambda>i. linenum - i - 1) (filter (\<lambda>i. linenum > i) [0..<2])). i < length (elided cl)"
    using assms by auto
  from find_line_lands [OF this] show ?thesis
    unfolding whitelisted_def by (auto intro!: lands_bind [where Q = "\<lambda>_. True"] intro: lands_mono)
qed

context error_handler
begin

lemma CheckForNonConstReference_keeps:
  assumes "lines_ok cl" "linenum < num_lines cl"
  shows "keeps I (CheckForNonConstReference filename cl linenum nesting_state error)"
proof (rule keepsI)
  fix s assume s: "I s"
  have n: "linenum < length (elided cl)" using assms by (simp add: lines_ok_def)
  have colon: "lands (\<lambda>_. True) (colon_above cl (down_to linenum (linenum - 10)))"
    using n by (intro colon_above_lands) (auto simp: down_to_def)
  have init: "lands (\<lambda>_. True) (IsInitializerList cl linenum)"
    unfolding IsInitializerList_def using n by (intro initializer_loop_lands) auto
  have params: "lands I (check_parameters filename linenum error line s)" for line
    unfolding check_parameters_def by (rule keeps_lands [where I = I, OF _ s]) (auto intro!: keeps_intros error_keeps)
  note parts = around_function_lands [OF assms] join_type_lands [OF assms] colon init whitelisted_lands [OF n]
  show "lands I (CheckForNonConstReference filename cl linenum nesting_state error s)"
    unfolding CheckForNonConstReference_def py_idx_nat [OF n] rbind_simps
    by (intro lands_if lands_Inr [where P = I, THEN iffD2, OF s] lands_bind [OF parts(1)] lands_bind [OF parts(2)] lands_bind [OF parts(3)]
        lands_bind [OF parts(4)] lands_bind [OF parts(5)] lands_bind [OF parts(6)] params)
qed

end

end
