(* ===== verification/Language.thy ===== *)
theory Language
  imports Casts Include_State
begin

section \<open>Rules about the language\<close>

text \<open>
  \<open>_GetTextInside\<close>, \<open>CheckGlobalStatic\<close>, \<open>CheckPrintf\<close> and \<open>CheckLanguage\<close> of \<^verbatim>\<open>src/cpplint.py\<close>.
\<close>

subsection \<open>The text between an opening bracket and the bracket that closes it\<close>

definition matching_punctuation :: "(char \<times> char) list" where
  "matching_punctuation = [(CHR ''('', CHR '')''), (CHR ''{'', CHR ''}''), (CHR ''['', CHR '']'')]"

definition closing_punctuation :: string where
  "closing_punctuation = map snd matching_punctuation"

text \<open>The loop, from a stack of expected closing brackets (the top first) and the text at the position.\<close>

fun inside_loop :: "string \<Rightarrow> string \<Rightarrow> nat \<Rightarrow> nat option" where
  "inside_loop [] rest position = Some position"
| "inside_loop (expected # punctuation_stack) [] position = None"
| "inside_loop (expected # punctuation_stack) (c # rest) position =
     (if c = expected then inside_loop punctuation_stack rest (position + 1)
      else if c \<in> set closing_punctuation then None
      else (case map_of matching_punctuation c of
              Some close \<Rightarrow> inside_loop (close # expected # punctuation_stack) rest (position + 1)
            | None \<Rightarrow> inside_loop (expected # punctuation_stack) rest (position + 1)))"

definition GetTextInside :: "string \<Rightarrow> rx \<Rightarrow> string option res" where
  "GetTextInside txt start_pattern =
     (case Search start_pattern txt of
        None \<Rightarrow> Inr None
      | Some m \<Rightarrow>
          let start_position = m_end m in
          if start_position = 0 then Inl AssertionError
          else rbind (py_idx txt (int start_position - 1)) (\<lambda>c.
            case map_of matching_punctuation c of
              None \<Rightarrow> Inl AssertionError
            | Some close \<Rightarrow>
                Inr (map_option (\<lambda>position. take (position - 1 - start_position) (drop start_position txt))
                       (inside_loop [close] (drop start_position txt) start_position))))"

subsection \<open>Global strings\<close>

definition letters_digits :: "citem list" where
  "letters_digits = [Rg CHR ''a'' CHR ''z'', Rg CHR ''A'' CHR ''Z'', Rg CHR ''0'' CHR ''9'']"

definition rx_some_code :: rx where
  "rx_some_code = Set [Ch '';({'']"

definition rx_global_string :: rx where
  "rx_global_string = cats [
     Grp 1 (cats [alts [Eps, cats [Lit ''static'', plus1 (Lit '' '')]], alts [Eps, cats [Lit ''const'', plus1 (Lit '' '')]]]),
     opt (cats [star (Lit '':''), Lit ''std::'']), Lit ''string'', opt (Grp 2 (cats [plus1 (Lit '' ''), Lit ''const''])),
     plus1 (Lit '' ''), Grp 3 (plus1 (Set (letters_digits @ [Ch ''_:'']))), WordB, Grp 4 any0]"

definition rx_string_pointer :: rx where
  "rx_string_pointer = cats [WordB, Lit ''string'', WordB, opt (Grp 1 (cats [sp1, Lit ''const''])), sp0, Set [Ch ''*&''], sp0,
     opt (Grp 2 (cats [Lit ''const'', sp1])), Set [Wd]]"

definition rx_operator_symbol :: rx where
  "rx_operator_symbol = cats [WordB, Lit ''operator'', Set [NWd]]"

definition rx_string_function :: rx where
  "rx_string_function = cats [sp0, opt (Grp 1 (cats [Lit ''<'', any0, Lit ''>''])),
     star (Grp 2 (cats [Lit ''::'', plus1 (Set (letters_digits @ [Ch ''_'']))])), sp0, Lit ''('',
     Grp 3 (alts [NSet [Ch [dquote]], Eol])]"

definition rx_const_word :: rx where
  "rx_const_word = cats [WordB, Lit ''const'', WordB]"

definition member_name :: rx where
  "member_name = cats [star (Set (letters_digits @ [Ch ''_''])), Lit ''_'']"

definition rx_self_init :: rx where
  "rx_self_init = cats [WordB, Grp 1 member_name, Lit ''('', Back 1, Lit '')'']"

definition rx_self_init_notnull :: rx where
  "rx_self_init_notnull = cats [WordB, Grp 1 member_name, Lit ''(CHECK_NOTNULL('', Back 1, Lit ''))'']"

definition check_global_string :: "string \<Rightarrow> nat \<Rightarrow> error_fn \<Rightarrow> string \<Rightarrow> action" where
  "check_global_string filename linenum error line =
     (case Match rx_global_string line of
        None \<Rightarrow> Inr
      | Some m \<Rightarrow>
          whenever (\<not> Searches rx_string_pointer line \<and> \<not> Searches rx_operator_symbol line \<and>
                    \<not> Matches rx_string_function (group m 4))
            (if Searches rx_const_word line then
               error filename (int linenum) ''runtime/string'' 4
                 (''For a static/global string constant, use a C style string '' @ ''instead: '' @ [dquote] @ group m 1 @ ''char'' @
                  (case grp m 2 of None \<Rightarrow> [] | Some w \<Rightarrow> w) @ '' '' @ group m 3 @ ''[]'' @ [dquote] @ ''.'')
             else
               error filename (int linenum) ''runtime/string'' 4 ''Static/global string variables are not permitted.''))"

definition CheckGlobalStatic :: "string \<Rightarrow> CleansedLines \<Rightarrow> nat \<Rightarrow> error_fn \<Rightarrow> action" where
  "CheckGlobalStatic filename cl linenum error s =
     rbind (py_idx (elided cl) (int linenum)) (\<lambda>line0.
     rbind (if linenum + 1 < NumLines cl \<and> \<not> Searches rx_some_code line0
            then rbind (py_idx (elided cl) (int (linenum + 1))) (\<lambda>next_line. Inr (line0 @ py_strip next_line))
            else Inr line0) (\<lambda>line.
       steps [
         check_global_string filename linenum error line,
         whenever (Searches rx_self_init line \<or> Searches rx_self_init_notnull line)
           (error filename (int linenum) ''runtime/init'' 4
              ''You seem to be initializing a member variable with itself.'')] s))"

subsection \<open>The functions of the \<open>printf\<close> family\<close>

definition rx_snprintf :: rx where
  "rx_snprintf = cats [Lit ''snprintf'', sp0, Lit ''('', Grp 1 (star (NSet [Ch '','']) ), Lit '','', sp0,
     Grp 2 (star (Set [Rg CHR ''0'' CHR ''9''])), sp0, Lit '','']"

definition rx_sprintf :: rx where
  "rx_sprintf = cats [WordB, Lit ''sprintf'', sp0, Lit ''('']"

definition rx_strcpy :: rx where
  "rx_strcpy = cats [WordB, Grp 1 (alts [Lit ''strcpy'', Lit ''strcat'']), sp0, Lit ''('']"

definition CheckPrintf :: "string \<Rightarrow> CleansedLines \<Rightarrow> nat \<Rightarrow> error_fn \<Rightarrow> action" where
  "CheckPrintf filename cl linenum error =
     on_line (elided cl) linenum (\<lambda>line. steps [
       (case Search rx_snprintf line of
          None \<Rightarrow> Inr
        | Some m \<Rightarrow>
            whenever (group m 2 \<noteq> ''0'')
              (error filename (int linenum) ''runtime/printf'' 3
                 (''If you can, use sizeof('' @ group m 1 @ '') instead of '' @ group m 2 @ '' as the 2nd arg '' @ ''to snprintf.''))),
       whenever (Searches rx_sprintf line)
         (error filename (int linenum) ''runtime/printf'' 5 ''Never use sprintf. Use snprintf instead.''),
       (case Search rx_strcpy line of
          None \<Rightarrow> Inr
        | Some m \<Rightarrow>
            error filename (int linenum) ''runtime/printf'' 4 (''Almost always, snprintf is better than '' @ group m 1))])"

text \<open>\<^verbatim>\<open>(?i)\<close>: letters stand for both their cases.\<close>

definition any_case :: "string \<Rightarrow> rx" where
  "any_case w = cats (map (\<lambda>c. Set [Ch [c, ascii_upper_char c]]) w)"

definition rx_printf_start :: rx where
  "rx_printf_start = cats [WordB, opt (Grp 1 (any_case ''string'')), any_case ''printf'', sp0, Lit ''('']"

definition rx_printf_name :: rx where
  "rx_printf_name = cats [WordB, Grp 1 (cats [opt (any_case ''string''), any_case ''printf'']), sp0, Lit ''('']"

definition rx_simple_argument :: rx where
  "rx_simple_argument = cats [Grp 1 (plus1 (Set [Wd, Ch ''.->()''])), Eol]"

definition check_printf_argument :: "string \<Rightarrow> nat \<Rightarrow> error_fn \<Rightarrow> string \<Rightarrow> action" where
  "check_printf_argument filename linenum error line s =
     rbind (GetTextInside line rx_printf_start) (\<lambda>printf_args.
       case (case printf_args of None \<Rightarrow> None | Some t \<Rightarrow> if t = [] then None else Match rx_simple_argument t) of
         None \<Rightarrow> Inr s
       | Some m \<Rightarrow>
           if group m 1 = ''__VA_ARGS__'' then Inr s
           else (case Search rx_printf_name line of
                   None \<Rightarrow> Inl AttributeError
                 | Some f \<Rightarrow>
                     error filename (int linenum) ''runtime/printf'' 4
                       (''Potential format string bug. Do '' @ group f 1 @ ''('' @ [dquote] @ ''%s'' @ [dquote] @ '', '' @ group m 1 @
                        '') instead.'') s))"

definition rx_memset :: rx where
  "rx_memset = cats [Lit ''memset'', sp0, Lit ''('', Grp 1 (star (NSet [Ch '',''])), Lit '','', sp0, Grp 2 (star (NSet [Ch '',''])),
     Lit '','', sp0, Lit ''0'', sp0, Lit '')'']"

text \<open>The anchors bind to the outer alternatives only.\<close>

definition rx_memset_value :: rx where
  "rx_memset_value = alts [
     cats [Bol, Lit [squote, squote]],
     cats [opt (Lit ''-''), plus1 (Set [Rg CHR ''0'' CHR ''9''])],
     cats [Lit ''0x'', Set [Rg CHR ''0'' CHR ''9'', Rg CHR ''A'' CHR ''F'', Rg CHR ''a'' CHR ''f''], Eol]]"

definition check_memset :: "string \<Rightarrow> nat \<Rightarrow> error_fn \<Rightarrow> string \<Rightarrow> action" where
  "check_memset filename linenum error line =
     (case Search rx_memset line of
        None \<Rightarrow> Inr
      | Some m \<Rightarrow>
          whenever (\<not> Matches rx_memset_value (group m 2))
            (error filename (int linenum) ''runtime/memset'' 4
               (''Did you mean '' @ [dquote] @ ''memset('' @ group m 1 @ '', 0, '' @ group m 2 @ '')'' @ [dquote] @ ''?'')))"

subsection \<open>Variable-length arrays\<close>

definition rx_array :: rx where
  "rx_array = cats [sp0, opt (Grp 1 (cats [plus1 Dot, Lit ''::''])), Grp 2 wd1, Lit '' '', Set [Rg CHR ''a'' CHR ''z''], wd0,
     Lit ''['', Grp 3 (plus1 Dot), Lit ''];'']"

definition rx_size_operators :: rx where
  "rx_size_operators = alts [Set [Sp], Lit ''+'', Lit ''-'', Lit ''*'', Lit ''/'', Lit ''<<'', Lit ''>>]'']"

definition rx_sizeof :: rx where
  "rx_sizeof = cats [Lit ''sizeof('', plus1 Dot, Lit '')'']"

definition rx_arraysize :: rx where
  "rx_arraysize = cats [Lit ''arraysize('', wd1, Lit '')'']"

definition scoped_name :: "rx \<Rightarrow> rx" where
  "scoped_name r = cats [opt (Grp 1 (cats [plus1 Dot, Lit ''::''])), r]"

definition rx_k_name :: rx where
  "rx_k_name = cats [Lit ''k'', Set [Rg CHR ''A'' CHR ''Z'', Rg CHR ''0'' CHR ''9''], wd0]"

definition constant_patterns :: "rx list" where
  "constant_patterns = [
     plus1 (Set [Dg]),
     cats [Lit ''0'', Set [Ch ''xX''], plus1 (Set [Rg CHR ''0'' CHR ''9'', Rg CHR ''a'' CHR ''f'', Rg CHR ''A'' CHR ''F''])],
     rx_k_name,
     scoped_name rx_k_name,
     scoped_name (cats [Set [Rg CHR ''A'' CHR ''Z''], star (Set [Rg CHR ''A'' CHR ''Z'', Rg CHR ''0'' CHR ''9'', Ch ''_''])])]"

definition strip_parens :: "string \<Rightarrow> string" where
  "strip_parens tok = rev (dropWhile (\<lambda>c. c = CHR '')'') (rev (dropWhile (\<lambda>c. c = CHR ''('') tok)))"

primrec const_tokens :: "bool \<Rightarrow> string list \<Rightarrow> bool" where
  "const_tokens skip_next [] = True"
| "const_tokens skip_next (tok0 # tokens) =
     (if skip_next then const_tokens False tokens
      else if Searches rx_sizeof tok0 then const_tokens False tokens
      else if Searches rx_arraysize tok0 then const_tokens False tokens
      else let tok = strip_parens tok0 in
        if tok = [] then const_tokens False tokens
        else if list_ex (\<lambda>r. Matches r tok) constant_patterns then const_tokens False tokens
        else if py_startswith tok ''sizeof'' then const_tokens True tokens
        else False)"

definition check_array :: "string \<Rightarrow> nat \<Rightarrow> error_fn \<Rightarrow> string \<Rightarrow> action" where
  "check_array filename linenum error line =
     (case Match rx_array line of
        None \<Rightarrow> Inr
      | Some m \<Rightarrow>
          whenever (group m 2 \<noteq> ''return'' \<and> group m 2 \<noteq> ''delete'' \<and> \<not> py_in '']'' (group m 3) \<and>
                    \<not> const_tokens False (re_split rx_size_operators (group m 3)))
            (error filename (int linenum) ''runtime/arrays'' 1
               (''Do not use variable-length arrays.  Use an appropriately named '' @
                ''('' @ [squote] @ ''k'' @ [squote] @ '' followed by CamelCase) compile-time constant for the size.'')))"

subsection \<open>\<open>CheckLanguage\<close>\<close>

definition rx_conditional_directive :: rx where
  "rx_conditional_directive = cats [Bol, sp0, Lit ''#'', sp0,
     Grp 1 (alts [Lit ''if'', Lit ''ifdef'', Lit ''ifndef'', Lit ''elif'', Lit ''else'', Lit ''endif'']), WordB]"

definition rx_short_port :: rx where
  "rx_short_port = cats [WordB, Lit ''short port'', WordB]"

definition rx_unsigned_short_port :: rx where
  "rx_unsigned_short_port = cats [WordB, Lit ''unsigned short port'', WordB]"

definition rx_short_or_long :: rx where
  "rx_short_or_long = cats [WordB,
     Grp 1 (alts [Lit ''short'', cats [Lit ''long'', Look False (cats [plus1 (Lit '' ''), Lit ''double''])], Lit ''long long'']),
     WordB]"

definition rx_unary_and :: rx where
  "rx_unary_and = cats [WordB, Lit ''operator'', sp0, Lit ''&'', sp0, Lit ''('', sp0, Lit '')'']"

definition rx_brace_if :: rx where
  "rx_brace_if = cats [Lit ''}'', sp0, Lit ''if'', sp0, Lit ''('']"

definition rx_using_namespace :: rx where
  "rx_using_namespace = cats [WordB, Lit ''using namespace'', WordB]"

definition rx_unnamed_namespace :: rx where
  "rx_unnamed_namespace = cats [WordB, Lit ''namespace'', sp0, Lit ''{'']"

definition check_basic_types :: "string \<Rightarrow> nat \<Rightarrow> error_fn \<Rightarrow> string \<Rightarrow> action" where
  "check_basic_types filename linenum error line =
     (if Searches rx_short_port line then
        whenever (\<not> Searches rx_unsigned_short_port line)
          (error filename (int linenum) ''runtime/int'' 4
             (''Use '' @ [dquote] @ ''unsigned short'' @ [dquote] @ '' for ports, not '' @ [dquote] @ ''short'' @ [dquote]))
      else
        (case Search rx_short_or_long line of
           None \<Rightarrow> Inr
         | Some m \<Rightarrow>
             error filename (int linenum) ''runtime/int'' 4 (''Use int16/int64/etc, rather than the C type '' @ group m 1)))"

definition check_other_rules :: "string \<Rightarrow> nat \<Rightarrow> string \<Rightarrow> error_fn \<Rightarrow> string \<Rightarrow> action" where
  "check_other_rules filename linenum file_extension error line = steps [
     check_basic_types filename linenum error line,
     whenever (Searches rx_unary_and line)
       (error filename (int linenum) ''runtime/operator'' 4 ''Unary operator& is dangerous.  Do not use it.''),
     whenever (Searches rx_brace_if line)
       (error filename (int linenum) ''readability/braces'' 4
          (''Did you mean '' @ [dquote] @ ''else if'' @ [dquote] @ ''? If not, start a new line for '' @ [dquote] @ ''if'' @ [dquote] @ ''.'')),
     check_printf_argument filename linenum error line,
     check_memset filename linenum error line,
     whenever (Searches rx_using_namespace line)
       (error filename (int linenum) ''build/namespaces'' 5
          (''Do not use namespace using-directives.  '' @ ''Use using-declarations instead.'')),
     check_array filename linenum error line,
     whenever (file_extension = ''h'' \<and> Searches rx_unnamed_namespace line \<and> last line \<noteq> backslash)
       (error filename (int linenum) ''build/namespaces'' 4
          (''Do not use unnamed namespaces in header files.  See '' @
           ''https://google-styleguide.googlecode.com/svn/trunk/cppguide.xml#Namespaces'' @ '' for more information.''))]"

text \<open>The absolute name of the file, which the code computes here, is not used.\<close>

definition CheckLanguage ::
  "env \<Rightarrow> string \<Rightarrow> CleansedLines \<Rightarrow> nat \<Rightarrow> string \<Rightarrow> error_fn \<Rightarrow> IncludeState \<Rightarrow> lint \<Rightarrow> (IncludeState \<times> lint) res" where
  "CheckLanguage env filename cl linenum file_extension error include_state s =
     rbind (py_idx (elided cl) (int linenum)) (\<lambda>line.
       if line = [] then Inr (include_state, s)
       else if Searches RE_PATTERN_INCLUDE line then CheckIncludeLine env error filename cl linenum include_state s
       else
         rbind (case Match rx_conditional_directive line of
                  Some m \<Rightarrow> ResetSection (group m 1) include_state
                | None \<Rightarrow> Inr include_state) (\<lambda>include_state.
         rbind (steps [
             CheckCasts filename cl linenum error,
             CheckGlobalStatic filename cl linenum error,
             CheckPrintf filename cl linenum error,
             check_other_rules filename linenum file_extension error line] s)
           (\<lambda>s. Inr (include_state, s))))"

subsection \<open>What the text inside is\<close>

lemma closing_iff: "c \<in> set closing_punctuation \<longleftrightarrow> closer c"
  by (auto simp: closing_punctuation_def matching_punctuation_def closer_def)

lemma matching_iff: "map_of matching_punctuation a = Some b \<longleftrightarrow> pairs a b"
  by (auto simp: matching_punctuation_def pairs_def)

lemma pairs_unique: "pairs a b \<Longrightarrow> pairs a c \<longleftrightarrow> c = b" "pairs a b \<Longrightarrow> pairs c b \<longleftrightarrow> c = a"
  by (auto simp: pairs_def)

lemma opener_matching: "opener c \<longleftrightarrow> (\<exists>b. map_of matching_punctuation c = Some b)"
  by (auto simp: matching_iff opener_def pairs_def)

text \<open>The loop empties its stack exactly where \<open>unwind\<close> does.\<close>

lemma inside_loop_iff:
  "list_all2 pairs opened closes \<Longrightarrow>
   inside_loop closes rest p = Some q \<longleftrightarrow> (\<exists>w v. rest = w @ v \<and> q = p + length w \<and> unwind opened w)"
proof (induction closes rest p arbitrary: opened rule: inside_loop.induct)
  case (1 rest p)
  then show ?case by auto
next
  case (2 e closes p)
  then show ?case by (auto simp: list_all2_Cons2)
next
  case (3 e closes c rest p)
  then obtain a st where o: "opened = a # st" "pairs a e" "list_all2 pairs st closes" by (auto simp: list_all2_Cons2)
  have eq: "(\<exists>w v. c # rest = w @ v \<and> q = p + length w \<and> unwind opened w) \<longleftrightarrow>
      (\<exists>w v. rest = w @ v \<and> q = p + 1 + length w \<and> unwind opened (c # w))"
  proof
    assume "\<exists>w v. c # rest = w @ v \<and> q = p + length w \<and> unwind opened w"
    then obtain w v where w: "c # rest = w @ v" "q = p + length w" "unwind opened w" by blast
    then obtain w' where "w = c # w'" using o(1) by (cases w) auto
    with w show "\<exists>w v. rest = w @ v \<and> q = p + 1 + length w \<and> unwind opened (c # w)"
      by (intro exI [of _ w'] exI [of _ v]) simp
  next
    assume "\<exists>w v. rest = w @ v \<and> q = p + 1 + length w \<and> unwind opened (c # w)"
    then obtain w v where "rest = w @ v" "q = p + 1 + length w" "unwind opened (c # w)" by blast
    then show "\<exists>w v. c # rest = w @ v \<and> q = p + length w \<and> unwind opened w"
      by (intro exI [of _ "c # w"] exI [of _ v]) simp
  qed
  consider "c = e" | "c \<noteq> e" "closer c" | b where "\<not> closer c" "pairs c b" | "\<not> closer c" "\<not> opener c"
    using opener_matching matching_iff by blast
  then show ?case
  proof cases
    case 1
    with o pairs_cases have "opener a" "closer c" "\<not> opener c" by blast+
    with 1 o "3.IH"(1) [OF 1 o(3)] show ?thesis unfolding eq by simp
  next
    case 2
    with o have "\<not> opener c" "\<not> pairs a c" by (auto simp: closer_def opener_def pairs_unique(1))
    with 2 o show ?thesis unfolding eq by (simp add: closing_iff)
  next
    case (3 b)
    then have ne: "c \<noteq> e" using o pairs_cases by blast
    from 3 have m: "map_of matching_punctuation c = Some b" by (simp add: matching_iff)
    from 3 pairs_cases have "opener c" by blast
    moreover have "list_all2 pairs (c # a # st) (b # e # closes)" using 3 o by simp
    note "3.IH"(3) [OF ne _ m this]
    ultimately show ?thesis using 3(1) ne m o(1) unfolding eq by (simp add: closing_iff)
  next
    case 4
    then have ne: "c \<noteq> e" using o pairs_cases by blast
    from 4 have m: "map_of matching_punctuation c = None" using opener_matching by (cases "map_of matching_punctuation c") auto
    from "3.IH"(2) [OF ne _ m "3.prems"] 4 ne m o(1) show ?thesis unfolding eq by (simp add: closing_iff)
  qed
qed

subsection \<open>The name of a \<open>printf\<close> function is found again\<close>

lemma printf_name_found:
  assumes "Searches rx_printf_start line"
  shows "Searches rx_printf_name line"
proof -
  let ?S = "any_case ''string''" let ?P = "any_case ''printf''"
  have plain: "capfree ?S" "backless ?S" "capfree ?P" "backless ?P" by (simp_all add: any_case_def)
  from assms obtain m where "Search rx_printf_start line = Some m" by (auto simp: Searches_def)
  then obtain a b st where line: "line = a @ b" and st: "st \<in> set (mt rx_printf_start (MS (rev a) b []))" by (rule Search_SomeE)
  let ?st = "MS (rev a) b []"
  from st obtain st2 st3 st4 where m: "?st \<in> set (mt WordB ?st)" "st2 \<in> set (mt (opt (Grp 1 ?S)) ?st)"
    "st3 \<in> set (mt ?P st2)" "st4 \<in> set (mt sp0 st3)" "st \<in> set (mt (Lit ''('') st4)"
    unfolding rx_printf_start_def mt_cats_Cons by (auto simp del: mt.simps(2,8,9) split: if_splits)
  have "recap [] st2 \<in> set (mt (opt ?S) ?st)"
  proof -
    from m(2) consider "st2 = ?st" | st1 where "st1 \<in> set (mt ?S ?st)" "st2 = capture 1 ?st st1"
      unfolding mt_opt_iff by auto
    then show ?thesis
    proof cases
      case 1
      then show ?thesis unfolding mt_opt_iff by (simp add: recap_def)
    next
      case 2
      then have "recap [] st2 = recap [] st1" by (simp add: recap_def capture_def)
      moreover have "recap [] st1 \<in> set (mt ?S (recap [] ?st))" using 2 plain by (intro mt_recapI)
      ultimately show ?thesis unfolding mt_opt_iff by (simp add: recap_def)
    qed
  qed
  moreover have "recap [] st3 \<in> set (mt ?P (recap [] st2))" using m(3) plain by (intro mt_recapI)
  ultimately have "recap [] st3 \<in> set (mt (cats [opt ?S, ?P]) ?st)" by (simp add: mt_cats_two del: mt.simps) blast
  then have "capture 1 ?st (recap [] st3) \<in> set (mt (Grp 1 (cats [opt ?S, ?P])) ?st)"
    unfolding mt.simps(9) set_map by (rule imageI)
  moreover have "capture 1 ?st (recap [] st3) = recap (mcaps (capture 1 ?st (recap [] st3))) st3"
    by (simp add: capture_def recap_def)
  then obtain c where c: "capture 1 ?st (recap [] st3) = recap c st3" by blast
  moreover have "recap c st4 \<in> set (mt sp0 (recap c st3))" "recap c st \<in> set (mt (Lit ''('') (recap c st4))"
    using m(4,5) by (intro mt_recapI; simp)+
  ultimately have "recap c st \<in> set (mt rx_printf_name ?st)"
    unfolding rx_printf_name_def using m(1)
    by (intro mt_catsI [where ?st1.0 = ?st] mt_catsI [where ?st1.0 = "recap c st3"] mt_catsI [where ?st1.0 = "recap c st4"]
        mt_catsI [where ?st1.0 = "recap c st"] mt_cats_nil) simp_all
  then show ?thesis unfolding line by (rule SearchesI)
qed

subsection \<open>What \<open>CheckLanguage\<close> does to the states\<close>

lemma GetTextInside_cases:
  assumes "Search start_pattern txt = Some m" and "0 < m_end m" and "pairs (txt ! (m_end m - 1)) b"
  shows "GetTextInside txt start_pattern =
     Inr (map_option (\<lambda>q. take (q - 1 - m_end m) (drop (m_end m) txt)) (inside_loop [b] (drop (m_end m) txt) (m_end m)))"
proof -
  have "m_end m - 1 < length txt" using assms(2) Search_text [OF assms(1)] by linarith
  then have "py_idx txt (int (m_end m) - 1) = Inr (txt ! (m_end m - 1))"
    using py_idx_nat [of "m_end m - 1" "txt"] assms(2) by (simp add: of_nat_diff)
  with assms show ?thesis by (simp add: GetTextInside_def Let_def matching_iff [symmetric])
qed

lemma printf_text_returns: "lands (\<lambda>u. u \<noteq> None \<longrightarrow> Searches rx_printf_name line) (GetTextInside line rx_printf_start)"
proof (cases "Search rx_printf_start line")
  case None
  then show ?thesis by (simp add: GetTextInside_def)
next
  case (Some m)
  then have "Search (cats ([WordB, opt (Grp 1 (any_case ''string'')), any_case ''printf'', sp0] @ [Lit [CHR ''('']])) line = Some m"
    by (simp only: rx_printf_start_def append.simps)
  from Search_last_char [OF this] have e: "0 < m_end m" "pairs (line ! (m_end m - 1)) CHR '')''"
    by (simp_all add: pairs_def)
  from Some have "Searches rx_printf_start line" by (simp add: Searches_def)
  from printf_name_found [OF this] GetTextInside_cases [OF Some e] show ?thesis by simp
qed

context error_handler
begin

lemma check_printf_argument_keeps: "keeps I (check_printf_argument filename linenum error line)"
proof (rule keepsI)
  fix s assume "I s"
  from printf_text_returns [of line] obtain u where
    u: "GetTextInside line rx_printf_start = Inr u" "u \<noteq> None \<longrightarrow> Searches rx_printf_name line" by (auto simp: lands_def)
  with \<open>I s\<close> show "lands I (check_printf_argument filename linenum error line s)"
    unfolding check_printf_argument_def u(1) rbind_simps
    by (auto simp: Searches_def intro!: error_lands split: option.split if_splits)
qed

lemma check_other_rules_keeps: "keeps I (check_other_rules filename linenum file_extension error line)"
  unfolding check_other_rules_def
  by (intro keeps_steps)
    (auto simp: check_basic_types_def check_memset_def check_array_def
      intro!: keeps_intros error_keeps check_printf_argument_keeps split: option.split)

lemma CheckPrintf_keeps: "linenum < length (elided cl) \<Longrightarrow> keeps I (CheckPrintf filename cl linenum error)"
  unfolding CheckPrintf_def by (intro keeps_intros) (auto intro!: keeps_intros error_keeps split: option.split)

lemma CheckGlobalStatic_keeps:
  assumes "lines_ok cl" "linenum < num_lines cl"
  shows "keeps I (CheckGlobalStatic filename cl linenum error)"
proof -
  have len: "length (elided cl) = num_lines cl" using assms(1) by (simp add: lines_ok_def)
  then have n: "linenum < length (elided cl)" using assms(2) by simp
  have joined: "lands (\<lambda>_. True) (if linenum + 1 < NumLines cl \<and> c
      then rbind (py_idx (elided cl) (int (linenum + 1))) (\<lambda>next_line. Inr (f next_line)) else Inr x)" for c f x
    using len py_idx_nat [of "linenum + 1" "elided cl"] by (auto simp: NumLines_def simp del: of_nat_add)
  have "keeps I (steps [check_global_string filename linenum error line,
      whenever (Searches rx_self_init line \<or> Searches rx_self_init_notnull line)
        (error filename (int linenum) ''runtime/init'' 4 ''You seem to be initializing a member variable with itself.'')])" for line
    by (intro keeps_steps) (auto simp: check_global_string_def intro!: keeps_intros error_keeps split: option.split)
  then show ?thesis
    unfolding CheckGlobalStatic_def py_idx_nat [OF n] rbind_simps
    by (intro keepsI lands_bind [OF joined]) (rule keeps_lands)
qed

lemma CheckLanguage_permits:
  assumes "lines_ok cl" "linenum < num_lines cl" "length (cl_lines cl) = num_lines cl"
    and "RepositoryName env filename = Inr g"
  shows "permits {IndexError} (\<lambda>(st, s). include_ok st \<and> I s)
     (\<lambda>(st, s). CheckLanguage env filename cl linenum file_extension error st s)"
  unfolding permits_def
proof (clarify)
  fix st s assume st: "include_ok st" and s: "I s"
  let ?ok = "\<lambda>r. case r of Inl e \<Rightarrow> e \<in> {IndexError} | Inr p \<Rightarrow> (case p of (st, s) \<Rightarrow> include_ok st \<and> I s)"
  have n: "linenum < length (elided cl)" "linenum < length (cl_lines cl)" using assms(1-3) by (simp_all add: lines_ok_def)
  let ?line = "elided cl ! linenum"
  let ?checks = "steps [CheckCasts filename cl linenum error, CheckGlobalStatic filename cl linenum error,
      CheckPrintf filename cl linenum error, check_other_rules filename linenum file_extension error ?line]"
  have "permits {IndexError} I ?checks"
    using CheckCasts_permits [OF assms(1,2)] CheckGlobalStatic_keeps [OF assms(1,2)] CheckPrintf_keeps [OF n(1)]
    by (intro permits_steps) (simp add: keeps_permits check_other_rules_keeps)
  then have checks: "?ok (rbind (?checks s) (\<lambda>s. Inr (st', s)))" if "include_ok st'" for st'
    using s that by (auto simp: permits_def rbind_def split: sum.splits)
  have "?ok (CheckIncludeLine env error filename cl linenum st s)"
    using CheckIncludeLine_lands [OF st s n(2,1) assms(4)] by (auto simp: lands_def)
  moreover obtain st' where "(case Match rx_conditional_directive ?line of
      Some m \<Rightarrow> ResetSection (group m 1) st | None \<Rightarrow> Inr st) = Inr st'" "include_ok st'"
    using ResetSection_ok [OF st] st by (cases "Match rx_conditional_directive ?line") (auto simp: lands_def)
  ultimately show "?ok (CheckLanguage env filename cl linenum file_extension error st s)"
    unfolding CheckLanguage_def py_idx_nat [OF n(1)] rbind_simps using st s checks by auto
qed

end

text \<open>
  A shift to the right in the size of an array is not divided into its operands, unlike one to the left; and
  any second argument of \<^verbatim>\<open>memset\<close> that starts with a digit passes for a plain value.
\<close>

lemma shift_right_not_split:
  "const_tokens False (re_split rx_size_operators ''kSize << 1'')"
  "\<not> const_tokens False (re_split rx_size_operators ''kSize >> 1'')"
  by code_simp+

lemma memset_value_prefix: "Matches rx_memset_value ''2 * size''"
  by code_simp

subsection \<open>Properties\<close>

text \<open>
  C39: where the start pattern matches a text that ends in an opening bracket,
  \<open>_GetTextInside\<close> returns exactly the balanced text between that bracket and the bracket of the same kind
  that closes it, and \<^verbatim>\<open>None\<close> when there is no such text; it raises nothing.
\<close>

theorem text_inside_balanced:
  assumes "Search start_pattern txt = Some m" and "0 < m_end m" and "pairs (txt ! (m_end m - 1)) b"
  shows "(\<forall>u. GetTextInside txt start_pattern = Inr (Some u) \<longleftrightarrow> balanced u \<and> prefix (u @ [b]) (drop (m_end m) txt)) \<and>
     (GetTextInside txt start_pattern = Inr None \<longleftrightarrow> (\<nexists>u. balanced u \<and> prefix (u @ [b]) (drop (m_end m) txt)))"
proof -
  let ?a = "txt ! (m_end m - 1)" let ?rest = "drop (m_end m) txt"
  note run = GetTextInside_cases [OF assms]
  have unw: "unwind [?a] w \<longleftrightarrow> (\<exists>u. w = u @ [b] \<and> balanced u)" for w
    using unwind_single [of ?a w] pairs_cases [OF assms(3)] pairs_unique(1) [OF assms(3)] by auto
  have loop: "inside_loop [b] ?rest (m_end m) = Some q \<longleftrightarrow>
      (\<exists>u v. ?rest = u @ b # v \<and> q = m_end m + length u + 1 \<and> balanced u)" for q
  proof -
    have "inside_loop [b] ?rest (m_end m) = Some q \<longleftrightarrow> (\<exists>w v. ?rest = w @ v \<and> q = m_end m + length w \<and> unwind [?a] w)"
      using assms(3) by (intro inside_loop_iff) simp
    also have "\<dots> \<longleftrightarrow> (\<exists>u v. ?rest = u @ b # v \<and> q = m_end m + length u + 1 \<and> balanced u)"
      unfolding unw
    proof safe
      fix u v
      assume "?rest = u @ b # v" "balanced u"
      then show "\<exists>w v. ?rest = w @ v \<and> m_end m + length u + 1 = m_end m + length w \<and> (\<exists>u. w = u @ [b] \<and> balanced u)"
        by (intro exI [of _ "u @ [b]"] exI [of _ v]) auto
    qed auto
    finally show ?thesis .
  qed
  have some: "GetTextInside txt start_pattern = Inr (Some u) \<longleftrightarrow> balanced u \<and> prefix (u @ [b]) ?rest" for u
  proof
    assume "GetTextInside txt start_pattern = Inr (Some u)"
    with run have "map_option (\<lambda>q. take (q - 1 - m_end m) ?rest) (inside_loop [b] ?rest (m_end m)) = Some u" by simp
    then obtain q where q: "inside_loop [b] ?rest (m_end m) = Some q" "u = take (q - 1 - m_end m) ?rest" by auto
    with loop obtain w v where "?rest = w @ b # v" "q = m_end m + length w + 1" "balanced w" by blast
    with q(2) show "balanced u \<and> prefix (u @ [b]) ?rest" by simp
  next
    assume "balanced u \<and> prefix (u @ [b]) ?rest"
    then obtain v where v: "?rest = u @ b # v" "balanced u" by (auto elim: prefixE)
    with loop have "inside_loop [b] ?rest (m_end m) = Some (m_end m + length u + 1)" by blast
    with run v show "GetTextInside txt start_pattern = Inr (Some u)" by simp
  qed
  moreover have "GetTextInside txt start_pattern = Inr None \<longleftrightarrow> (\<nexists>u. GetTextInside txt start_pattern = Inr (Some u))"
    unfolding run by (cases "inside_loop [b] ?rest (m_end m)") auto
  ultimately show ?thesis by simp
qed

theorem text_inside_balanced_witness:
  "GetTextInside ''printf(a(), b(c()));'' rx_printf_start = Inr (Some ''a(), b(c())'')"
proof -
  have m: "Search rx_printf_start ''printf(a(), b(c()));'' = Some \<lparr>m_start = 0, m_text = ''printf('', m_caps = []\<rparr>" by code_simp
  have "balanced ''a(), b(c())''"
  proof -
    have one: "balanced (c # w)" if "balanced w" "c \<in> set ''abc, ''" for c w
      using that by (intro bal_char) (auto simp: opener_def closer_def)
    have grp: "balanced (CHR ''('' # u @ CHR '')'' # w)" if "balanced u" "balanced w" for u w
      using that by (intro bal_group) (auto simp: pairs_def)
    have "balanced ''c()''" using one [OF grp [OF bal_nil bal_nil], of "CHR ''c''"] by simp
    then have "balanced ''(), b(c())''"
      using grp [OF bal_nil one [OF one [OF one [OF grp [OF _ bal_nil]]]], of "''c()''" "CHR ''b''" "CHR '' ''" "CHR '',''"] by simp
    then show ?thesis using one [of "''(), b(c())''" "CHR ''a''"] by simp
  qed
  then show ?thesis
    using text_inside_balanced [OF m, of "CHR '')''"] by (simp add: m_end_def pairs_def)
qed

end
