(* ===== verification/Include_Use.thy ===== *)
theory Include_Use
  imports Include_State Expressions "HOL-Library.AList"
begin

section \<open>Includes for what is used\<close>

text \<open>
  The tables of templates, \<open>FilesBelongToSameModule\<close>, \<open>UpdateIncludeState\<close> and
  \<open>CheckForIncludeWhatYouUse\<close> of \<^verbatim>\<open>src/cpplint.py\<close>.

  Two things are parameters: \<open>read_lines\<close>, the lines of a file of the given name (\<open>None\<close> when it cannot be
  opened), and \<open>key_order\<close>, the order in which Python 2 iterates over the keys of a dictionary, which may be
  any.  Dictionaries are association lists here.
\<close>

subsection \<open>Tables\<close>

definition HEADERS_CONTAINING_TEMPLATES :: "(string \<times> string list) list" where
  "HEADERS_CONTAINING_TEMPLATES = [
     (''<deque>'', [''deque'']),
     (''<functional>'', [''unary_function'', ''binary_function'', ''plus'', ''minus'', ''multiplies'', ''divides'',
        ''modulus'', ''negate'', ''equal_to'', ''not_equal_to'', ''greater'', ''less'', ''greater_equal'',
        ''less_equal'', ''logical_and'', ''logical_or'', ''logical_not'', ''unary_negate'', ''not1'',
        ''binary_negate'', ''not2'', ''bind1st'', ''bind2nd'', ''pointer_to_unary_function'',
        ''pointer_to_binary_function'', ''ptr_fun'', ''mem_fun_t'', ''mem_fun'', ''mem_fun1_t'',
        ''mem_fun1_ref_t'', ''mem_fun_ref_t'', ''const_mem_fun_t'', ''const_mem_fun1_t'',
        ''const_mem_fun_ref_t'', ''const_mem_fun1_ref_t'', ''mem_fun_ref'']),
     (''<limits>'', [''numeric_limits'']),
     (''<list>'', [''list'']),
     (''<map>'', [''map'', ''multimap'']),
     (''<memory>'', [''allocator'', ''make_shared'', ''make_unique'', ''shared_ptr'', ''unique_ptr'', ''weak_ptr'']),
     (''<queue>'', [''queue'', ''priority_queue'']),
     (''<set>'', [''set'', ''multiset'']),
     (''<stack>'', [''stack'']),
     (''<string>'', [''char_traits'', ''basic_string'']),
     (''<tuple>'', [''tuple'']),
     (''<unordered_map>'', [''unordered_map'', ''unordered_multimap'']),
     (''<unordered_set>'', [''unordered_set'', ''unordered_multiset'']),
     (''<utility>'', [''pair'']),
     (''<vector>'', [''vector'']),
     (''<hash_map>'', [''hash_map'', ''hash_multimap'']),
     (''<hash_set>'', [''hash_set'', ''hash_multiset'']),
     (''<slist>'', [''slist''])]"

definition HEADERS_MAYBE_TEMPLATES :: "(string \<times> string list) list" where
  "HEADERS_MAYBE_TEMPLATES = [
     (''<algorithm>'', [''copy'', ''max'', ''min'', ''min_element'', ''sort'', ''transform'']),
     (''<utility>'', [''forward'', ''make_pair'', ''move'', ''swap''])]"

definition RE_PATTERN_STRING :: rx where
  "RE_PATTERN_STRING = cats [WordB, Lit ''string'', WordB]"

text \<open>A pattern, the entity that it finds and the header that this needs.\<close>

definition re_pattern_headers_maybe_templates :: "(rx \<times> string \<times> string) list" where
  "re_pattern_headers_maybe_templates =
     concat (map (\<lambda>(header, templates). map (\<lambda>template.
       (cats [NSet [Ch ''>.''], WordB, Lit template, opt (Grp 1 (cats [Lit ''<'', lazy_star Dot, Lit ''>''])), Lit ''('',
          NSet [Ch '')'']], template, header)) templates) HEADERS_MAYBE_TEMPLATES)"

definition re_pattern_templates :: "(rx \<times> string \<times> string) list" where
  "re_pattern_templates =
     concat (map (\<lambda>(header, templates). map (\<lambda>template.
       (cats [Grp 1 (alts [Lit ''<'', WordB]), Lit template, sp0, Lit ''<''], template @ ''<>'', header)) templates)
       HEADERS_CONTAINING_TEMPLATES)"

subsection \<open>Files of one module\<close>

definition drop_visibility :: "string \<Rightarrow> string" where
  "drop_visibility filename = py_replace ''/internal/'' ''/'' (py_replace ''/public/'' ''/'' filename)"

definition source_stem :: "env \<Rightarrow> string \<Rightarrow> string res" where
  "source_stem env filename_cc =
     rbind (Extension env filename_cc) (\<lambda>ext.
     rbind (BaseName env filename_cc) (\<lambda>base.
       let stem = py_upto filename_cc (- int (length ext)) in
       Inr (drop_visibility
         (case Search TEST_FILE_SUFFIX base of
            Some m \<Rightarrow> py_upto stem (- int (length (group m 1)))
          | None \<Rightarrow> stem))))"

definition header_stem :: "string \<Rightarrow> string" where
  "header_stem filename_h =
     (let stem = py_upto filename_h (-2) in
      drop_visibility (if py_endswith stem ''-inl'' then py_upto stem (-4) else stem))"

definition FilesBelongToSameModule :: "env \<Rightarrow> string \<Rightarrow> string \<Rightarrow> (bool \<times> string) res" where
  "FilesBelongToSameModule env filename_cc filename_h =
     rbind (IsSource env filename_cc) (\<lambda>is_source.
       if \<not> is_source then Inr (False, [])
       else rbind (source_stem env filename_cc) (\<lambda>cc.
         if \<not> py_endswith filename_h ''.h'' then Inr (False, [])
         else let h = header_stem filename_h in
           if py_endswith cc h then Inr (True, py_upto cc (- int (length h))) else Inr (False, [])))"

subsection \<open>What the file uses\<close>

text \<open>Names of a namespace that is not \<^verbatim>\<open>std\<close> do not count.\<close>

definition standard_scope :: "string \<Rightarrow> bool" where
  "standard_scope scope \<longleftrightarrow> py_endswith scope ''std::'' \<or> \<not> py_endswith scope ''::''"

definition scoped_use :: "string \<Rightarrow> rx \<times> string \<times> string \<Rightarrow> (string \<times> string) list" where
  "scoped_use line = (\<lambda>(pattern, template, header).
     case Search pattern line of
       Some m \<Rightarrow> if standard_scope (take (m_start m) line) then [(header, template)] else []
     | None \<Rightarrow> [])"

definition plain_use :: "string \<Rightarrow> rx \<times> string \<times> string \<Rightarrow> (string \<times> string) list" where
  "plain_use line = (\<lambda>(pattern, template, header). if Searches pattern line then [(header, template)] else [])"

text \<open>The headers that one line requires, each with the reason, in the order in which they are recorded.\<close>

definition line_uses :: "string \<Rightarrow> (string \<times> string) list" where
  "line_uses line =
     (if line = [] \<or> hd line = CHR ''#'' then []
      else scoped_use line (RE_PATTERN_STRING, ''string'', ''<string>'') @
           concat (map (plain_use line) re_pattern_headers_maybe_templates) @
           (if py_in ''<'' line then concat (map (scoped_use line) re_pattern_templates) else []))"

type_synonym required = "(string \<times> nat \<times> string) list"

definition require_line :: "CleansedLines \<Rightarrow> nat \<Rightarrow> required \<Rightarrow> required res" where
  "require_line cl linenum req =
     rbind (py_idx (elided cl) (int linenum)) (\<lambda>line.
       Inr (fold (\<lambda>(header, template). AList.update header (linenum, template)) (line_uses line) req))"

definition required_headers :: "CleansedLines \<Rightarrow> required res" where
  "required_headers cl = rfold (require_line cl) [0..<NumLines cl] []"

subsection \<open>What the file includes\<close>

type_synonym include_dict = "(string \<times> nat) list"

definition setdefault :: "string \<Rightarrow> nat \<Rightarrow> include_dict \<Rightarrow> include_dict" where
  "setdefault k v d = (if map_of d k = None then AList.update k v d else d)"

definition UpdateIncludeState :: "(string \<Rightarrow> string list option) \<Rightarrow> string \<Rightarrow> include_dict \<Rightarrow> bool \<times> include_dict" where
  "UpdateIncludeState read_lines filename d =
     (case read_lines filename of
        None \<Rightarrow> (False, d)
      | Some headerfile \<Rightarrow>
          (True, fold (\<lambda>(linenum, line) d.
             case Search RE_PATTERN_INCLUDE (CleanseComments line) of
               Some m \<Rightarrow> setdefault (group m 2) linenum d
             | None \<Rightarrow> d) (enumerate 1 headerfile) d))"

definition rx_flymake :: rx where
  "rx_flymake = cats [Lit ''_flymake.cc'', Eol]"

definition abs_filename :: "env \<Rightarrow> string \<Rightarrow> string" where
  "abs_filename env filename = ReplaceAll rx_flymake ''.cc'' (FullName env filename)"

definition read_own_header ::
  "env \<Rightarrow> (string \<Rightarrow> string list option) \<Rightarrow> string \<Rightarrow> string \<Rightarrow> bool \<times> include_dict \<Rightarrow> (bool \<times> include_dict) res" where
  "read_own_header env read_lines source header p =
     rbind (FilesBelongToSameModule env source header) (\<lambda>(same_module, common_path).
       if same_module then
         (case UpdateIncludeState read_lines (common_path @ header) (snd p) of (ok, d) \<Rightarrow> Inr (fst p \<or> ok, d))
       else Inr p)"

definition known_includes ::
  "env \<Rightarrow> (string \<Rightarrow> string list option) \<Rightarrow> (string list \<Rightarrow> string list) \<Rightarrow> string \<Rightarrow> IncludeState \<Rightarrow>
   (bool \<times> include_dict) res" where
  "known_includes env read_lines key_order filename include_state =
     (let d = fold (\<lambda>(k, v). AList.update k v) (concat (include_list include_state)) []
      in rfold (read_own_header env read_lines (abs_filename env filename)) (key_order (map fst d)) (False, d))"

subsection \<open>The check\<close>

definition strip_delimiters :: "string \<Rightarrow> string" where
  "strip_delimiters s =
     (let delimiter = (\<lambda>c. c \<in> set [CHR ''<'', CHR ''>'', dquote])
      in rev (dropWhile delimiter (rev (dropWhile delimiter s))))"

definition missing_headers ::
  "env \<Rightarrow> (string \<Rightarrow> string list option) \<Rightarrow> (string list \<Rightarrow> string list) \<Rightarrow> string \<Rightarrow> CleansedLines \<Rightarrow> IncludeState \<Rightarrow>
   required res" where
  "missing_headers env read_lines key_order filename cl include_state =
     rbind (required_headers cl) (\<lambda>req.
     rbind (known_includes env read_lines key_order filename include_state) (\<lambda>(header_found, d).
       Inr (if py_endswith filename ''.cc'' \<and> \<not> header_found then []
            else map (\<lambda>h. (h, the (map_of req h)))
                   (filter (\<lambda>h. map_of d (strip_delimiters h) = None) (key_order (map fst req))))))"

definition CheckForIncludeWhatYouUse ::
  "env \<Rightarrow> (string \<Rightarrow> string list option) \<Rightarrow> (string list \<Rightarrow> string list) \<Rightarrow> string \<Rightarrow> CleansedLines \<Rightarrow> IncludeState \<Rightarrow>
   error_fn \<Rightarrow> action" where
  "CheckForIncludeWhatYouUse env read_lines key_order filename cl include_state error s =
     rbind (missing_headers env read_lines key_order filename cl include_state)
       (\<lambda>missing. rfold (\<lambda>(header, linenum, template).
          error filename (int linenum) ''build/include_what_you_use'' 4
            (''Add #include '' @ header @ '' for '' @ template)) missing s)"

subsection \<open>The last use of each header\<close>

text \<open>The uses of a line without the shortcut for lines without an opening angle bracket.\<close>

definition all_uses :: "string \<Rightarrow> (string \<times> string) list" where
  "all_uses line =
     (if line = [] \<or> hd line = CHR ''#'' then []
      else scoped_use line (RE_PATTERN_STRING, ''string'', ''<string>'') @
           concat (map (plain_use line) re_pattern_headers_maybe_templates) @
           concat (map (scoped_use line) re_pattern_templates))"

text \<open>The last reason recorded for a header on a line.\<close>

definition reason :: "string \<Rightarrow> string \<Rightarrow> string option" where
  "reason line header = map_of (rev (all_uses line)) header"

definition last_use :: "CleansedLines \<Rightarrow> nat \<Rightarrow> string \<Rightarrow> nat \<Rightarrow> string \<Rightarrow> bool" where
  "last_use cl k header n template \<longleftrightarrow>
     n < k \<and> reason (elided cl ! n) header = Some template \<and>
     (\<forall>i. n < i \<longrightarrow> i < k \<longrightarrow> reason (elided cl ! i) header = None)"

lemma templates_need_angle: "(r, t, h) \<in> set re_pattern_templates \<Longrightarrow> needs ''<'' r"
  by (auto simp: re_pattern_templates_def)

lemma shortcut: "line_uses line = all_uses line"
proof (cases "py_in ''<'' line")
  case False
  then have ns: "\<not> sublist ''<'' line" by (simp add: py_in_def py_find_None_iff)
  have "scoped_use line x = []" if "x \<in> set re_pattern_templates" for x
  proof -
    obtain r t h where x: "x = (r, t, h)" by (cases x)
    with that templates_need_angle have "needs ''<'' r" by blast
    from needs_no_Search [OF this ns] show ?thesis by (simp add: x scoped_use_def Searches_def)
  qed
  then have "concat (map (scoped_use line) re_pattern_templates) = []" by simp
  with False show ?thesis by (simp add: line_uses_def all_uses_def)
qed (simp add: line_uses_def all_uses_def)

lemma map_of_recorded:
  "map_of (fold (\<lambda>(h, t). AList.update h (n, t)) us req) header =
     (case map_of (rev us) header of Some t \<Rightarrow> Some (n, t) | None \<Rightarrow> map_of req header)"
  by (induction us rule: rev_induct) (auto simp: update_conv split: option.splits)

lemma distinct_recorded:
  "distinct (map fst req) \<Longrightarrow> distinct (map fst (fold (\<lambda>(h, t). AList.update h (n, t)) us req))"
  by (induction us arbitrary: req) (auto simp: distinct_update)

lemma required_upto:
  assumes "k \<le> length (elided cl)"
  shows "\<exists>req. rfold (require_line cl) [0..<k] [] = Inr req \<and> distinct (map fst req) \<and>
     (\<forall>h n t. map_of req h = Some (n, t) \<longleftrightarrow> last_use cl k h n t)"
  using assms
proof (induction k)
  case 0
  then show ?case by (simp add: last_use_def)
next
  case (Suc k)
  then obtain req where req: "rfold (require_line cl) [0..<k] [] = Inr req" "distinct (map fst req)"
    "\<And>h n t. map_of req h = Some (n, t) \<longleftrightarrow> last_use cl k h n t" by auto
  let ?line = "elided cl ! k"
  let ?req = "fold (\<lambda>(h, t). AList.update h (k, t)) (line_uses ?line) req"
  have "rfold (require_line cl) [0..<Suc k] [] = Inr ?req"
    using Suc.prems req(1) by (simp add: rfold_append require_line_def)
  moreover have "map_of ?req h = Some (n, t) \<longleftrightarrow> last_use cl (Suc k) h n t" for h n t
  proof (cases "reason ?line h")
    case None
    then have "map_of ?req h = map_of req h" by (simp add: map_of_recorded shortcut reason_def)
    moreover have "last_use cl (Suc k) h n t \<longleftrightarrow> last_use cl k h n t"
      using None by (auto simp: last_use_def less_Suc_eq)
    ultimately show ?thesis using req(3) by simp
  next
    case (Some t')
    then have "map_of ?req h = Some (k, t')" by (simp add: map_of_recorded shortcut reason_def)
    moreover have "last_use cl (Suc k) h n t \<longleftrightarrow> n = k \<and> t = t'"
      using Some by (auto simp: last_use_def less_Suc_eq)
    ultimately show ?thesis by auto
  qed
  ultimately show ?case using distinct_recorded [OF req(2)] by blast
qed

subsection \<open>The headers that are known\<close>

definition lines_include :: "string list \<Rightarrow> string set" where
  "lines_include ls = {group m 2 | m. \<exists>line \<in> set ls. Search RE_PATTERN_INCLUDE (CleanseComments line) = Some m}"

definition opened :: "env \<Rightarrow> (string \<Rightarrow> string list option) \<Rightarrow> string \<Rightarrow> string \<Rightarrow> string list \<Rightarrow> bool" where
  "opened env read_lines source header ls \<longleftrightarrow>
     (\<exists>p. FilesBelongToSameModule env source header = Inr (True, p) \<and> read_lines (p @ header) = Some ls)"

lemma dom_setdefault: "dom (map_of (setdefault k v d)) = insert k (dom (map_of d))"
  by (auto simp: setdefault_def update_conv)

lemma dom_updated:
  "dom (map_of (fold (\<lambda>(linenum, line) d.
       case Search RE_PATTERN_INCLUDE (CleanseComments line) of Some m \<Rightarrow> setdefault (group m 2) linenum d | None \<Rightarrow> d)
     (enumerate k ls) d)) = lines_include ls \<union> dom (map_of d)"
proof (induction ls arbitrary: k d)
  case (Cons line ls)
  have "lines_include (line # ls) =
      (case Search RE_PATTERN_INCLUDE (CleanseComments line) of Some m \<Rightarrow> {group m 2} | None \<Rightarrow> {}) \<union> lines_include ls"
    by (auto simp: lines_include_def split: option.splits)
  then show ?case by (auto simp: Cons dom_setdefault split: option.splits)
qed (simp add: lines_include_def)

lemma FilesBelongToSameModule_returns:
  assumes "RepositoryName env source = Inr g"
  shows "lands (\<lambda>_. True) (FilesBelongToSameModule env source header)"
proof -
  obtain project base ext where "Split env source = Inr (project, base, ext)"
    using Split_returns [OF assms] by (auto simp: returns_def)
  then show ?thesis
    by (simp add: FilesBelongToSameModule_def IsSource_def Extension_def BaseName_def source_stem_def Let_def)
qed

lemma read_own_headers:
  assumes "RepositoryName env source = Inr g"
  shows "\<exists>found' d'. rfold (read_own_header env read_lines source) ks (found, d) = Inr (found', d') \<and>
     (found' \<longleftrightarrow> found \<or> (\<exists>k \<in> set ks. \<exists>ls. opened env read_lines source k ls)) \<and>
     dom (map_of d') = dom (map_of d) \<union> (\<Union>k \<in> set ks. \<Union>ls \<in> {ls. opened env read_lines source k ls}. lines_include ls)"
proof (induction ks arbitrary: found d)
  case (Cons k ks)
  from FilesBelongToSameModule_returns [OF assms, of k] obtain same p where
    f: "FilesBelongToSameModule env source k = Inr (same, p)" by (auto simp: lands_def)
  show ?case
  proof (cases "\<exists>ls. opened env read_lines source k ls")
    case True
    then obtain ls where ls: "opened env read_lines source k ls" by blast
    with f have o: "opened env read_lines source k ls' \<longleftrightarrow> ls' = ls" for ls' by (auto simp: opened_def)
    from ls f obtain d1 where step: "read_own_header env read_lines source k (found, d) = Inr (True, d1)"
      "dom (map_of d1) = lines_include ls \<union> dom (map_of d)"
      by (auto simp: opened_def read_own_header_def UpdateIncludeState_def dom_updated)
    from Cons.IH [of True d1] step(1) obtain found' d' where
      rest: "rfold (read_own_header env read_lines source) (k # ks) (found, d) = Inr (found', d')" "found'"
        "dom (map_of d') = dom (map_of d1) \<union> (\<Union>k \<in> set ks. \<Union>ls \<in> {ls. opened env read_lines source k ls}. lines_include ls)" by auto
    have "{ls. opened env read_lines source k ls} = {ls}" using o by auto
    with rest ls step(2) show ?thesis by (intro exI [of _ found'] exI [of _ d']) auto
  next
    case False
    with f have "read_own_header env read_lines source k (found, d) = Inr (found, d)"
      by (auto simp: opened_def read_own_header_def UpdateIncludeState_def split: option.splits)
    with Cons.IH [of found d] False show ?thesis by auto
  qed
qed simp

definition own_includes :: "IncludeState \<Rightarrow> string set" where
  "own_includes st = fst ` set (concat (include_list st))"

definition known_headers :: "env \<Rightarrow> (string \<Rightarrow> string list option) \<Rightarrow> string \<Rightarrow> IncludeState \<Rightarrow> string set" where
  "known_headers env read_lines source st =
     own_includes st \<union> (\<Union>k \<in> own_includes st. \<Union>ls \<in> {ls. opened env read_lines source k ls}. lines_include ls)"

lemma dom_dict: "dom (map_of (fold (\<lambda>(k, v). AList.update k v) xs d)) = fst ` set xs \<union> dom (map_of d)"
  by (induction xs arbitrary: d) (auto simp: update_conv split: prod.splits)

lemma known_includes_spec:
  assumes "RepositoryName env (abs_filename env filename) = Inr g" and "\<And>ks. set (key_order ks) = set ks"
  shows "\<exists>found d. known_includes env read_lines key_order filename st = Inr (found, d) \<and>
     (found \<longleftrightarrow> (\<exists>k \<in> own_includes st. \<exists>ls. opened env read_lines (abs_filename env filename) k ls)) \<and>
     dom (map_of d) = known_headers env read_lines (abs_filename env filename) st"
proof -
  let ?d = "fold (\<lambda>(k, v). AList.update k v) (concat (include_list st)) []"
  have keys: "set (key_order (map fst ?d)) = own_includes st" and dom: "dom (map_of ?d) = own_includes st"
    using dom_dict [of "concat (include_list st)" "[]"] assms(2) by (simp_all add: own_includes_def dom_map_of_conv_image_fst)
  from read_own_headers [OF assms(1), of read_lines "key_order (map fst ?d)" False ?d] show ?thesis
    unfolding known_includes_def Let_def keys dom known_headers_def by simp
qed

lemma missing_headers_spec:
  assumes "lines_ok cl" and "RepositoryName env (abs_filename env filename) = Inr g" and "\<And>ks. set (key_order ks) = set ks"
  shows "\<exists>missing. missing_headers env read_lines key_order filename cl st = Inr missing \<and>
     (\<forall>header n template. (header, n, template) \<in> set missing \<longleftrightarrow>
        last_use cl (num_lines cl) header n template \<and>
        strip_delimiters header \<notin> known_headers env read_lines (abs_filename env filename) st \<and>
        (py_endswith filename ''.cc'' \<longrightarrow>
           (\<exists>k \<in> own_includes st. \<exists>ls. opened env read_lines (abs_filename env filename) k ls)))"
proof -
  have "length (elided cl) = num_lines cl" using assms(1) by (simp add: lines_ok_def)
  with required_upto [of "NumLines cl" cl] obtain req where req: "required_headers cl = Inr req" "distinct (map fst req)"
    "\<And>h n t. map_of req h = Some (n, t) \<longleftrightarrow> last_use cl (num_lines cl) h n t"
    by (auto simp: required_headers_def NumLines_def)
  from known_includes_spec [OF assms(2,3)] obtain found d where
    known: "known_includes env read_lines key_order filename st = Inr (found, d)"
      "found \<longleftrightarrow> (\<exists>k \<in> own_includes st. \<exists>ls. opened env read_lines (abs_filename env filename) k ls)"
      "dom (map_of d) = known_headers env read_lines (abs_filename env filename) st" by blast
  have unknown: "map_of d x = None \<longleftrightarrow> x \<notin> known_headers env read_lines (abs_filename env filename) st" for x
    unfolding known(3) [symmetric] by (simp add: domIff)
  let ?missing = "if py_endswith filename ''.cc'' \<and> \<not> found then []
     else map (\<lambda>h. (h, the (map_of req h))) (filter (\<lambda>h. map_of d (strip_delimiters h) = None) (key_order (map fst req)))"
  have "missing_headers env read_lines key_order filename cl st = Inr ?missing"
    by (simp add: missing_headers_def req(1) known(1))
  moreover have "(h, n, t) \<in> set ?missing \<longleftrightarrow>
      last_use cl (num_lines cl) h n t \<and> map_of d (strip_delimiters h) = None \<and> (py_endswith filename ''.cc'' \<longrightarrow> found)" for h n t
  proof -
    have "h \<in> fst ` set req \<and> (n, t) = the (map_of req h) \<longleftrightarrow> map_of req h = Some (n, t)"
      using map_of_eq_None_iff [of req h] by (cases "map_of req h") auto
    then show ?thesis by (auto simp: assms(3) req(3))
  qed
  ultimately show ?thesis unfolding unknown known(2) by blast
qed

context error_handler
begin

lemma CheckForIncludeWhatYouUse_keeps:
  assumes "missing_headers env read_lines key_order filename cl st = Inr missing"
  shows "keeps I (CheckForIncludeWhatYouUse env read_lines key_order filename cl st error)"
proof -
  have "keeps I (rfold (\<lambda>(header, linenum, template). error filename (int linenum) ''build/include_what_you_use'' 4
      (''Add #include '' @ header @ '' for '' @ template)) missing)"
    by (intro keeps_rfold) (auto intro!: error_keeps)
  then show ?thesis
    unfolding CheckForIncludeWhatYouUse_def assms rbind_simps .
qed

end

subsection \<open>Properties\<close>


text \<open>
  The prefix that is returned for opening the header leaves out the directories that were dropped for the comparison.
\<close>

lemma prefix_skips_internal:
  "FilesBelongToSameModule no_files ''/a/internal/b/x.cc'' ''b/x.h'' = Inr (True, ''/a/'')"
  by code_simp

definition container_lines :: CleansedLines where
  "container_lines = (let ls = [''vector<A> v;'', ''map<A> m;''] in
     \<lparr>elided = ls, cl_lines = ls, raw_lines = ls, lines_without_raw_strings = ls, num_lines = 2\<rparr>)"

definition own_header_only :: IncludeState where
  "own_header_only = \<lparr>include_list = [[(''a.h'', 0)]], inc_section = INITIAL_SECTION, last_header = []\<rparr>"

definition one_header :: "string \<Rightarrow> string list option" where
  "one_header = [''/w/a.h'' \<mapsto> [''#include <vector>'']]"

text \<open>Only the entities whose names occur in a line need to be searched for.\<close>

definition named_in :: "string \<Rightarrow> rx \<times> string \<times> string \<Rightarrow> bool" where
  "named_in line = (\<lambda>(pattern, template, header). py_in (takeWhile (\<lambda>c. c \<noteq> CHR ''<'') template) line)"

lemma concat_map_filter: "\<forall>x \<in> set xs. \<not> P x \<longrightarrow> f x = [] \<Longrightarrow> concat (map f xs) = concat (map f (filter P xs))"
  by (induction xs) auto

lemma names_needed:
  "\<forall>x \<in> set re_pattern_headers_maybe_templates. needs (takeWhile (\<lambda>c. c \<noteq> CHR ''<'') (fst (snd x))) (fst x)"
  "\<forall>x \<in> set re_pattern_templates. needs (takeWhile (\<lambda>c. c \<noteq> CHR ''<'') (fst (snd x))) (fst x)"
  by code_simp+

lemma all_uses_named:
  "all_uses line =
     (if line = [] \<or> hd line = CHR ''#'' then []
      else scoped_use line (RE_PATTERN_STRING, ''string'', ''<string>'') @
           concat (map (plain_use line) (filter (named_in line) re_pattern_headers_maybe_templates)) @
           concat (map (scoped_use line) (filter (named_in line) re_pattern_templates)))"
proof -
  have "\<forall>x \<in> set re_pattern_headers_maybe_templates. \<not> named_in line x \<longrightarrow> plain_use line x = []"
    "\<forall>x \<in> set re_pattern_templates. \<not> named_in line x \<longrightarrow> scoped_use line x = []"
    using names_needed needs_no_Search
    by (fastforce simp: named_in_def py_in_def py_find_None_iff plain_use_def scoped_use_def Searches_def split: option.split)+
  from concat_map_filter [OF this(1)] concat_map_filter [OF this(2)] show ?thesis by (simp add: all_uses_def)
qed


end
