(* ===== verification/Late_Checks.thy ===== *)
theory Late_Checks
  imports References
begin

section \<open>Redundant specifiers and library features\<close>

text \<open>
  \<open>CheckMakePairUsesDeduction\<close>, \<open>CheckRedundantVirtual\<close>, \<open>CheckRedundantOverrideOrFinal\<close>,
  \<open>FlagCxx11Features\<close> and \<open>FlagCxx14Features\<close> of \<^verbatim>\<open>src/cpplint.py\<close>.
\<close>

definition RE_PATTERN_EXPLICIT_MAKEPAIR :: rx where
  "RE_PATTERN_EXPLICIT_MAKEPAIR = cats [WordB, Lit ''make_pair'', sp0, Lit ''<'']"

definition CheckMakePairUsesDeduction :: "string \<Rightarrow> CleansedLines \<Rightarrow> nat \<Rightarrow> error_fn \<Rightarrow> action" where
  "CheckMakePairUsesDeduction filename cl linenum error =
     on_line (elided cl) linenum (\<lambda>line.
       whenever (Searches RE_PATTERN_EXPLICIT_MAKEPAIR line)
         (error filename (int linenum) ''build/explicit_make_pair'' 4
            (''For C++11-compatibility, omit template arguments from make_pair'' @
             '' OR use pair directly OR if appropriate, construct a pair directly'')))"

subsection \<open>Redundant \<open>virtual\<close>\<close>

definition access_words :: rx where
  "access_words = alts [Lit ''public'', Lit ''protected'', Lit ''private'']"

definition rx_virtual :: rx where
  "rx_virtual = cats [Bol, Grp 1 any0, Grp 2 (cats [WordB, Lit ''virtual'', WordB]), Grp 3 any0, Eol]"

definition rx_access_before :: rx where
  "rx_access_before = cats [WordB, Grp 1 access_words, sp1, Eol]"

definition rx_access_after :: rx where
  "rx_access_after = cats [Bol, sp1, Grp 1 access_words, WordB]"

definition rx_single_colon :: rx where
  "rx_single_colon = cats [Bol, any0, NSet [Ch '':''], Lit '':'', NSet [Ch '':''], any0, Eol]"

definition rx_parameter_list :: rx where
  "rx_parameter_list = cats [Bol, Grp 1 (star (NSet [Ch ''(''])), Lit ''('']"

definition rx_override_or_final :: rx where
  "rx_override_or_final = cats [WordB, Grp 1 (alts [Lit ''override'', Lit ''final'']), WordB]"

definition rx_final :: rx where
  "rx_final = cats [WordB, Lit ''final'', WordB]"

definition rx_symbol_last :: rx where
  "rx_symbol_last = cats [NSet [Wd], sp0, Eol]"

text \<open>
  The first loop: the end of the parameter list that starts on one of the given lines, where the first of them
  is read from column \<open>start_col\<close>.
\<close>

fun parameter_list_end :: "CleansedLines \<Rightarrow> nat list \<Rightarrow> nat \<Rightarrow> (nat \<times> int) res" where
  "parameter_list_end cl [] start_col = Inr (0, -1)"
| "parameter_list_end cl (start_line # rest) start_col =
     rbind (py_idx (elided cl) (int start_line)) (\<lambda>whole.
       case Match rx_parameter_list (drop start_col whole) of
         Some m \<Rightarrow> rbind (CloseExpression cl start_line (start_col + length (group m 1))) (\<lambda>(_, end_line, end_col). Inr (end_line, end_col))
       | None \<Rightarrow> parameter_list_end cl rest 0)"

text \<open>The second loop, over the lines behind the parameter list.\<close>

fun specifier_loop :: "string \<Rightarrow> CleansedLines \<Rightarrow> nat \<Rightarrow> error_fn \<Rightarrow> nat list \<Rightarrow> nat \<Rightarrow> action" where
  "specifier_loop filename cl linenum error [] end_col s = Inr s"
| "specifier_loop filename cl linenum error (i # rest) end_col s =
     rbind (py_idx (elided cl) (int i)) (\<lambda>whole.
       let line = drop end_col whole in
       rbind (case Search rx_override_or_final line of
                Some m \<Rightarrow>
                  error filename (int linenum) ''readability/inheritance'' 4
                    ([dquote] @ ''virtual'' @ [dquote] @ '' is redundant since function is '' @
                     ''already declared as '' @ [dquote] @ group m 1 @ [dquote]) s
              | None \<Rightarrow> Inr s)
         (if Searches rx_symbol_last line then Inr else specifier_loop filename cl linenum error rest 0))"

definition three_lines :: "CleansedLines \<Rightarrow> nat \<Rightarrow> nat list" where
  "three_lines cl start = [start..<min (start + 3) (NumLines cl)]"

definition CheckRedundantVirtual :: "string \<Rightarrow> CleansedLines \<Rightarrow> nat \<Rightarrow> error_fn \<Rightarrow> action" where
  "CheckRedundantVirtual filename cl linenum error s =
     rbind (py_idx (elided cl) (int linenum)) (\<lambda>line.
       case Match rx_virtual line of
         None \<Rightarrow> Inr s
       | Some m \<Rightarrow>
           if Searches rx_access_before (group m 1) \<or> Matches rx_access_after (group m 3) \<or> Matches rx_single_colon line
           then Inr s
           else rbind (parameter_list_end cl (three_lines cl linenum) (length (group m 2))) (\<lambda>(end_line, end_col).
             if end_col < 0 then Inr s
             else specifier_loop filename cl linenum error (three_lines cl end_line) (nat end_col) s))"

text \<open>The part of the line in which both specifiers would be redundant.\<close>

definition specifier_fragment :: "CleansedLines \<Rightarrow> nat \<Rightarrow> string \<Rightarrow> string option res" where
  "specifier_fragment cl linenum line =
     (case py_rfind CHR '')'' line of
        Some declarator_end \<Rightarrow> Inr (Some (drop declarator_end line))
      | None \<Rightarrow>
          if linenum > 1 then
            rbind (py_idx (elided cl) (int linenum - 1)) (\<lambda>line_before.
              Inr (if py_rfind CHR '')'' line_before \<noteq> None then Some line else None))
          else Inr None)"

definition CheckRedundantOverrideOrFinal :: "string \<Rightarrow> CleansedLines \<Rightarrow> nat \<Rightarrow> error_fn \<Rightarrow> action" where
  "CheckRedundantOverrideOrFinal filename cl linenum error s =
     rbind (py_idx (elided cl) (int linenum)) (\<lambda>line.
     rbind (specifier_fragment cl linenum line) (\<lambda>found.
       case found of
         None \<Rightarrow> Inr s
       | Some fragment \<Rightarrow>
           whenever (Searches rx_override fragment \<and> Searches rx_final fragment)
             (error filename (int linenum) ''readability/inheritance'' 4
                ([dquote] @ ''override'' @ [dquote] @ '' is redundant since function is '' @
                 ''already declared as '' @ [dquote] @ ''final'' @ [dquote])) s))"

subsection \<open>Headers and names of newer standards\<close>

definition rx_any_include :: rx where
  "rx_any_include = cats [sp0, Lit ''#'', sp0, Lit ''include'', sp1, Set [Ch ''<'', Ch [dquote]],
     Grp 1 (plus1 (NSet [Ch ''<'', Ch [dquote]])), Set [Ch [dquote], Ch ''>'']]"

definition rx_define_directive :: rx where
  "rx_define_directive = cats [sp0, Lit ''#'', sp0, Lit ''define'', WordB]"

definition unapproved_cxx11_headers :: "string list" where
  "unapproved_cxx11_headers =
     [''cfenv'', ''condition_variable'', ''fenv.h'', ''future'', ''mutex'', ''thread'', ''chrono'', ''ratio'', ''regex'',
      ''system_error'']"

definition FlagCxx11Features :: "string \<Rightarrow> CleansedLines \<Rightarrow> nat \<Rightarrow> error_fn \<Rightarrow> action" where
  "FlagCxx11Features filename cl linenum error =
     on_line (elided cl) linenum (\<lambda>line.
       let include_name = map_option (\<lambda>m. group m 1) (Match rx_any_include line);
           header = (case include_name of None \<Rightarrow> [] | Some h \<Rightarrow> h)
       in steps [
         whenever (include_name \<noteq> None \<and> py_startswith header ''tr1/'')
           (error filename (int linenum) ''build/c++tr1'' 5 (''C++ TR1 headers such as <'' @ header @ ''> are unapproved.'')),
         whenever (include_name \<noteq> None \<and> header \<in> set unapproved_cxx11_headers)
           (error filename (int linenum) ''build/c++11'' 5 (''<'' @ header @ ''> is an unapproved C++11 header.'')),
         whenever (\<not> (Matches rx_hash line \<and> \<not> Matches rx_define_directive line))
           (rfold (\<lambda>top_name.
              whenever (Searches (cats [WordB, Lit (''std::'' @ top_name), WordB]) line)
                (error filename (int linenum) ''build/c++11'' 5
                   (''std::'' @ top_name @ '' is an unapproved C++11 class or function.  Send c-style '' @
                    ''an example of where it would make your code more readable, and '' @ ''they may let you use it.'')))
             [''alignment_of'', ''aligned_union''])])"

definition FlagCxx14Features :: "string \<Rightarrow> CleansedLines \<Rightarrow> nat \<Rightarrow> error_fn \<Rightarrow> action" where
  "FlagCxx14Features filename cl linenum error =
     on_line (elided cl) linenum (\<lambda>line.
       let include_name = map_option (\<lambda>m. group m 1) (Match rx_any_include line);
           header = (case include_name of None \<Rightarrow> [] | Some h \<Rightarrow> h)
       in whenever (include_name \<noteq> None \<and> header \<in> set [''scoped_allocator'', ''shared_mutex''])
            (error filename (int linenum) ''build/c++14'' 5 (''<'' @ header @ ''> is an unapproved C++14 header.'')))"

subsection \<open>The checks always return\<close>

lemma parameter_list_group:
  assumes "Match rx_parameter_list line = Some m"
  shows "length (group m 1) < length line"
proof -
  let ?rs = "[Bol, Grp 1 (star (NSet [Ch ''(''])), Lit ''('']"
  have m: "Match (cats ?rs) line = Some m" using assms by (simp only: rx_parameter_list_def)
  have "list_all flat ?rs" by simp
  from Match_layout [OF m this] obtain ws t where ws: "list_all2 consumes ?rs ws" "line = concat ws @ t" "m_caps m = caps_of ?rs ws"
    by blast
  from ws(1) obtain w where "ws = [[], w, ''('']" by (auto simp: list_all2_Cons1 simp del: cats.simps)
  with ws(2,3) show ?thesis by (simp add: grp_def)
qed

lemma three_lines_less: "i \<in> set (three_lines cl n) \<Longrightarrow> i < num_lines cl"
  by (auto simp: three_lines_def NumLines_def)

lemma parameter_list_end_lands:
  "lines_ok cl \<Longrightarrow> \<forall>i \<in> set is. i < num_lines cl \<Longrightarrow> lands (\<lambda>_. True) (parameter_list_end cl is start_col)"
proof (induction cl "is" start_col rule: parameter_list_end.induct)
  case (2 cl i rest start_col)
  then have i: "i < num_lines cl" "py_idx (elided cl) (int i) = Inr (elided cl ! i)" by (simp_all add: lines_ok_def)
  show ?case
  proof (cases "Match rx_parameter_list (drop start_col (elided cl ! i))")
    case None
    with 2 i show ?thesis by simp
  next
    case (Some m)
    from parameter_list_group [OF Some] have "start_col + length (group m 1) < length (elided cl ! i)" by simp
    from CloseExpression_lands [OF 2(2) i(1) this] show ?thesis
      by (auto simp: i Some intro: lands_bind simp del: One_nat_def)
  qed
qed simp

context error_handler
begin

lemma specifier_loop_keeps:
  "\<forall>i \<in> set is. i < length (elided cl) \<Longrightarrow> I s \<Longrightarrow> lands I (specifier_loop filename cl linenum error is end_col s)"
proof (induction "is" arbitrary: end_col s)
  case (Cons i rest)
  then show ?case
    by (auto simp: Let_def intro!: lands_bind [where Q = I] error_lands split: option.split)
qed simp

lemma CheckRedundantVirtual_keeps:
  assumes "lines_ok cl" "linenum < num_lines cl"
  shows "keeps I (CheckRedundantVirtual filename cl linenum error)"
proof (rule keepsI)
  fix s assume s: "I s"
  have len: "length (elided cl) = num_lines cl" using assms(1) by (simp add: lines_ok_def)
  have loop: "lands I (specifier_loop filename cl linenum error (three_lines cl k) c s)" for k c
    using s len by (intro specifier_loop_keeps) (auto dest: three_lines_less)
  have ends: "lands (\<lambda>_. True) (parameter_list_end cl (three_lines cl linenum) c)" for c
    using three_lines_less by (intro parameter_list_end_lands assms(1)) blast
  show "lands I (CheckRedundantVirtual filename cl linenum error s)"
    unfolding CheckRedundantVirtual_def
    using assms(2) len s loop
    by (auto intro!: lands_bind [OF ends] split: option.split)
qed

lemma CheckRedundantOverrideOrFinal_keeps:
  assumes "linenum < length (elided cl)"
  shows "keeps I (CheckRedundantOverrideOrFinal filename cl linenum error)"
proof (rule keepsI)
  fix s assume s: "I s"
  have "py_idx (elided cl) (int linenum - 1) = Inr (elided cl ! (linenum - 1))" if "linenum > 1"
    using that assms py_idx_nat [of "linenum - 1" "elided cl"] by (simp add: of_nat_diff)
  then have "lands (\<lambda>_. True) (specifier_fragment cl linenum line)" for line
    by (simp add: specifier_fragment_def split: option.split)
  with s show "lands I (CheckRedundantOverrideOrFinal filename cl linenum error s)"
    unfolding CheckRedundantOverrideOrFinal_def py_idx_nat [OF assms] rbind_simps
    by (intro lands_bind [where Q = "\<lambda>_. True"]) (auto intro!: lands_whenever error_lands split: option.split)
qed

lemma feature_checks_keep:
  assumes "linenum < length (elided cl)"
  shows "keeps I (CheckMakePairUsesDeduction filename cl linenum error)"
    and "keeps I (FlagCxx11Features filename cl linenum error)"
    and "keeps I (FlagCxx14Features filename cl linenum error)"
  unfolding CheckMakePairUsesDeduction_def FlagCxx11Features_def FlagCxx14Features_def Let_def
  using assms by (intro keeps_on_line; auto intro!: keeps_intros error_keeps)+

end

end
