(* ===== verification/Line_Breaks.thy ===== *)
theory Line_Breaks
  imports Cleansing
begin

section \<open>The characters of cleansed lines\<close>

text \<open>
  Cleansing a line only takes characters away or puts quotes in: the functions of theory \<open>Cleansing\<close> keep
  the characters of a line within any set \<open>A\<close> that holds both kinds of quotes.  So the lines of a file, which
  hold no line break, hold none after cleansing either.
\<close>

lemma raw_strings_within:
  "set line \<subseteq> A \<Longrightarrow> dquote \<in> A \<Longrightarrow> set (fst (raw_strings_on_line line)) \<subseteq> A"
proof (induction line rule: raw_strings_on_line.induct)
  case (1 line)
  show ?case
  proof (cases "Match rx_raw_open line")
    case None
    with 1 show ?thesis by (subst raw_strings_on_line.simps) simp
  next
    case (Some m)
    from raw_open_parts [OF Some] obtain a d t where g: "grp m 1 = Some a" "grp m 2 = Some d" "grp m 3 = Some t" by blast
    note within = Match_grp_chars [OF Some "1.prems"(1) g(1)] Match_grp_chars [OF Some "1.prems"(1) g(3)]
    have "set (a @ [dquote, dquote] @ drop n t) \<subseteq> A" for n
      using within "1.prems"(2) set_drop_subset [of n t] by auto
    with "1.IH" [OF Some _ refl] "1.prems" Some g within show ?thesis
      by (subst raw_strings_on_line.simps) (auto simp: Let_def split: option.splits)
  qed
qed

lemma raw_line_step_within:
  assumes "raw_line_step delimiter line = Inr (line', delimiter')" "set line \<subseteq> A" "dquote \<in> A"
  shows "set line' \<subseteq> A"
proof (cases delimiter)
  case None
  with assms raw_strings_within [OF assms(2,3)] show ?thesis by (simp add: raw_line_step_def)
next
  case (Some d)
  show ?thesis
  proof (cases "py_find d line")
    case None
    with assms Some show ?thesis by (auto simp: raw_line_step_def)
  next
    case pos: (Some pos)
    with assms(1) Some obtain m where m: "Match rx_leading_space line = Some m"
      and l: "(line', delimiter') = raw_strings_on_line (group m 1 @ [dquote, dquote] @ drop (pos + length d) line)"
      by (auto simp: raw_line_step_def split: option.splits)
    have "\<exists>w. grp m 1 = Some w"
      using Match_layout [OF m [unfolded rx_leading_space_def]] by (auto simp: list_all2_Cons1 grp_def)
    then have "set (group m 1) \<subseteq> A" using Match_grp_chars [OF m assms(2)] by auto
    then have "set (group m 1 @ [dquote, dquote] @ drop (pos + length d) line) \<subseteq> A"
      using assms(2,3) set_drop_subset [of "pos + length d" line] by auto
    from raw_strings_within [OF this assms(3)] l show ?thesis by (metis fst_conv)
  qed
qed

lemma raw_lines_within:
  "raw_lines_loop delimiter ls = Inr out \<Longrightarrow> \<forall>l \<in> set ls. set l \<subseteq> A \<Longrightarrow> dquote \<in> A \<Longrightarrow> \<forall>l \<in> set out. set l \<subseteq> A"
proof (induction ls arbitrary: delimiter out)
  case (Cons line ls)
  from Cons.prems(1) obtain x where x: "raw_line_step delimiter line = Inr x"
    "(case x of (line', delimiter') \<Rightarrow> rbind (raw_lines_loop delimiter' ls) (\<lambda>rest. Inr (line' # rest))) = Inr out"
    unfolding raw_lines_loop.simps rbind_Inr_iff by blast
  obtain line' delimiter' where x': "x = (line', delimiter')" by (rule prod.exhaust)
  from x(2) obtain rest where rest: "raw_lines_loop delimiter' ls = Inr rest" "Inr (line' # rest) = (Inr out :: string list res)"
    unfolding x' prod.case rbind_Inr_iff by blast
  from rest(2) have out: "out = line' # rest" by simp
  note r = x(1) [unfolded x'] rest(1) out
  have "set line' \<subseteq> A" by (rule raw_line_step_within [OF r(1) _ Cons.prems(3)]) (use Cons.prems(2) in simp)
  moreover have "\<forall>l \<in> set rest. set l \<subseteq> A" by (rule Cons.IH [OF r(2) _ Cons.prems(3)]) (use Cons.prems(2) in simp)
  ultimately show ?case using r(3) by simp
qed simp

lemma collapse_within:
  "collapse_loop collapsed line = Inr out \<Longrightarrow> set collapsed \<subseteq> A \<Longrightarrow> set line \<subseteq> A \<Longrightarrow> {dquote, squote} \<subseteq> A \<Longrightarrow> set out \<subseteq> A"
proof (induction "length line" arbitrary: collapsed line rule: less_induct)
  case less
  show ?case
  proof (cases "Match rx_first_quote line")
    case None
    with less.prems(1) [unfolded collapse_loop.simps [of collapsed line]] less.prems show ?thesis by auto
  next
    case (Some m)
    from first_quote_parts [OF Some] obtain h q t u where g: "grp m 1 = Some h" "grp m 2 = Some [q]" "grp m 3 = Some t"
      and line: "line = h @ q # t @ u" "q \<in> {squote, dquote}" by blast
    note within = Match_grp_chars [OF Some less.prems(3) g(1)] Match_grp_chars [OF Some less.prems(3) g(3)]
    have step: "set out \<subseteq> A"
      if "collapse_loop (collapsed @ h @ w) line' = Inr out" "set w \<subseteq> A" "set line' \<subseteq> A" "length line' < length line" for w line'
      using less.hyps [OF that(4,1)] that(2,3) less.prems(2,4) within(1) by auto
    have drop: "set (drop n t) \<subseteq> A" "length (drop n t) < length line" for n
      using within(2) set_drop_subset [of n t] by (auto simp: line)
    consider (same) "out = collapsed @ line"
      | (str) n c where "c \<in> {dquote, squote}" "collapse_loop (collapsed @ h @ [c, c]) (drop n t) = Inr out"
      | (digits) ml where "Searches rx_digits_before h" "Match rx_literal (squote # t) = Some ml"
          "collapse_loop (collapsed @ h @ py_replace [squote] [] (group ml 1)) (group ml 2) = Inr out"
      using less.prems(1) [unfolded collapse_loop.simps [of collapsed line] Some option.case] g line(2)
      by (auto split: option.splits if_splits)
    then show ?thesis
    proof cases
      case same
      with less.prems show ?thesis by auto
    next
      case str
      with step [of "[c, c]" "drop n t"] drop less.prems(4) show ?thesis by auto
    next
      case digits
      from literal_parts [OF digits(2)] obtain a b v where l: "grp ml 1 = Some a" "grp ml 2 = Some b" "squote # t = a @ b @ v" by blast
      have "set (squote # t) \<subseteq> A" using within(2) less.prems(4) by simp
      from Match_grp_chars [OF digits(2) this l(1)] Match_grp_chars [OF digits(2) this l(2)]
      have ab: "set a \<subseteq> A" "set b \<subseteq> A" .
      have "h \<noteq> []" using digits(1) no_digits_before_empty by metis
      moreover have "length b \<le> 1 + length t" using arg_cong [OF l(3), of length] by simp
      ultimately have "length b < length line" by (cases h) (auto simp: line(1))
      moreover have "set (py_replace [squote] [] a) \<subseteq> A" using set_py_replace [of "[squote]" "[]" a] ab(1) by auto
      ultimately show ?thesis using step digits(3) l ab(2) by simp
    qed
  qed
qed

lemma rstrip_within: "set (py_rstrip s) \<subseteq> set s"
  by (auto simp: py_rstrip_def dest!: set_dropWhileD)

lemma CleanseComments_within: "set (CleanseComments line) \<subseteq> set line"
proof -
  have "set (case py_find ''//'' line of None \<Rightarrow> line
      | Some p \<Rightarrow> if \<not> IsCppString (take p line) then py_rstrip (take p line) else line) \<subseteq> set line"
    by (auto split: option.split dest: rstrip_within [THEN subsetD] in_set_takeD)
  then show ?thesis
    using ReplaceAll_chars [of RE_PATTERN_CLEANSE_LINE_C_COMMENTS "[]"] unfolding CleanseComments_def Let_def by fastforce
qed

lemma CollapseStrings_within:
  assumes "CollapseStrings line = Inr out" "set line \<subseteq> A" "{dquote, squote} \<subseteq> A"
  shows "set out \<subseteq> A"
proof -
  have "set (ReplaceAll RE_PATTERN_CLEANSE_LINE_ESCAPES [] line) \<subseteq> A"
    using ReplaceAll_chars [of RE_PATTERN_CLEANSE_LINE_ESCAPES "[]" line] assms(2) by auto
  note loop = collapse_within [OF _ _ this assms(3), of "[]"]
  show ?thesis
  proof (cases "Matches RE_PATTERN_INCLUDE line")
    case True
    with assms show ?thesis by (simp add: CollapseStrings_def)
  next
    case False
    with assms(1) loop show ?thesis by (simp add: CollapseStrings_def)
  qed
qed

lemma elided_within:
  assumes "CleansedLines_init ls = Inr cl" "\<forall>l \<in> set ls. set l \<subseteq> A" "{dquote, squote} \<subseteq> A"
  shows "\<forall>l \<in> set (elided cl). set l \<subseteq> A"
proof -
  from assms(1) obtain raws pairs where raws: "raw_lines_loop None ls = Inr raws"
    and pairs: "rmap (\<lambda>line. rbind (CollapseStrings line) (\<lambda>e. Inr (CleanseComments line, CleanseComments e))) raws = Inr pairs"
    and el: "elided cl = map snd pairs"
    by (auto simp: CleansedLines_init_def CleanseRawStrings_def rbind_Inr_iff)
  from raw_lines_within [OF raws assms(2)] assms(3) have within: "\<forall>l \<in> set raws. set l \<subseteq> A" by simp
  show ?thesis
  proof
    fix l assume "l \<in> set (elided cl)"
    then obtain i where i: "i < length pairs" "l = snd (pairs ! i)" unfolding el by (auto simp: in_set_conv_nth)
    with rmap_length [OF pairs] have "i < length raws" by simp
    from rmap_nth [OF pairs this] have "\<exists>e. CollapseStrings (raws ! i) = Inr e \<and> pairs ! i = (CleanseComments (raws ! i), CleanseComments e)"
      by (auto simp: rbind_Inr_iff)
    then obtain e where "CollapseStrings (raws ! i) = Inr e" "l = CleanseComments e" by (auto simp: i(2))
    with within \<open>i < length raws\<close> assms(3) CollapseStrings_within CleanseComments_within show "set l \<subseteq> A"
      by (meson nth_mem order_trans)
  qed
qed

text \<open>Lines without line breaks.\<close>

definition break_free :: "string list \<Rightarrow> bool" where
  "break_free ls \<longleftrightarrow> (\<forall>l \<in> set ls. newline \<notin> set l)"

lemma elided_break_free: "CleansedLines_init ls = Inr cl \<Longrightarrow> break_free ls \<Longrightarrow> break_free (elided cl)"
  using elided_within [of ls cl "- {newline}"] by (fastforce simp: break_free_def)

text \<open>Taking comments out writes only placeholders.\<close>

lemma RemoveFromRange_within:
  "\<forall>l \<in> set ls. P l \<Longrightarrow> P ''/**/'' \<Longrightarrow> \<forall>l \<in> set (RemoveMultiLineCommentsFromRange ls b e). P l"
proof -
  have "\<forall>l \<in> set ls. P l \<Longrightarrow> P ''/**/'' \<Longrightarrow> \<forall>l \<in> set (fold (\<lambda>i ls. ls[i := ''/**/'']) is ls). P l" for "is" ls
    by (induction "is" arbitrary: ls) (auto dest!: set_update_subset_insert [THEN subsetD])
  then show "\<forall>l \<in> set ls. P l \<Longrightarrow> P ''/**/'' \<Longrightarrow> \<forall>l \<in> set (RemoveMultiLineCommentsFromRange ls b e). P l"
    unfolding RemoveMultiLineCommentsFromRange_def by blast
qed

context error_handler
begin

lemma remove_comments_loop_lands:
  "break_free ls \<Longrightarrow> I s \<Longrightarrow>
   lands (\<lambda>(ls', s'). break_free ls' \<and> length ls' = length ls \<and> I s') (remove_comments_loop error filename k ls s)"
proof (induction "length ls - k" arbitrary: k ls rule: less_induct)
  case less
  let ?b = "FindNextMultiLineCommentStart ls k" let ?e = "FindNextMultiLineCommentEnd ls ?b"
  let ?P = "\<lambda>(ls', s'). break_free ls' \<and> length ls' = length ls \<and> I s'"
  have report: "lands ?P (rbind (error filename n ''readability/multiline_comment'' 5 m s) (\<lambda>s'. Inr (ls, s')))" for n m
    by (rule lands_bind [OF error_lands]) (use less.prems in auto)
  show ?case
  proof (cases "k < length ls \<and> ?b < length ls \<and> ?e < length ls")
    case False
    with report less.prems show ?thesis by (subst remove_comments_loop.simps) (auto simp: Let_def)
  next
    case True
    let ?ls = "RemoveMultiLineCommentsFromRange ls ?b (?e + 1)"
    have "k \<le> ?b" "?b \<le> ?e"
      using FindNextMultiLineCommentStart_spec [of k ls] FindNextMultiLineCommentEnd_spec [of ?b ls] True by auto
    then have "length ?ls - (?e + 1) < length ls - k" using True by (simp only: length_RemoveFromRange) linarith
    moreover have "break_free ?ls"
      using RemoveFromRange_within [of ls "\<lambda>l. newline \<notin> set l"] less.prems(1) by (simp add: break_free_def)
    ultimately have "lands (\<lambda>(ls', s'). break_free ls' \<and> length ls' = length ?ls \<and> I s')
        (remove_comments_loop error filename (?e + 1) ?ls s)"
      using less.hyps less.prems(2) by blast
    with True show ?thesis by (subst remove_comments_loop.simps) (auto simp: Let_def elim: lands_mono)
  qed
qed

end

end
