(* ===== verification/Whole_File.thy ===== *)
theory Whole_File
  imports Line_Breaks File_Checks Header_Guard Function_State Constructs Style Language Include_Use Late_Checks
begin

section \<open>All checks over one file\<close>

text \<open>
  \<open>ProcessLine\<close> and \<open>ProcessFileData\<close> of \<^verbatim>\<open>src/cpplint.py\<close>: the order in which the checks run over a line
  and over a file, and the states they hand on to each other.  What lies outside of the program is collected
  in the record \<open>world\<close>.
\<close>

subsection \<open>What lies outside of the program\<close>

text \<open>A configuration file: not there, not readable, or its lines with the characters that end them.\<close>

datatype config_file = No_Config | Unreadable_Config | Config_Lines "string list"

text \<open>
  The file system with the working directory, the compiler for regular expressions that are only known at run
  time, the lines of a header that another file of its module includes, the order in which a dictionary gives its
  keys, the text of a file to be checked (\<open>''-''\<close> for the standard input), the configuration files, the order in
  which the set of extensions and the dictionary of counts are written out.
\<close>

record world =
  w_env :: env
  w_compile :: "string \<Rightarrow> rx"
  w_header_lines :: "string \<Rightarrow> string list option"
  w_key_order :: "string list \<Rightarrow> string list"
  w_read :: "string \<Rightarrow> string option"
  w_config :: "string \<Rightarrow> config_file"
  w_extension_order :: "string set \<Rightarrow> string list"
  w_items :: "(string \<rightharpoonup> nat) \<Rightarrow> (string \<times> nat) list"

text \<open>The checks cannot hang on a chain of Subversion directories, and the keys of a dictionary are its keys.\<close>

definition world_ok :: "world \<Rightarrow> bool" where
  "world_ok w \<longleftrightarrow> (\<forall>f. returns (RepositoryName (w_env w) f)) \<and> (\<forall>ks. set (w_key_order w ks) = set ks)"

subsection \<open>One line\<close>

text \<open>The three states of a pass over a file, and the global state.\<close>

record file_run =
  run_includes :: IncludeState
  run_functions :: FunctionState
  run_nesting :: NestingState
  run_lint :: lint

type_synonym check_fn = "string \<Rightarrow> CleansedLines \<Rightarrow> nat \<Rightarrow> error_fn \<Rightarrow> action"

text \<open>The checks before and after \<open>CheckLanguage\<close>, which alone changes the include state.\<close>

definition early_checks ::
  "world \<Rightarrow> string \<Rightarrow> string \<Rightarrow> CleansedLines \<Rightarrow> nat \<Rightarrow> NestingState \<Rightarrow> error_fn \<Rightarrow> action list" where
  "early_checks w filename file_extension cl line ns error =
     [CheckForMultilineCommentsAndStrings filename cl line error,
      CheckStyle (w_env w) (w_compile w) filename cl line file_extension ns error]"

definition late_checks ::
  "string \<Rightarrow> CleansedLines \<Rightarrow> nat \<Rightarrow> NestingState \<Rightarrow> error_fn \<Rightarrow> check_fn list \<Rightarrow> action list" where
  "late_checks filename cl line ns error extra_check_functions =
     [CheckForNonConstReference filename cl line ns error,
      CheckForNonStandardConstructs filename cl line ns error,
      CheckVlogArguments filename cl line error,
      CheckPosixThreading filename cl line error,
      CheckInvalidIncrement filename cl line error,
      CheckMakePairUsesDeduction filename cl line error,
      CheckRedundantVirtual filename cl line error,
      CheckRedundantOverrideOrFinal filename cl line error] @
     map (\<lambda>check_fn. check_fn filename cl line error) extra_check_functions"

definition ProcessLine ::
  "world \<Rightarrow> string \<Rightarrow> string \<Rightarrow> CleansedLines \<Rightarrow> nat \<Rightarrow> error_fn \<Rightarrow> check_fn list \<Rightarrow> file_run \<Rightarrow> file_run res" where
  "ProcessLine w filename file_extension cl line error extra_check_functions run =
     rbind (py_idx (raw_lines cl) (int line)) (\<lambda>raw_line.
     rbind (ParseNolintSuppressions error filename raw_line (int line) (run_lint run)) (\<lambda>s.
     rbind (Update error filename cl line (run_nesting run) s) (\<lambda>(ns, s).
     rbind (CheckForNamespaceIndentation filename ns cl line error s) (\<lambda>s.
     if InAsmBlock ns then Inr (run\<lparr>run_nesting := ns, run_lint := s\<rparr>)
     else
       rbind (CheckForFunctionLengths error filename cl line (run_functions run) s) (\<lambda>(fs, s).
       rbind (steps (early_checks w filename file_extension cl line ns error) s) (\<lambda>s.
       rbind (CheckLanguage (w_env w) filename cl line file_extension error (run_includes run) s) (\<lambda>(st, s).
       rbind (steps (late_checks filename cl line ns error extra_check_functions) s) (\<lambda>s.
       Inr \<lparr>run_includes = st, run_functions = fs, run_nesting = ns, run_lint = s\<rparr>))))))))"

subsection \<open>One file\<close>

definition first_marker :: string where
  "first_marker = ''// marker so line numbers and indices both start at 1''"

definition last_marker :: string where
  "last_marker = ''// marker so line numbers end in a known way''"

text \<open>The body of the loop over the lines.\<close>

definition process_and_flag ::
  "world \<Rightarrow> string \<Rightarrow> string \<Rightarrow> CleansedLines \<Rightarrow> error_fn \<Rightarrow> check_fn list \<Rightarrow> nat \<Rightarrow> file_run \<Rightarrow> file_run res" where
  "process_and_flag w filename file_extension cl error extra_check_functions line run =
     rbind (ProcessLine w filename file_extension cl line error extra_check_functions run) (\<lambda>run.
     rbind (FlagCxx11Features filename cl line error (run_lint run)) (\<lambda>s.
     Inr (run\<lparr>run_lint := s\<rparr>)))"

text \<open>The checks after the last line.\<close>

definition final_checks ::
  "world \<Rightarrow> string \<Rightarrow> string \<Rightarrow> string list \<Rightarrow> CleansedLines \<Rightarrow> error_fn \<Rightarrow> file_run \<Rightarrow> action list" where
  "final_checks w filename file_extension lines cl error run =
     [CheckCompletedBlocks error filename (run_nesting run),
      CheckForIncludeWhatYouUse (w_env w) (w_header_lines w) (w_key_order w) filename cl (run_includes run) error,
      whenever (IsSourceExtension file_extension) (CheckHeaderFileIncluded (w_env w) error filename (run_includes run)),
      CheckForBadCharacters filename (map (map ord) lines) error,
      CheckForNewlineAtEOF filename lines error]"

definition ProcessFileData ::
  "world \<Rightarrow> string \<Rightarrow> string \<Rightarrow> string list \<Rightarrow> error_fn \<Rightarrow> check_fn list \<Rightarrow> action" where
  "ProcessFileData w filename file_extension file_lines error extra_check_functions s0 =
     (let lines = [first_marker] @ file_lines @ [last_marker] in
     rbind IncludeState_init (\<lambda>include_state.
     rbind (CheckForCopyright filename lines error (ResetNolintSuppressions s0)) (\<lambda>s.
     rbind (RemoveMultiLineComments error filename lines (ProcessGlobalSuppresions lines s)) (\<lambda>(lines, s).
     rbind (CleansedLines_init lines) (\<lambda>cl.
     rbind (whenever (file_extension = ''h'')
              (CheckForHeaderGuard (w_env w) (w_compile w) filename cl error) s) (\<lambda>s.
     rbind (rfold (process_and_flag w filename file_extension cl error extra_check_functions) [0..<NumLines cl]
              \<lparr>run_includes = include_state, run_functions = FunctionState_init, run_nesting = NestingState_init,
               run_lint = s\<rparr>) (\<lambda>run.
     steps (final_checks w filename file_extension lines cl error run) (run_lint run))))))))"

subsection \<open>Outcomes with permitted exceptions\<close>

text \<open>\<open>outcome E P m\<close>: the computation \<open>m\<close> raises an exception of \<open>E\<close> or returns a value that satisfies \<open>P\<close>.\<close>

definition outcome :: "py_error set \<Rightarrow> ('a \<Rightarrow> bool) \<Rightarrow> 'a res \<Rightarrow> bool" where
  "outcome E P m \<longleftrightarrow> (case m of Inl e \<Rightarrow> e \<in> E | Inr x \<Rightarrow> P x)"

lemma outcome_simps [simp]: "outcome E P (Inr x) \<longleftrightarrow> P x" "outcome E P (Inl e) \<longleftrightarrow> e \<in> E"
  by (simp_all add: outcome_def)

lemma outcome_bind: "outcome E Q m \<Longrightarrow> (\<And>x. Q x \<Longrightarrow> outcome E P (f x)) \<Longrightarrow> outcome E P (rbind m f)"
  by (cases m) auto

lemma outcome_mono: "outcome E Q m \<Longrightarrow> (\<And>x. Q x \<Longrightarrow> P x) \<Longrightarrow> E \<subseteq> F \<Longrightarrow> outcome F P m"
  by (cases m) auto

lemma outcome_if: "(c \<Longrightarrow> outcome E P a) \<Longrightarrow> (\<not> c \<Longrightarrow> outcome E P b) \<Longrightarrow> outcome E P (if c then a else b)"
  by simp

lemma lands_outcome: "lands P m \<Longrightarrow> outcome E P m"
  by (cases m) auto

lemma keeps_outcome: "keeps I a \<Longrightarrow> I s \<Longrightarrow> outcome E I (a s)"
  by (intro lands_outcome keeps_lands)

lemma permits_outcome: "permits E I a \<longleftrightarrow> (\<forall>s. I s \<longrightarrow> outcome E I (a s))"
  by (simp add: permits_def outcome_def)

lemma permits_mono: "permits E I a \<Longrightarrow> E \<subseteq> F \<Longrightarrow> permits F I a"
  by (auto simp: permits_outcome intro: outcome_mono)

lemma outcome_rfold:
  assumes "\<And>x s. x \<in> set xs \<Longrightarrow> P s \<Longrightarrow> outcome E P (f x s)" and "P s"
  shows "outcome E P (rfold f xs s)"
  using assms by (induction xs arbitrary: s) (auto intro!: outcome_bind)

subsection \<open>The states of a pass stay sound\<close>

text \<open>The exceptions of a pass at verbosity \<open>v\<close>.\<close>

definition raised_at :: "int \<Rightarrow> py_error set" where
  "raised_at v = {IndexError} \<union> (if v < 0 then {ValueError ''math domain error''} else {})"

text \<open>What a check that is passed in has to promise.\<close>

definition check_fn_ok :: "py_error set \<Rightarrow> (lint \<Rightarrow> bool) \<Rightarrow> string \<Rightarrow> error_fn \<Rightarrow> check_fn \<Rightarrow> bool" where
  "check_fn_ok E I filename error check_fn \<longleftrightarrow>
     (\<forall>cl line. line < num_lines cl \<longrightarrow> permits E I (check_fn filename cl line error))"

lemma body_loop_lands:
  assumes "Searches rx_function_name line"
  shows "\<forall>n \<in> set ns. n < length (cl_lines cl) \<Longrightarrow> lands (\<lambda>_. True) (body_loop cl line ns joined fs)"
  using assms by (induction ns arbitrary: joined) (auto simp: Let_def Searches_def split: option.split)

definition run_ok :: "(lint \<Rightarrow> bool) \<Rightarrow> CleansedLines \<Rightarrow> file_run \<Rightarrow> bool" where
  "run_ok I cl run \<longleftrightarrow> include_ok (run_includes run) \<and> nesting_ok (num_lines cl) (run_nesting run) \<and> I (run_lint run)"

lemma nesting_line_ok:
  "copies_ok cl \<Longrightarrow> break_free (elided cl) \<Longrightarrow> linenum < num_lines cl \<Longrightarrow> nesting_ok (num_lines cl) ns \<Longrightarrow> line_ok cl linenum ns"
  by (auto simp: line_ok_def break_free_def nesting_ok_def good_stack_def)

lemma world_okD:
  assumes "world_ok w"
  shows "\<exists>g. RepositoryName (w_env w) f = Inr g" "returns (RepositoryName (w_env w) f)" "set (w_key_order w ks) = set ks"
    "returns (GetHeaderGuardCPPVariable (w_env w) compile filename s)"
  using assms by (auto simp: world_ok_def returns_def GetHeaderGuardCPPVariable_def Let_def rbind_Inr_iff)

text \<open>
  An invariant that a whole pass over a file keeps: a sink and the suppressions keep it, as does clearing the
  suppressions at the start of a file, and it fixes the verbosity.
\<close>

locale pass_handler = suppressing_handler +
  fixes v :: int
  assumes reset_keeps: "I s \<Longrightarrow> I (ResetNolintSuppressions s)"
    and global_keeps: "I s \<Longrightarrow> I (ProcessGlobalSuppresions ls s)"
    and verbosity: "I s \<Longrightarrow> verbose_level (cpplint_state s) = v"
begin

lemma fs_Check_outcome:
  assumes "I s"
  shows "outcome (raised_at v) I (fs_Check error filename linenum fs s)"
proof -
  let ?n = "lines_in_function fs" and ?b = "base_trigger fs"
  have "v < 0" if "exceeds_trigger ?n ?b v" "?n div ?b = 0"
  proof (rule ccontr)
    assume "\<not> v < 0"
    with that(1) have "?b * 2 ^ nat v < ?n" by (simp add: exceeds_trigger_def)
    moreover have "?b * 1 \<le> ?b * 2 ^ nat v" by (intro mult_le_mono2) simp
    moreover have "?n < ?b" using that(2) base_trigger_pos [of fs] by (simp add: div_eq_0_iff)
    ultimately show False by linarith
  qed
  then show ?thesis
    using assms verbosity [OF assms]
    by (auto simp: fs_Check_def Let_def int_log2_def raised_at_def intro!: lands_outcome [OF error_lands])
qed

end

context pass_handler
begin

lemma CheckForFunctionLengths_outcome:
  assumes "copies_ok cl" "linenum < num_lines cl" "I s"
  shows "outcome (raised_at v) (\<lambda>(fs, s). I s) (CheckForFunctionLengths error filename cl linenum fs s)"
proof -
  have n: "linenum < length (cl_lines cl)" using copies_okD(3) [OF assms(1)] assms(2) by simp
  let ?line = "cl_lines cl ! linenum"
  obtain starting where starting: "starting_func ?line = Inr starting"
    using starting_func_returns [of ?line] by (auto simp: returns_def)
  have body: "outcome (raised_at v) (\<lambda>_. True) (body_loop cl ?line [linenum..<NumLines cl] [] fs)" if "starting"
    using function_name_found [OF starting_func_paren] starting that copies_okD(3) [OF assms(1)]
    by (intro lands_outcome body_loop_lands) (auto simp: NumLines_def)
  have report: "outcome (raised_at v) I (whenever b (error filename l ''readability/fn_size'' 5 m) s)" for b l m
    using assms(3) by (intro lands_outcome lands_whenever error_lands) simp_all
  show ?thesis
    unfolding CheckForFunctionLengths_def py_idx_nat [OF n] rbind_simps starting
    by (intro outcome_if outcome_bind [OF body] outcome_bind [OF fs_Check_outcome [OF assms(3)]]; assumption?)
      (use assms(3) in \<open>auto intro!: outcome_bind [OF report]\<close>)
qed

end

text \<open>What is known of the lines of a file, and of the checks that are passed in.\<close>

definition pass_ok :: "world \<Rightarrow> CleansedLines \<Rightarrow> bool" where
  "pass_ok w cl \<longleftrightarrow> world_ok w \<and> copies_ok cl \<and> break_free (elided cl)"

context pass_handler
begin

lemma raises_index [simp]: "IndexError \<in> raised_at v"
  by (simp add: raised_at_def)

lemma early_checks_keep:
  assumes "pass_ok w cl" "line < num_lines cl" "nesting_ok (num_lines cl) ns"
  shows "keeps I (steps (early_checks w filename file_extension cl line ns error))"
proof -
  have ok: "copies_ok cl" "line_ok cl line ns" using assms by (auto simp: pass_ok_def nesting_line_ok)
  have "keeps I (CheckStyle (w_env w) (w_compile w) filename cl line file_extension ns error)"
    using assms(1) by (intro CheckStyle_keeps [OF ok(2)] world_okD) (simp add: pass_ok_def)
  with line_checks_keep(1) [OF copies_okD(1) [OF ok(1)] assms(2)] show ?thesis
    unfolding early_checks_def by (intro keeps_steps) simp
qed

lemma late_checks_permits:
  assumes "copies_ok cl" "line < num_lines cl"
    and "\<forall>check_fn \<in> set extra. check_fn_ok (raised_at v) I filename error check_fn"
  shows "permits (raised_at v) I (steps (late_checks filename cl line ns error extra))"
proof -
  note len = copies_okD [OF assms(1)]
  have n: "line < length (elided cl)" "line < length (cl_lines cl)" using len assms(2) by simp_all
  have "permits (raised_at v) I (CheckForNonStandardConstructs filename cl line ns error)"
    by (rule permits_mono [OF CheckForNonStandardConstructs_permits [OF n(2,1)]]) simp
  then show ?thesis
    unfolding late_checks_def
    using assms(3) CheckForNonConstReference_keeps [OF len(1) assms(2)] line_checks_keep [OF len(1) assms(2)]
      feature_checks_keep [OF n(1)] CheckRedundantVirtual_keeps [OF len(1) assms(2)] CheckRedundantOverrideOrFinal_keeps [OF n(1)]
    by (intro permits_steps) (simp add: keeps_permits list_all_iff check_fn_ok_def assms(2))
qed

lemma CheckLanguage_outcome:
  assumes "pass_ok w cl" "line < num_lines cl" "include_ok st" "I s"
  shows "outcome (raised_at v) (\<lambda>(st, s). include_ok st \<and> I s) (CheckLanguage (w_env w) filename cl line file_extension error st s)"
proof -
  from world_okD(1) [of w filename] assms(1) obtain g where g: "RepositoryName (w_env w) filename = Inr g"
    by (auto simp: pass_ok_def)
  have cl: "lines_ok cl" "length (cl_lines cl) = num_lines cl" using assms(1) copies_okD [of cl] by (auto simp: pass_ok_def)
  from CheckLanguage_permits [OF cl(1) assms(2) cl(2) g, of file_extension] assms(3,4) show ?thesis
    by (auto simp: permits_outcome elim!: outcome_mono dest!: spec [of _ st] spec [of _ s])
qed

lemma ProcessLine_outcome:
  assumes "pass_ok w cl" "line < num_lines cl" "run_ok I cl run"
    and "\<forall>check_fn \<in> set extra. check_fn_ok (raised_at v) I filename error check_fn"
  shows "outcome (raised_at v) (run_ok I cl) (ProcessLine w filename file_extension cl line error extra run)"
proof -
  have ok: "copies_ok cl" using assms(1) by (simp add: pass_ok_def)
  note len = copies_okD [OF ok]
  have n: "line < length (raw_lines cl)" using len assms(2) by simp
  have run: "I (run_lint run)" "include_ok (run_includes run)" "nesting_ok (num_lines cl) (run_nesting run)"
    using assms(3) by (auto simp: run_ok_def)
  note update = lands_outcome [OF Update_lands [OF len(1,4) assms(2,2) run(3)]]
  note indentation = keeps_outcome [OF CheckForNamespaceIndentation_keeps [OF len(1) assms(2)]]
  note early = keeps_outcome [OF early_checks_keep [OF assms(1,2)]]
  note late = late_checks_permits [OF ok assms(2,4), unfolded permits_outcome, rule_format]
  have body: "outcome (raised_at v) (run_ok I cl)
      (rbind (CheckForFunctionLengths error filename cl line fs s) (\<lambda>(fs, s).
       rbind (steps (early_checks w filename file_extension cl line ns error) s) (\<lambda>s.
       rbind (CheckLanguage (w_env w) filename cl line file_extension error (run_includes run) s) (\<lambda>(st, s).
       rbind (steps (late_checks filename cl line ns error extra) s) (\<lambda>s.
       Inr \<lparr>run_includes = st, run_functions = fs, run_nesting = ns, run_lint = s\<rparr>)))))"
    if "I s" "nesting_ok (num_lines cl) ns" for s ns fs
    by (rule outcome_bind [OF CheckForFunctionLengths_outcome [OF ok assms(2) that(1)]])
      (auto simp: run_ok_def that(2) intro!: outcome_bind [OF early [OF that(2)]] 
        outcome_bind [OF CheckLanguage_outcome [OF assms(1,2) run(2)]] outcome_bind [OF late])
  show ?thesis
    unfolding ProcessLine_def py_idx_nat [OF n] rbind_simps
    by (rule outcome_bind [OF keeps_outcome [OF ParseNolintSuppressions_keeps run(1)]], rule outcome_bind [OF update], assumption)
      (auto simp: run_ok_def run(2) intro!: outcome_bind [OF indentation] body)
qed

end

lemma markers_break_free: "newline \<notin> set first_marker" "newline \<notin> set last_marker"
  by (simp_all add: first_marker_def last_marker_def)

lemma run_ok_start:
  "include_ok st \<Longrightarrow> I s \<Longrightarrow>
   run_ok I cl \<lparr>run_includes = st, run_functions = FunctionState_init, run_nesting = NestingState_init, run_lint = s\<rparr>"
  by (simp add: run_ok_def nesting_ok_def NestingState_init_def)

lemma pass_ok_cleansed:
  "world_ok w \<Longrightarrow> break_free ls \<Longrightarrow> lands (pass_ok w) (CleansedLines_init ls)"
  using CleansedLines_init_shape [of ls] elided_break_free [of ls]
  by (auto simp: lands_def pass_ok_def copies_ok_def lines_ok_def)

context pass_handler
begin

lemma process_and_flag_outcome:
  assumes "pass_ok w cl" "line < num_lines cl" "run_ok I cl run"
    and "\<forall>check_fn \<in> set extra. check_fn_ok (raised_at v) I filename error check_fn"
  shows "outcome (raised_at v) (run_ok I cl) (process_and_flag w filename file_extension cl error extra line run)"
proof -
  have n: "line < length (elided cl)" using assms(1,2) copies_okD(2) by (simp add: pass_ok_def)
  show ?thesis
    unfolding process_and_flag_def
    by (rule outcome_bind [OF ProcessLine_outcome [OF assms]])
      (auto simp: run_ok_def intro!: outcome_bind [OF keeps_outcome [OF feature_checks_keep(2) [OF n]]])
qed

lemma final_checks_keep:
  assumes "pass_ok w cl"
  shows "keeps I (steps (final_checks w filename file_extension lines cl error run))"
proof -
  have w: "world_ok w" and cl: "lines_ok cl" using assms copies_okD(1) by (auto simp: pass_ok_def)
  from world_okD(1) [OF w] obtain g where "RepositoryName (w_env w) (abs_filename (w_env w) filename) = Inr g" by blast
  from missing_headers_spec [OF cl this world_okD(3) [OF w], where read_lines = "w_header_lines w"] obtain missing where
    "missing_headers (w_env w) (w_header_lines w) (w_key_order w) filename cl (run_includes run) = Inr missing" by blast
  note use = CheckForIncludeWhatYouUse_keeps [OF this]
  show ?thesis
    unfolding final_checks_def
    by (intro keeps_steps)
      (simp add: CheckCompletedBlocks_keeps use CheckHeaderFileIncluded_keeps [OF world_okD(2) [OF w]] keeps_whenever
        CheckForBadCharacters_keeps CheckForNewlineAtEOF_keeps)
qed

lemma ProcessFileData_outcome:
  assumes "world_ok w" "break_free file_lines" "I s"
    and "\<forall>check_fn \<in> set extra. check_fn_ok (raised_at v) I filename error check_fn"
  shows "outcome (raised_at v) I (ProcessFileData w filename file_extension file_lines error extra s)"
proof -
  let ?lines = "[first_marker] @ file_lines @ [last_marker]"
  have free: "break_free ?lines" using assms(2) markers_break_free by (simp add: break_free_def)
  have pass: "outcome (raised_at v) (run_ok I cl)
      (rfold (process_and_flag w filename file_extension cl error extra) [0..<NumLines cl] run)"
    if "pass_ok w cl" "run_ok I cl run" for cl run
    using that by (intro outcome_rfold process_and_flag_outcome assms(4)) (simp_all add: NumLines_def)
  have guard: "outcome (raised_at v) I (whenever c (CheckForHeaderGuard (w_env w) (w_compile w) filename cl error) s)"
    if "I s" for c cl s
    using that by (intro lands_outcome lands_whenever CheckForHeaderGuard_lands world_okD(2) [OF assms(1)])
  have final: "outcome (raised_at v) I (steps (final_checks w filename file_extension ls cl error run) (run_lint run))"
    if "pass_ok w cl" "run_ok I cl run" for ls cl run
    using that by (intro keeps_outcome final_checks_keep) (simp_all add: run_ok_def)
  show ?thesis
    unfolding ProcessFileData_def Let_def
  proof (rule outcome_bind [OF lands_outcome [OF IncludeState_init_ok]],
      rule outcome_bind [OF keeps_outcome [OF CheckForCopyright_keeps reset_keeps [OF assms(3)]]],
      rule outcome_bind [OF lands_outcome], unfold RemoveMultiLineComments_def,
      rule remove_comments_loop_lands [OF free global_keeps], assumption, clarify)
    fix st ls s assume st: "include_ok st" and ls: "break_free ls" and s: "I s"
    show "outcome (raised_at v) I (rbind (CleansedLines_init ls) (\<lambda>cl.
        rbind (whenever (file_extension = ''h'') (CheckForHeaderGuard (w_env w) (w_compile w) filename cl error) s) (\<lambda>s.
        rbind (rfold (process_and_flag w filename file_extension cl error extra) [0..<NumLines cl]
            \<lparr>run_includes = st, run_functions = FunctionState_init, run_nesting = NestingState_init, run_lint = s\<rparr>) (\<lambda>run.
        steps (final_checks w filename file_extension ls cl error run) (run_lint run)))))"
      by (rule outcome_bind [OF lands_outcome [OF pass_ok_cleansed [OF assms(1) ls]]], rule outcome_bind [OF guard [OF s]],
          rule outcome_bind [OF pass [OF _ run_ok_start [OF st]]], assumption+, rule final)
  qed
qed

end

subsection \<open>Checking a file only adds reports\<close>

definition same_options :: "lint \<Rightarrow> lint \<Rightarrow> bool" where
  "same_options s0 s \<longleftrightarrow>
     root s = root s0 \<and> line_length s = line_length s0 \<and> valid_extensions s = valid_extensions s0 \<and>
     verbose_level (cpplint_state s) = verbose_level (cpplint_state s0) \<and>
     filters (cpplint_state s) = filters (cpplint_state s0) \<and>
     filters_backup (cpplint_state s) = filters_backup (cpplint_state s0) \<and>
     counting (cpplint_state s) = counting (cpplint_state s0) \<and>
     output_format (cpplint_state s) = output_format (cpplint_state s0)"

definition only_reports :: "lint \<Rightarrow> lint \<Rightarrow> bool" where
  "only_reports s0 s \<longleftrightarrow> lint_ok s \<and> same_options s0 s \<and>
     (\<exists>new. stderr s = stderr s0 @ new \<and> error_count (cpplint_state s) = error_count (cpplint_state s0) + length new)"

lemma only_reports_refl: "lint_ok s \<Longrightarrow> only_reports s s"
  by (simp add: only_reports_def same_options_def)

lemma only_reports_suppress:
  assumes "only_reports s0 s" "cpplint_state s' = cpplint_state s" "stderr s' = stderr s"
    "root s' = root s" "line_length s' = line_length s" "valid_extensions s' = valid_extensions s"
  shows "only_reports s0 s'"
  using assms by (simp add: only_reports_def same_options_def lint_ok_def)

lemma Error_only_reports: "keeps (only_reports s0) (Error filename linenum category confidence message)"
proof (rule keepsI)
  fix s assume s: "only_reports s0 s"
  then obtain new where new: "stderr s = stderr s0 @ new"
    "error_count (cpplint_state s) = error_count (cpplint_state s0) + length new" and ok: "lint_ok s"
    by (auto simp: only_reports_def)
  let ?st = "IncrementErrorCount category (cpplint_state s)"
  let ?s = "write_stderr (error_line (output_format ?st) filename linenum category confidence message) (s\<lparr>cpplint_state := ?st\<rparr>)"
  have "lint_ok ?s" using ok by (simp add: lint_ok_def state_ok_Increment write_stderr_def)
  then have "only_reports s0 ?s" using s new by (auto simp: only_reports_def same_options_def write_stderr_def)
  with s ok show "lands (only_reports s0) (Error filename linenum category confidence message s)"
    by (auto simp: Error_def ShouldPrintError_eq lint_ok_def Let_def state_ok_def)
qed

lemma fold_fixes: "(\<And>x s. f (g x s) = f s) \<Longrightarrow> f (fold g xs s) = f s"
  by (induction xs arbitrary: s) simp_all

lemma ProcessGlobalSuppresions_fixes:
  assumes "\<And>s m. f (s\<lparr>global_error_suppressions := m\<rparr>) = f s"
  shows "f (ProcessGlobalSuppresions ls s) = f s"
  unfolding ProcessGlobalSuppresions_def Let_def by (intro fold_fixes) (simp add: fold_fixes [of f] assms)

interpretation reports: pass_handler Error "only_reports s0" "verbose_level (cpplint_state s0)"
proof
  show "keeps (only_reports s0) (Error filename linenum category confidence message)" for filename linenum category confidence message
    by (rule Error_only_reports)
  fix s assume s: "only_reports s0 s"
  show "only_reports s0 (add_suppression key line s)" for key line
    by (rule only_reports_suppress [OF s]) (simp_all add: add_suppression_def)
  show "only_reports s0 (ResetNolintSuppressions s)"
    by (rule only_reports_suppress [OF s]) (simp_all add: ResetNolintSuppressions_def)
  show "only_reports s0 (ProcessGlobalSuppresions ls s)" for ls
    by (rule only_reports_suppress [OF s]; rule ProcessGlobalSuppresions_fixes; simp)
  show "verbose_level (cpplint_state s) = verbose_level (cpplint_state s0)"
    using s by (simp add: only_reports_def same_options_def)
qed

lemmas file_data_outcome = reports.ProcessFileData_outcome [OF _ _ only_reports_refl]


definition quiet_world :: world where
  "quiet_world = \<lparr>w_env = no_files, w_compile = Lit, w_header_lines = \<lambda>_. None, w_key_order = \<lambda>ks. ks,
     w_read = \<lambda>_. None, w_config = \<lambda>_. No_Config, w_extension_order = \<lambda>_. [], w_items = \<lambda>_. []\<rparr>"

lemma quiet_world_ok: "world_ok quiet_world"
  by (simp add: world_ok_def quiet_world_def no_files_def RepositoryName_def Let_def)


end
