(* ===== verification/Driver.thy ===== *)
theory Driver
  imports Whole_File
begin

section \<open>Configuration files, arguments and the main program\<close>

text \<open>
  \<open>ProcessConfigOverrides\<close>, \<open>ProcessFile\<close>, \<open>PrintUsage\<close>, \<open>PrintCategories\<close>, \<open>ParseArguments\<close> and \<open>main\<close> of
  \<^verbatim>\<open>src/cpplint.py\<close>, with the functions of the standard library's \<open>getopt\<close> that they use.
\<close>

subsection \<open>Configuration files\<close>

text \<open>\<open>line.partition(c)\<close>, without the separator.\<close>

definition partition_at :: "char \<Rightarrow> string \<Rightarrow> string \<times> string" where
  "partition_at c s = (takeWhile (\<lambda>x. x \<noteq> c) s, drop 1 (dropWhile (\<lambda>x. x \<noteq> c) s))"

text \<open>\<open>int(s)\<close> of a byte string: white space, a sign, decimal digits.\<close>

definition digits_value :: "string \<Rightarrow> int option" where
  "digits_value ds =
     (if ds \<noteq> [] \<and> list_all (char_between CHR ''0'' CHR ''9'') ds
      then Some (int (fold (\<lambda>c n. n * 10 + (ord c - 48)) ds 0)) else None)"

definition py_int :: "string \<Rightarrow> int option" where
  "py_int s =
     (case bytes_strip s of
        [] \<Rightarrow> None
      | c # cs \<Rightarrow> if c = CHR ''-'' then map_option uminus (digits_value cs)
                  else if c = CHR ''+'' then digits_value cs else digits_value (c # cs))"

text \<open>
  One line of a configuration file.  The state is the flag \<open>keep_looking\<close>, the filters collected so far and the global state;
  a value on the left is the global state with which \<open>False\<close> is returned at once.
\<close>

type_synonym config_state = "bool \<times> string list \<times> lint"

definition config_setting ::
  "(string \<Rightarrow> rx) \<Rightarrow> string \<Rightarrow> string \<Rightarrow> string \<Rightarrow> string \<Rightarrow> string \<Rightarrow> config_state \<Rightarrow> lint + config_state"
where
  "config_setting compile filename cfg_file base_name name val = (\<lambda>(keep_looking, cfg_filters, s).
     if name = ''set noparent'' then Inr (False, cfg_filters, s)
     else if name = ''filter'' then Inr (keep_looking, cfg_filters @ [val], s)
     else if name = ''exclude_files'' then
       (if base_name \<noteq> [] \<and> Matches (compile val) base_name
        then Inl (write_stderr (''Ignoring '' @ [dquote] @ filename @ [dquote] @ '': file excluded by '' @ [dquote] @ cfg_file @
               [dquote] @ ''. File path component '' @ [dquote] @ base_name @ [dquote] @ '' matches pattern '' @
               [dquote] @ val @ [dquote] @ [newline]) s)
        else Inr (keep_looking, cfg_filters, s))
     else if name = ''linelength'' then
       (case py_int val of
          Some n \<Rightarrow> Inr (keep_looking, cfg_filters, s\<lparr>line_length := n\<rparr>)
        | None \<Rightarrow> Inr (keep_looking, cfg_filters, write_stderr ''Line length must be numeric.'' s))
     else if name = ''root'' then Inr (keep_looking, cfg_filters, s\<lparr>root := Some val\<rparr>)
     else Inr (keep_looking, cfg_filters,
            write_stderr (''Invalid configuration option ('' @ name @ '') in file '' @ cfg_file @ [newline]) s))"

definition config_line ::
  "(string \<Rightarrow> rx) \<Rightarrow> string \<Rightarrow> string \<Rightarrow> string \<Rightarrow> string \<Rightarrow> config_state \<Rightarrow> lint + config_state"
where
  "config_line compile filename cfg_file base_name file_line p =
     (let line = fst (partition_at CHR ''#'' file_line) in
      if bytes_strip line = [] then Inr p
      else config_setting compile filename cfg_file base_name (bytes_strip (fst (partition_at CHR ''='' line)))
             (bytes_strip (snd (partition_at CHR ''='' line))) p)"

primrec config_lines ::
  "(string \<Rightarrow> rx) \<Rightarrow> string \<Rightarrow> string \<Rightarrow> string \<Rightarrow> string list \<Rightarrow> config_state \<Rightarrow> lint + config_state"
where
  "config_lines compile filename cfg_file base_name [] p = Inr p"
| "config_lines compile filename cfg_file base_name (l # ls) p =
     (case config_line compile filename cfg_file base_name l p of
        Inl s \<Rightarrow> Inl s
      | Inr p' \<Rightarrow> config_lines compile filename cfg_file base_name ls p')"

lemma dirname_of_file: "basename p \<noteq> [] \<Longrightarrow> length (dirname p) < length p"
proof -
  assume b: "basename p \<noteq> []"
  obtain h t where ht: "last_slash p = (h, t)" by fastforce
  have "p = h @ t" using last_slash_split [OF ht] by simp
  moreover have "length (dirname p) \<le> length h"
    using rstrip_char_prefix [of slash h, THEN prefix_length_le] by (simp add: dirname_def path_split_def ht)
  moreover have "t \<noteq> []" using b by (simp add: basename_def path_split_def ht)
  ultimately show ?thesis by (cases t) auto
qed

text \<open>The climb through the directories.\<close>

function config_loop ::
  "world \<Rightarrow> string \<Rightarrow> string \<Rightarrow> string list \<Rightarrow> lint \<Rightarrow> lint + string list \<times> lint"
where
  "config_loop w filename path cfg_filters s =
     (if basename path = [] then Inr (cfg_filters, s)
      else
        let abs_path = dirname path; cfg_file = path_join abs_path ''CPPLINT.cfg''
        in case w_config w cfg_file of
             No_Config \<Rightarrow> config_loop w filename abs_path cfg_filters s
           | Unreadable_Config \<Rightarrow>
               Inr (cfg_filters, write_stderr (''Skipping config file '' @ [squote] @ cfg_file @ [squote] @
                                    '': Can'' @ [squote] @ ''t open for reading'' @ [newline]) s)
           | Config_Lines ls \<Rightarrow>
               (case config_lines (w_compile w) filename cfg_file (basename path) ls (True, cfg_filters, s) of
                  Inl s' \<Rightarrow> Inl s'
                | Inr (keep_looking, cfg_filters', s') \<Rightarrow>
                    if keep_looking then config_loop w filename abs_path cfg_filters' s' else Inr (cfg_filters', s')))"
  by pat_completeness auto
termination
  by (relation "measure (\<lambda>(w, filename, p, fs, s). length p)") (auto intro: dirname_of_file)

declare config_loop.simps [simp del]

definition ProcessConfigOverrides :: "world \<Rightarrow> string \<Rightarrow> lint \<Rightarrow> (bool \<times> lint) res" where
  "ProcessConfigOverrides w filename s =
     (case config_loop w filename (abspath (w_env w) filename) [] s of
        Inl s' \<Rightarrow> Inr (False, s')
      | Inr (cfg_filters, s') \<Rightarrow> rbind (rfold g_AddFilters (rev cfg_filters) s') (\<lambda>s''. Inr (True, s'')))"

subsection \<open>One file\<close>

abbreviation carriage_return :: char where "carriage_return \<equiv> CHR 0x0D"

text \<open>
  The lines without the carriage returns at their ends, and the numbers of the lines that ended without and with one.  The
  last piece of the split is left as it is.
\<close>

primrec strip_returns :: "nat \<Rightarrow> string list \<Rightarrow> string list \<times> nat list \<times> nat list" where
  "strip_returns n [] = ([], [], [])"
| "strip_returns n (l # ls) =
     (if ls = [] then ([l], [], [])
      else case strip_returns (n + 1) ls of (ls', lf_lines, crlf_lines) \<Rightarrow>
        if py_endswith l [carriage_return]
        then (rstrip_char carriage_return l # ls', lf_lines, (n + 1) # crlf_lines)
        else (l # ls', (n + 1) # lf_lines, crlf_lines))"

text \<open>\<open>filename[filename.rfind('.') + 1:]\<close>\<close>

definition file_extension_of :: "string \<Rightarrow> string" where
  "file_extension_of filename = drop (case py_rfind CHR ''.'' filename of None \<Rightarrow> 0 | Some i \<Rightarrow> i + 1) filename"

definition report_returns :: "string \<Rightarrow> nat list \<Rightarrow> action" where
  "report_returns filename = rfold (\<lambda>linenum. Error filename (int linenum) ''whitespace/newline'' 1
     (''Unexpected '' @ [backslash] @ ''r (^M) found; better to use only '' @ [backslash] @ ''n''))"

text \<open>The part of \<open>ProcessFile\<close> behind the reading of the file.\<close>

definition check_content :: "world \<Rightarrow> string \<Rightarrow> check_fn list \<Rightarrow> string \<Rightarrow> action" where
  "check_content w filename extra_check_functions content s =
     (case strip_returns 0 (py_split_on newline content) of (lines, lf_lines, crlf_lines) \<Rightarrow>
      let file_extension = file_extension_of filename in
      if filename \<noteq> ''-'' \<and> file_extension \<notin> valid_extensions s then
        Inr (write_stderr (''Ignoring '' @ filename @ ''; not a valid file name ('' @
               py_join '', '' (w_extension_order w (valid_extensions s)) @ '')'' @ [newline]) s)
      else
        rbind (ProcessFileData w filename file_extension lines Error extra_check_functions s)
          (whenever (lf_lines \<noteq> [] \<and> crlf_lines \<noteq> []) (report_returns filename crlf_lines)))"

definition ProcessFile :: "world \<Rightarrow> string \<Rightarrow> int \<Rightarrow> check_fn list \<Rightarrow> action" where
  "ProcessFile w filename vlevel extra_check_functions s =
     rbind (ProcessConfigOverrides w filename (g_BackupFilters (snd (g_SetVerboseLevel vlevel s)))) (\<lambda>(go_on, s).
       if \<not> go_on then Inr (g_RestoreFilters s)
       else case w_read w filename of
         None \<Rightarrow>
           Inr (g_RestoreFilters (write_stderr (''Skipping input '' @ [squote] @ filename @ [squote] @ '': Can'' @ [squote] @
                  ''t open for reading'' @ [newline]) s))
       | Some content \<Rightarrow>
           rbind (check_content w filename extra_check_functions content s) (\<lambda>s.
             Inr (g_RestoreFilters (write_stderr (''Done processing '' @ filename @ [newline]) s))))"


subsection \<open>Command line\<close>

text \<open>
  How the program ends otherwise than by returning: \<open>sys.exit\<close> with a message or a number, or an exception that nobody
  catches.
\<close>

datatype exit_status = Exit_Message string | Exit_Code nat

datatype 'a finish = Returned 'a | Exited lint exit_status | Raised py_error

definition fbind :: "'a finish \<Rightarrow> ('a \<Rightarrow> 'b finish) \<Rightarrow> 'b finish" where
  "fbind m f = (case m of Returned x \<Rightarrow> f x | Exited s c \<Rightarrow> Exited s c | Raised e \<Rightarrow> Raised e)"

lemma fbind_simps [simp]:
  "fbind (Returned x) f = f x" "fbind (Exited s c) f = Exited s c" "fbind (Raised e) f = Raised e"
  by (simp_all add: fbind_def)

definition unless_raised :: "'a res \<Rightarrow> 'a finish" where
  "unless_raised m = (case m of Inl e \<Rightarrow> Raised e | Inr x \<Rightarrow> Returned x)"

definition USAGE :: string where
  "USAGE = concat (map (\<lambda>l. l @ [newline]) [
     [],
     ''Syntax: cpplint.py [--verbose=#] [--output=vs7] [--filter=-x,+y,...]'',
     ''                   [--counting=total|toplevel|detailed] [--root=subdir]'',
     ''                   [--linelength=digits]'',
     ''        <file> [file] ...'',
     [],
     ''  The style guidelines this tries to follow are those in'',
     ''    https://google-styleguide.googlecode.com/svn/trunk/cppguide.xml'',
     [],
     ''  Every problem is given a confidence score from 1-5, with 5 meaning we are'',
     ''  certain of the problem, and 1 meaning it could be a legitimate construct.'',
     ''  This will miss some errors, and is not a substitute for a code review.'',
     [],
     ''  To suppress false-positive errors of a certain category, add a'',
     ''  '' @ [squote] @ ''NOLINT(category)'' @ [squote] @ '' comment to the line.  NOLINT or NOLINT(*)'',
     ''  suppresses errors of all categories on that line.'',
     [],
     ''  The files passed in will be linted; at least one file must be provided.'',
     ''  Default linted extensions are .cc, .cpp, .cu, .cuh and .h.  Change the'',
     ''  extensions with the --extensions flag.'',
     [],
     ''  Flags:'',
     [],
     ''    output=vs7'',
     ''      By default, the output is formatted to ease emacs parsing.  Visual Studio'',
     ''      compatible output (vs7) may also be used.  Other formats are unsupported.'',
     [],
     ''    verbose=#'',
     ''      Specify a number 0-5 to restrict errors to certain verbosity levels.'',
     [],
     ''    filter=-x,+y,...'',
     ''      Specify a comma-separated list of category-filters to apply: only'',
     ''      error messages whose category names pass the filters will be printed.'',
     ''      (Category names are printed with the message and look like'',
     ''      '' @ [dquote] @ ''[whitespace/indent]'' @ [dquote] @ ''.)  Filters are evaluated left to right.'',
     ''      '' @ [dquote] @ ''-FOO'' @ [dquote] @ '' and '' @ [dquote] @ ''FOO'' @ [dquote] @ '' means '' @ [dquote] @ ''do not print categories that start with FOO'' @ [dquote] @ ''.'',
     ''      '' @ [dquote] @ ''+FOO'' @ [dquote] @ '' means '' @ [dquote] @ ''do print categories that start with FOO'' @ [dquote] @ ''.'',
     [],
     ''      Examples: --filter=-whitespace,+whitespace/braces'',
     ''                --filter=whitespace,runtime/printf,+runtime/printf_format'',
     ''                --filter=-,+build/include_what_you_use'',
     [],
     ''      To see a list of all the categories used in cpplint, pass no arg:'',
     ''         --filter='',
     [],
     ''    counting=total|toplevel|detailed'',
     ''      The total number of errors found is always printed. If'',
     ''      '' @ [squote] @ ''toplevel'' @ [squote] @ '' is provided, then the count of errors in each of'',
     ''      the top-level categories like '' @ [squote] @ ''build'' @ [squote] @ '' and '' @ [squote] @ ''whitespace'' @ [squote] @ '' will'',
     ''      also be printed. If '' @ [squote] @ ''detailed'' @ [squote] @ '' is provided, then a count'',
     ''      is provided for each category like '' @ [squote] @ ''build/class'' @ [squote] @ ''.'',
     [],
     ''    root=subdir'',
     ''      The root directory used for deriving header guard CPP variable.'',
     ''      By default, the header guard CPP variable is calculated as the relative'',
     ''      path to the directory that contains .git, .hg, or .svn.  When this flag'',
     ''      is specified, the relative path is calculated from the specified'',
     ''      directory. If the specified directory does not exist, this flag is'',
     ''      ignored.'',
     [],
     ''      Examples:'',
     ''        Assuming that src/.git exists, the header guard CPP variables for'',
     ''        src/chrome/browser/ui/browser.h are:'',
     [],
     ''        No flag => CHROME_BROWSER_UI_BROWSER_H_'',
     ''        --root=chrome => BROWSER_UI_BROWSER_H_'',
     ''        --root=chrome/browser => UI_BROWSER_H_'',
     [],
     ''    linelength=digits'',
     ''      This is the allowed line length for the project. The default value is'',
     ''      80 characters.'',
     [],
     ''      Examples:'',
     ''        --linelength=120'',
     [],
     ''    extensions=extension,extension,...'',
     ''      The allowed file extensions that cpplint will check'',
     [],
     ''      Examples:'',
     ''        --extensions=hpp,cpp'',
     [],
     ''    cpplint.py supports per-directory configurations specified in CPPLINT.cfg'',
     ''    files. CPPLINT.cfg file can contain a number of key=value pairs.'',
     ''    Currently the following options are supported:'',
     [],
     ''      set noparent'',
     ''      filter=+filter1,-filter2,...'',
     ''      exclude_files=regex'',
     ''      linelength=80'',
     ''      root=subdir'',
     [],
     ''    '' @ [dquote] @ ''set noparent'' @ [dquote] @ '' option prevents cpplint from traversing directory tree'',
     ''    upwards looking for more .cfg files in parent directories. This option'',
     ''    is usually placed in the top-level project directory.'',
     [],
     ''    The '' @ [dquote] @ ''filter'' @ [dquote] @ '' option is similar in function to --filter flag. It specifies'',
     ''    message filters in addition to the |_DEFAULT_FILTERS| and those specified'',
     ''    through --filter command-line flag.'',
     [],
     ''    '' @ [dquote] @ ''exclude_files'' @ [dquote] @ '' allows to specify a regular expression to be matched against'',
     ''    a file name. If the expression matches, the file is skipped and not run'',
     ''    through liner.'',
     [],
     ''    '' @ [dquote] @ ''linelength'' @ [dquote] @ '' allows to specify the allowed line length for the project.'',
     [],
     ''    The '' @ [dquote] @ ''root'' @ [dquote] @ '' option is similar in function to the --root flag (see example'',
     ''    above).'',
     [],
     ''    CPPLINT.cfg has an effect on files in the same directory and all'',
     ''    sub-directories, unless overridden by a nested configuration file.'',
     [],
     ''      Example file:'',
     ''        filter=-build/include_order,+build/include_alpha'',
     ''        exclude_files=.*'' @ [backslash] @ ''.cc'',
     [],
     ''    The above example disables build/include_order warning and enables'',
     ''    build/include_alpha as well as excludes all .cc from being'',
     ''    processed by linter, in the current directory (where the .cfg'',
     ''    file is located) and all sub-directories.''])"

definition PrintUsage :: "string option \<Rightarrow> lint \<Rightarrow> 'a finish" where
  "PrintUsage message s =
     Exited (write_stderr USAGE s)
       (case message of
          Some m \<Rightarrow> if m \<noteq> [] then Exit_Message ([newline] @ ''FATAL ERROR: '' @ m) else Exit_Code 1
        | None \<Rightarrow> Exit_Code 1)"

definition PrintCategories :: "lint \<Rightarrow> 'a finish" where
  "PrintCategories s =
     Exited (write_stderr (concat (map (\<lambda>cat. ''  '' @ cat @ [newline]) ERROR_CATEGORIES)) s) (Exit_Code 0)"

text \<open>
  \<open>getopt.getopt(args, '', longopts)\<close> of the standard library; \<open>None\<close> stands for \<open>GetoptError\<close>.  A long option may be
  abbreviated to any unique prefix.
\<close>

definition long_has_args :: "string \<Rightarrow> string list \<Rightarrow> (bool \<times> string) option" where
  "long_has_args optname longopts =
     (let possibilities = filter (prefix optname) longopts in
      if possibilities = [] then None
      else if optname \<in> set possibilities then Some (False, optname)
      else if optname @ ''='' \<in> set possibilities then Some (True, optname)
      else if length possibilities > 1 then None
      else let unique_match = hd possibilities in
        if py_endswith unique_match ''='' then Some (True, butlast unique_match) else Some (False, unique_match))"

definition do_longs :: "string list \<Rightarrow> string \<Rightarrow> string list \<Rightarrow> ((string \<times> string) \<times> string list) option" where
  "do_longs longopts optstring args =
     (let optname = takeWhile (\<lambda>c. c \<noteq> CHR ''='') optstring;
          optarg = (if CHR ''='' \<in> set optstring then Some (tl (dropWhile (\<lambda>c. c \<noteq> CHR ''='') optstring)) else None)
      in case long_has_args optname longopts of
           None \<Rightarrow> None
         | Some (has_arg, name) \<Rightarrow>
             if has_arg then
               (case optarg of
                  Some val \<Rightarrow> Some ((''--'' @ name, val), args)
                | None \<Rightarrow> (case args of [] \<Rightarrow> None | val # args' \<Rightarrow> Some ((''--'' @ name, val), args')))
             else if optarg \<noteq> None then None
             else Some ((''--'' @ name, []), args))"

lemma do_longs_shorter: "do_longs longopts optname args = Some (p, args') \<Longrightarrow> length args' \<le> length args"
  by (auto simp: do_longs_def Let_def split: option.splits if_splits list.splits)

function getopt :: "string list \<Rightarrow> string list \<Rightarrow> ((string \<times> string) list \<times> string list) option" where
  "getopt longopts [] = Some ([], [])"
| "getopt longopts (a # args) =
     (if \<not> py_startswith a ''-'' \<or> a = ''-'' then Some ([], a # args)
      else if a = ''--'' then Some ([], args)
      else if py_startswith a ''--'' then
        (case do_longs longopts (drop 2 a) args of
           None \<Rightarrow> None
         | Some (p, args') \<Rightarrow> map_option (\<lambda>(opts, filenames). (p # opts, filenames)) (getopt longopts args'))
      else None)"
  by pat_completeness auto
termination
  by (relation "measure (\<lambda>(longopts, args). length args)") (auto dest: do_longs_shorter)

definition long_options :: "string list" where
  "long_options = [''help'', ''output='', ''verbose='', ''counting='', ''filter='', ''root='', ''linelength='', ''extensions='']"

text \<open>The local variables of \<open>ParseArguments\<close>.\<close>

record arguments =
  arg_verbosity :: int
  arg_output_format :: string
  arg_filters :: string
  arg_counting_style :: string

text \<open>
  One option.  The value that \<open>int\<close> quotes in its message is left out.  Splitting the extensions never raises, so that the
  handler around it is never entered.
\<close>

definition one_option :: "string \<times> string \<Rightarrow> arguments \<times> lint \<Rightarrow> (arguments \<times> lint) finish" where
  "one_option = (\<lambda>(optname, val) (a, s).
     if optname = ''--help'' then PrintUsage None s
     else if optname = ''--output'' then
       (if val \<notin> set [''emacs'', ''vs7'', ''eclipse'']
        then PrintUsage (Some ''The only allowed output formats are emacs, vs7 and eclipse.'') s
        else Returned (a\<lparr>arg_output_format := val\<rparr>, s))
     else if optname = ''--verbose'' then
       (case py_int val of
          Some n \<Rightarrow> Returned (a\<lparr>arg_verbosity := n\<rparr>, s)
        | None \<Rightarrow> Raised (ValueError ''invalid literal for int() with base 10''))
     else if optname = ''--filter'' then
       (if val = [] then PrintCategories s else Returned (a\<lparr>arg_filters := val\<rparr>, s))
     else if optname = ''--counting'' then
       (if val \<notin> set [''total'', ''toplevel'', ''detailed'']
        then PrintUsage (Some ''Valid counting options are total, toplevel, and detailed'') s
        else Returned (a\<lparr>arg_counting_style := val\<rparr>, s))
     else if optname = ''--root'' then Returned (a, s\<lparr>root := Some val\<rparr>)
     else if optname = ''--linelength'' then
       (case py_int val of
          Some n \<Rightarrow> Returned (a, s\<lparr>line_length := n\<rparr>)
        | None \<Rightarrow> PrintUsage (Some ''Line length must be digits.'') s)
     else if optname = ''--extensions'' then Returned (a, s\<lparr>valid_extensions := set (py_split_on CHR '','' val)\<rparr>)
     else Returned (a, s))"

primrec all_options :: "(string \<times> string) list \<Rightarrow> arguments \<times> lint \<Rightarrow> (arguments \<times> lint) finish" where
  "all_options [] p = Returned p"
| "all_options (x # xs) p = fbind (one_option x p) (all_options xs)"

definition ParseArguments :: "string list \<Rightarrow> lint \<Rightarrow> (string list \<times> lint) finish" where
  "ParseArguments args s =
     (case getopt long_options args of
        None \<Rightarrow> PrintUsage (Some ''Invalid arguments.'') s
      | Some (opts, filenames) \<Rightarrow>
          fbind (all_options opts
                   (\<lparr>arg_verbosity = verbose_level (cpplint_state s), arg_output_format = output_format (cpplint_state s),
                     arg_filters = [], arg_counting_style = []\<rparr>, s)) (\<lambda>(a, s).
            if filenames = [] then PrintUsage (Some ''No files were specified.'') s
            else fbind (unless_raised (g_SetFilters (arg_filters a)
                          (snd (g_SetVerboseLevel (arg_verbosity a) (g_SetOutputFormat (arg_output_format a) s))))) (\<lambda>s.
              Returned (filenames, g_SetCountingStyle (arg_counting_style a) s))))"

subsection \<open>The main program\<close>

definition process_files :: "world \<Rightarrow> string list \<Rightarrow> action" where
  "process_files w = rfold (\<lambda>filename s. ProcessFile w filename (verbose_level (cpplint_state s)) [] s)"

definition main :: "world \<Rightarrow> string list \<Rightarrow> lint \<Rightarrow> unit finish" where
  "main w args s =
     fbind (ParseArguments args s) (\<lambda>(filenames, s).
     fbind (unless_raised (process_files w filenames (s\<lparr>cpplint_state := ResetErrorCounts (cpplint_state s)\<rparr>))) (\<lambda>s.
     Exited (PrintErrorCounts (w_items w) s) (Exit_Code (if error_count (cpplint_state s) > 0 then 1 else 0))))"

subsection \<open>Which configuration files take effect, and how\<close>

text \<open>The name and the value on a line of a configuration file, unless it is blank or only a comment.\<close>

definition config_entry :: "string \<Rightarrow> (string \<times> string) option" where
  "config_entry l =
     (let line = takeWhile (\<lambda>c. c \<noteq> CHR ''#'') l in
      if list_all ascii_space line then None
      else Some (bytes_strip (takeWhile (\<lambda>c. c \<noteq> CHR ''='') line), bytes_strip (drop 1 (dropWhile (\<lambda>c. c \<noteq> CHR ''='') line))))"

definition config_values :: "string \<Rightarrow> string list \<Rightarrow> string list" where
  "config_values name ls = concat (map (\<lambda>l. case config_entry l of None \<Rightarrow> [] | Some (n, val) \<Rightarrow> if n = name then [val] else []) ls)"

lemma bytes_strip_Nil: "bytes_strip s = [] \<longleftrightarrow> list_all ascii_space s"
proof -
  have "dropWhile P s = [] \<longleftrightarrow> list_all P s" for P :: "char \<Rightarrow> bool" and s by (simp add: dropWhile_eq_Nil_conv list_all_iff)
  then show ?thesis
    by (simp add: bytes_strip_def) (metis (no_types, lifting) dropWhile_eq_self_iff hd_dropWhile list.set_sel(1) list_all_iff set_rev dropWhile_eq_Nil_conv)
qed

lemma config_values_simps [simp]:
  "config_values name [] = []"
  "config_values name (l # ls) = (case config_entry l of None \<Rightarrow> [] | Some (n, val) \<Rightarrow> if n = name then [val] else []) @ config_values name ls"
  by (simp_all add: config_values_def)

text \<open>
  The files that are read for a path: the one in its directory and those further up, as far as the first one that says
  \<open>set noparent\<close>.  With each comes the component of the path below its directory.
\<close>

function config_chain :: "world \<Rightarrow> string \<Rightarrow> (string \<times> string list) list" where
  "config_chain w path =
     (if basename path = [] then []
      else case w_config w (path_join (dirname path) ''CPPLINT.cfg'') of
        Config_Lines ls \<Rightarrow>
          (basename path, ls) # (if config_values ''set noparent'' ls = [] then config_chain w (dirname path) else [])
      | _ \<Rightarrow> config_chain w (dirname path))"
  by pat_completeness auto
termination
  by (relation "measure (\<lambda>(w, p). length p)") (auto intro: dirname_of_file)

declare config_chain.simps [simp del]

definition excludes :: "world \<Rightarrow> string \<times> string list \<Rightarrow> bool" where
  "excludes w = (\<lambda>(base_name, ls). list_ex (\<lambda>val. Matches (w_compile w val) base_name) (config_values ''exclude_files'' ls))"

definition chain_values :: "world \<Rightarrow> string \<Rightarrow> string \<Rightarrow> string list" where
  "chain_values w path name = concat (map (\<lambda>(base_name, ls). config_values name ls) (config_chain w path))"

text \<open>What the entries leave of the options.\<close>

definition options_after :: "lint \<Rightarrow> string list \<Rightarrow> string list \<Rightarrow> lint \<Rightarrow> bool" where
  "options_after s lengths roots s' \<longleftrightarrow>
     cpplint_state s' = cpplint_state s \<and> valid_extensions s' = valid_extensions s \<and>
     line_length s' = last (line_length s # List.map_filter py_int lengths) \<and>
     root s' = last (root s # map Some roots) \<and> prefix (stderr s) (stderr s')"

lemma map_filter_append: "List.map_filter f (xs @ ys) = List.map_filter f xs @ List.map_filter f ys"
  by (simp add: List.map_filter_def)

lemma options_after_trans:
  assumes "options_after s l1 r1 s1" "options_after s1 l2 r2 s2"
  shows "options_after s (l1 @ l2) (r1 @ r2) s2"
proof -
  have last: "last (x # a @ b) = last (last (x # a) # b)" for x and a b :: "'x list"
    by (cases b rule: rev_cases) auto
  show ?thesis
    using assms unfolding options_after_def map_append
    by (auto simp: last [of "line_length s"] last [of "root s"] map_filter_append simp del: last.simps dest: prefix_order.trans)
qed

lemma options_after_refl [simp]: "options_after s [] [] s"
  by (simp add: options_after_def)

lemma options_after_write [simp]: "options_after s [] [] (write_stderr msg s)"
  by (simp add: options_after_def write_stderr_def)

lemma config_line_entry:
  "config_line compile filename cfg_file base_name l p =
     (case config_entry l of None \<Rightarrow> Inr p | Some (name, val) \<Rightarrow> config_setting compile filename cfg_file base_name name val p)"
  by (simp add: config_line_def config_entry_def partition_at_def bytes_strip_Nil Let_def)

lemma options_after_setting [simp]:
  "py_int val = Some n \<Longrightarrow> options_after s [val] [] (s\<lparr>line_length := n\<rparr>)"
  "py_int val = None \<Longrightarrow> options_after s [val] [] (write_stderr msg s)"
  "options_after s [] [val] (s\<lparr>root := Some val\<rparr>)"
  by (simp_all add: options_after_def write_stderr_def)

lemma config_setting_simps:
  "config_setting compile filename cfg_file base_name ''set noparent'' val (keep, fs, s) = Inr (False, fs, s)"
  "config_setting compile filename cfg_file base_name ''filter'' val (keep, fs, s) = Inr (keep, fs @ [val], s)"
  "base_name \<noteq> [] \<Longrightarrow> Matches (compile val) base_name \<Longrightarrow>
   \<exists>msg. config_setting compile filename cfg_file base_name ''exclude_files'' val (keep, fs, s) = Inl (write_stderr msg s)"
  "\<not> Matches (compile val) base_name \<Longrightarrow>
   config_setting compile filename cfg_file base_name ''exclude_files'' val (keep, fs, s) = Inr (keep, fs, s)"
  "\<exists>s'. config_setting compile filename cfg_file base_name ''linelength'' val (keep, fs, s) = Inr (keep, fs, s') \<and>
     options_after s [val] [] s'"
  "config_setting compile filename cfg_file base_name ''root'' val (keep, fs, s) = Inr (keep, fs, s\<lparr>root := Some val\<rparr>)"
  "name \<notin> {''set noparent'', ''filter'', ''exclude_files'', ''linelength'', ''root''} \<Longrightarrow>
   \<exists>msg. config_setting compile filename cfg_file base_name name val (keep, fs, s) = Inr (keep, fs, write_stderr msg s)"
  by (auto simp: config_setting_def split: option.split)

lemma one_of_five:
  "(x = a \<Longrightarrow> P) \<Longrightarrow> (x = b \<Longrightarrow> P) \<Longrightarrow> (x = c \<Longrightarrow> P) \<Longrightarrow> (x = d \<Longrightarrow> P) \<Longrightarrow> (x = e \<Longrightarrow> P) \<Longrightarrow>
   (x \<notin> {a, b, c, d, e} \<Longrightarrow> P) \<Longrightarrow> P"
  by blast

lemma config_line_spec:
  assumes "base_name \<noteq> []"
  shows "if \<exists>val \<in> set (config_values ''exclude_files'' [l]). Matches (compile val) base_name
     then \<exists>msg. config_line compile filename cfg_file base_name l (keep, fs, s) = Inl (write_stderr msg s)
     else \<exists>s'. config_line compile filename cfg_file base_name l (keep, fs, s) =
         Inr (keep \<and> config_values ''set noparent'' [l] = [], fs @ config_values ''filter'' [l], s') \<and>
       options_after s (config_values ''linelength'' [l]) (config_values ''root'' [l]) s'"
proof (cases "config_entry l")
  case None
  then show ?thesis by (simp add: config_line_entry)
next
  case (Some x)
  then obtain name val where e: "config_entry l = Some (name, val)" by (cases x) auto
  have vals: "config_values n [l] = (if name = n then [val] else [])" for n by (simp add: e)
  note line = config_line_entry e option.case prod.case
  consider "name = ''set noparent''" | "name = ''filter''" | "name = ''exclude_files''" | "name = ''linelength''" | "name = ''root''"
    | "name \<notin> {''set noparent'', ''filter'', ''exclude_files'', ''linelength'', ''root''}" by (rule one_of_five)
  then show ?thesis
  proof cases
    case 3
    with config_setting_simps(3) [OF assms, of compile val filename cfg_file keep fs s] show ?thesis
      unfolding line vals by (cases "Matches (compile val) base_name") (simp_all add: config_setting_simps(4))
  next
    case 4
    with config_setting_simps(5) [of compile filename cfg_file base_name val keep fs s] show ?thesis
      unfolding line vals by simp
  next
    case 6
    with config_setting_simps(7) [OF 6, of compile filename cfg_file base_name val keep fs s] show ?thesis
      unfolding line vals by auto
  qed (simp_all add: line vals config_setting_simps)
qed

lemma config_lines_spec:
  assumes "base_name \<noteq> []"
  shows "if \<exists>val \<in> set (config_values ''exclude_files'' ls). Matches (compile val) base_name
     then \<exists>l r s'. config_lines compile filename cfg_file base_name ls (keep, fs, s) = Inl s' \<and> options_after s l r s'
     else \<exists>s'. config_lines compile filename cfg_file base_name ls (keep, fs, s) =
         Inr (keep \<and> config_values ''set noparent'' ls = [], fs @ config_values ''filter'' ls, s') \<and>
       options_after s (config_values ''linelength'' ls) (config_values ''root'' ls) s'"
proof (induction ls arbitrary: keep fs s)
  case (Cons l ls)
  have split: "config_values name (l # ls) = config_values name [l] @ config_values name ls" for name by simp
  let ?ex = "\<lambda>ls. \<exists>val \<in> set (config_values ''exclude_files'' ls). Matches (compile val) base_name"
  show ?case
  proof (cases "?ex [l]")
    case True
    with config_line_spec [OF assms, of l compile] obtain msg where
      "config_line compile filename cfg_file base_name l (keep, fs, s) = Inl (write_stderr msg s)" by metis
    moreover from True have "?ex (l # ls)" unfolding split by auto
    ultimately show ?thesis by (auto intro!: exI [of _ "[]"] simp del: config_values_simps)
  next
    case False
    with config_line_spec [OF assms, of l compile filename cfg_file keep fs s] obtain s1 where
      1: "config_line compile filename cfg_file base_name l (keep, fs, s) =
         Inr (keep \<and> config_values ''set noparent'' [l] = [], fs @ config_values ''filter'' [l], s1)"
      "options_after s (config_values ''linelength'' [l]) (config_values ''root'' [l]) s1" by (auto simp del: config_values_simps)
    have ex: "?ex (l # ls) \<longleftrightarrow> ?ex ls" using False unfolding split by auto
    note IH = Cons.IH [of "keep \<and> config_values ''set noparent'' [l] = []" "fs @ config_values ''filter'' [l]" s1]
    show ?thesis
    proof (cases "?ex ls")
      case True
      with IH options_after_trans [OF 1(2)] 1(1) ex show ?thesis by (simp del: config_values_simps) blast
    next
      case False
      with IH options_after_trans [OF 1(2)] 1(1) ex show ?thesis
        unfolding split by (auto simp del: config_values_simps)
    qed
  qed
qed simp

lemma config_lines_after:
  assumes "base_name \<noteq> []"
  shows "\<exists>l r. options_after s l r (case config_lines compile filename cfg_file base_name ls (True, fs, s) of Inl s' \<Rightarrow> s' | Inr (k, fs', s') \<Rightarrow> s')"
proof (cases "\<exists>val \<in> set (config_values ''exclude_files'' ls). Matches (compile val) base_name")
  case True
  with config_lines_spec [OF assms, of ls compile filename cfg_file True fs s] obtain l r s' where
    "config_lines compile filename cfg_file base_name ls (True, fs, s) = Inl s'" "options_after s l r s'" by auto
  then show ?thesis by (intro exI) simp
next
  case False
  with config_lines_spec [OF assms, of ls compile filename cfg_file True fs s] obtain k fs' l r s' where
    "config_lines compile filename cfg_file base_name ls (True, fs, s) = Inr (k, fs', s')" "options_after s l r s'" by auto
  then show ?thesis by (intro exI) simp
qed

lemma options_unchanged:
  "\<exists>l r. options_after s l r s" "\<exists>l r. options_after s l r (write_stderr msg s)"
  by (rule exI, rule exI, rule options_after_refl) (rule exI, rule exI, rule options_after_write)

lemma config_loop_after:
  "\<exists>l r. options_after s l r (case config_loop w filename path fs s of Inl s' \<Rightarrow> s' | Inr (fs', s') \<Rightarrow> s')"
proof (induction w filename path fs s rule: config_loop.induct)
  case (1 w filename path fs s)
  let ?cfg = "path_join (dirname path) ''CPPLINT.cfg''"
  show ?case
  proof (cases "basename path = []")
    case True
    then show ?thesis by (subst config_loop.simps) (simp add: options_unchanged)
  next
    case False
    show ?thesis
    proof (cases "w_config w ?cfg")
      case No_Config
      with False 1(1) show ?thesis by (subst config_loop.simps) (simp add: Let_def)
    next
      case Unreadable_Config
      with False show ?thesis by (subst config_loop.simps) (simp add: Let_def options_unchanged)
    next
      case (Config_Lines ls)
      let ?r = "config_lines (w_compile w) filename ?cfg (basename path) ls (True, fs, s)"
      obtain l r where after: "options_after s l r (case ?r of Inl s' \<Rightarrow> s' | Inr (k, fs', s') \<Rightarrow> s')"
        using config_lines_after [OF False] by blast
      show ?thesis
      proof (cases ?r)
        case (Inl s')
        with False Config_Lines after show ?thesis by (subst config_loop.simps) (auto simp: Let_def)
      next
        case (Inr x)
        obtain keep fs' s' where x: "x = (keep, fs', s')" by (cases x)
        show ?thesis
        proof (cases keep)
          case True
          with 1(2) [OF \<open>basename path \<noteq> []\<close> refl refl Config_Lines Inr [unfolded x] refl refl True] options_after_trans after
          show ?thesis by (subst config_loop.simps) (simp add: Let_def False Config_Lines Inr x, blast)
        next
          case False
          with \<open>basename path \<noteq> []\<close> Config_Lines Inr x after show ?thesis by (subst config_loop.simps) (auto simp: Let_def)
        qed
      qed
    qed
  qed
qed

lemma config_loop_spec:
  assumes "\<And>p. w_config w p \<noteq> Unreadable_Config"
  shows "if list_ex (excludes w) (config_chain w path)
     then \<exists>l r s'. config_loop w filename path fs s = Inl s' \<and> options_after s l r s'
     else \<exists>s'. config_loop w filename path fs s = Inr (fs @ chain_values w path ''filter'', s') \<and>
       options_after s (chain_values w path ''linelength'') (chain_values w path ''root'') s'"
proof (induction "length path" arbitrary: path fs s rule: less_induct)
  case less
  let ?cfg = "path_join (dirname path) ''CPPLINT.cfg''"
  show ?case
  proof (cases "basename path = []")
    case True
    then have "config_chain w path = []" by (simp add: config_chain.simps)
    with True show ?thesis by (subst config_loop.simps) (simp add: chain_values_def)
  next
    case False
    note IH = less.hyps [OF dirname_of_file [OF False]]
    show ?thesis
    proof (cases "w_config w ?cfg")
      case No_Config
      then have chain: "config_chain w path = config_chain w (dirname path)" using False by (subst config_chain.simps) simp
      have vals: "chain_values w path = chain_values w (dirname path)" by (simp add: fun_eq_iff chain_values_def chain)
      have "config_loop w filename path fs s = config_loop w filename (dirname path) fs s"
        using No_Config False by (subst config_loop.simps) (simp add: Let_def)
      with IH [of fs s] show ?thesis unfolding chain vals by simp
    next
      case Unreadable_Config
      with assms show ?thesis by simp
    next
      case (Config_Lines ls)
      let ?more = "config_values ''set noparent'' ls = []" and ?b = "(basename path, ls)"
      let ?rest = "if ?more then config_chain w (dirname path) else []"
      have chain: "config_chain w path = ?b # ?rest" using False Config_Lines by (subst config_chain.simps) simp
      have loop: "config_loop w filename path fs s =
        (case config_lines (w_compile w) filename ?cfg (basename path) ls (True, fs, s) of
           Inl s' \<Rightarrow> Inl s'
         | Inr (keep, fs', s') \<Rightarrow> if keep then config_loop w filename (dirname path) fs' s' else Inr (fs', s'))"
        using False Config_Lines by (subst config_loop.simps) (simp add: Let_def)
      have vals: "chain_values w path name = config_values name ls @ (if ?more then chain_values w (dirname path) name else [])" for name
        by (simp add: chain_values_def chain)
      have ex: "excludes w ?b \<longleftrightarrow> (\<exists>val \<in> set (config_values ''exclude_files'' ls). Matches (w_compile w val) (basename path))"
        by (simp add: excludes_def list_ex_iff)
      note step = config_lines_spec [OF False, of ls "w_compile w" filename ?cfg True fs s, folded ex]
      show ?thesis
      proof (cases "excludes w ?b")
        case True
        with step obtain l r s' where
          "config_lines (w_compile w) filename ?cfg (basename path) ls (True, fs, s) = Inl s'" "options_after s l r s'" by auto
        with True loop show ?thesis unfolding chain by (simp, intro exI)
      next
        case False
        with step obtain s1 where
          s1: "config_lines (w_compile w) filename ?cfg (basename path) ls (True, fs, s) = Inr (?more, fs @ config_values ''filter'' ls, s1)"
          "options_after s (config_values ''linelength'' ls) (config_values ''root'' ls) s1" by auto
        show ?thesis
        proof (cases ?more)
          case True
          with IH [of "fs @ config_values ''filter'' ls" s1] options_after_trans [OF s1(2)] loop s1(1) False
          show ?thesis unfolding chain vals by (simp split: if_splits) blast+
        next
          case more: False
          with loop s1 False show ?thesis unfolding chain vals by simp
        qed
      qed
    qed
  qed
qed

subsection \<open>The filters of configuration files\<close>

definition with_filters :: "lint \<Rightarrow> string list \<Rightarrow> lint" where
  "with_filters s fs = s\<lparr>cpplint_state := (cpplint_state s)\<lparr>filters := fs\<rparr>\<rparr>"

text \<open>The error of a filter without a sign.\<close>

definition unsigned_filter :: "py_error \<Rightarrow> bool" where
  "unsigned_filter e \<longleftrightarrow> (\<exists>f. \<not> signed_filter f \<and>
     e = ValueError (''Every filter in --filters must start with + or - ('' @ f @ '' does not)''))"

lemma g_AddFilters_cases:
  "case g_AddFilters f s of
     Inl e \<Rightarrow> unsigned_filter e
   | Inr s' \<Rightarrow> s' = with_filters s (filters (cpplint_state s) @ filter_pieces f) \<and> filters_ok (filters (cpplint_state s'))"
proof (cases "AddFilters f (cpplint_state s)")
  case (Inl e)
  then have "unsigned_filter e"
    by (auto simp: AddFilters_def Let_def unsigned_filter_def find_Some_iff split: option.splits)
  with Inl show ?thesis by (simp add: g_AddFilters_def)
next
  case (Inr st)
  note st = Inr [unfolded AddFilters_Inr_iff]
  have "with_filters s (filters (cpplint_state s) @ filter_pieces f) = s\<lparr>cpplint_state := st\<rparr>"
    unfolding with_filters_def st [THEN conjunct2, symmetric] ..
  with st [THEN conjunct1] Inr show ?thesis by (simp add: g_AddFilters_def)
qed

lemma add_all_cases:
  "case rfold g_AddFilters fs s of
     Inl e \<Rightarrow> unsigned_filter e
   | Inr s' \<Rightarrow> s' = with_filters s (filters (cpplint_state s) @ concat (map filter_pieces fs)) \<and>
       (filters_ok (filters (cpplint_state s)) \<longrightarrow> filters_ok (filters (cpplint_state s')))"
proof (induction fs arbitrary: s)
  case Nil
  then show ?case by (simp add: with_filters_def)
next
  case (Cons f fs)
  show ?case
  proof (cases "g_AddFilters f s")
    case (Inl e)
    with g_AddFilters_cases [where f = f and s = s] show ?thesis by simp
  next
    case (Inr s1)
    note s1 = g_AddFilters_cases [where f = f and s = s, unfolded Inr sum.case]
    have "filters (cpplint_state s1) = filters (cpplint_state s) @ filter_pieces f"
      "with_filters s1 gs = with_filters s gs" for gs unfolding s1 [THEN conjunct1] by (simp_all add: with_filters_def)
    with Cons.IH [of s1] s1 [THEN conjunct2] show ?thesis
      by (cases "rfold g_AddFilters fs s1") (simp_all add: Inr)
  qed
qed

lemma add_all_signed:
  assumes "filters_ok (filters (cpplint_state s))" "\<forall>f \<in> set fs. list_all signed_filter (filter_pieces f)"
  shows "rfold g_AddFilters fs s = Inr (with_filters s (filters (cpplint_state s) @ concat (map filter_pieces fs)))"
  using assms
proof (induction fs arbitrary: s)
  case (Cons f fs)
  have "AddFilters f (cpplint_state s) = Inr ((cpplint_state s)\<lparr>filters := filters (cpplint_state s) @ filter_pieces f\<rparr>)"
    using Cons.prems by (simp add: AddFilters_Inr_iff filters_ok_def)
  then have "g_AddFilters f s = Inr (with_filters s (filters (cpplint_state s) @ filter_pieces f))"
    by (simp add: g_AddFilters_def with_filters_def)
  with Cons show ?case by (simp add: with_filters_def filters_ok_def)
qed (simp add: with_filters_def)

lemma ProcessConfigOverrides_cases:
  "case ProcessConfigOverrides w filename s of
     Inl e \<Rightarrow> unsigned_filter e
   | Inr (go_on, s') \<Rightarrow> \<exists>l r s1 new. options_after s l r s1 \<and> s' = with_filters s1 (filters (cpplint_state s) @ new) \<and>
       (filters_ok (filters (cpplint_state s)) \<longrightarrow> filters_ok (filters (cpplint_state s')))"
proof (cases "config_loop w filename (abspath (w_env w) filename) [] s")
  case (Inl s1)
  with config_loop_after [of s w filename "abspath (w_env w) filename" "[]"] obtain l r where "options_after s l r s1" by auto
  moreover from this have "cpplint_state s1 = cpplint_state s" by (simp add: options_after_def)
  then have "s1 = with_filters s1 (filters (cpplint_state s) @ [])" by (simp add: with_filters_def)
  moreover have "ProcessConfigOverrides w filename s = Inr (False, s1)" by (simp add: ProcessConfigOverrides_def Inl)
  ultimately show ?thesis using \<open>cpplint_state s1 = cpplint_state s\<close> by (simp only: sum.case prod.case) metis
next
  case (Inr x)
  obtain fs s1 where x: "x = (fs, s1)" by fastforce
  with Inr config_loop_after [of s w filename "abspath (w_env w) filename" "[]"] obtain l r where after: "options_after s l r s1" by auto
  then have st: "cpplint_state s1 = cpplint_state s" by (simp add: options_after_def)
  show ?thesis
  proof (cases "rfold g_AddFilters (rev fs) s1")
    case (Inl e)
    with Inr x add_all_cases [where fs = "rev fs" and s = s1] show ?thesis by (simp add: ProcessConfigOverrides_def)
  next
    case (Inr s2)
    note s2 = add_all_cases [where fs = "rev fs" and s = s1, unfolded Inr sum.case st]
    have "ProcessConfigOverrides w filename s = Inr (True, s2)"
      using \<open>config_loop w filename (abspath (w_env w) filename) [] s = Inr x\<close> x Inr by (simp add: ProcessConfigOverrides_def)
    with after s2 show ?thesis by (simp only: sum.case prod.case) blast
  qed
qed

subsection \<open>A file leaves the options as they were\<close>

definition logs :: "lint \<Rightarrow> lint \<Rightarrow> bool" where
  "logs s0 s \<longleftrightarrow> lint_ok s \<and> valid_extensions s = valid_extensions s0 \<and>
     counting (cpplint_state s) = counting (cpplint_state s0) \<and> output_format (cpplint_state s) = output_format (cpplint_state s0) \<and>
     error_count (cpplint_state s0) \<le> error_count (cpplint_state s) \<and>
     (\<exists>new. stderr s = stderr s0 @ new \<and> error_count (cpplint_state s) \<le> error_count (cpplint_state s0) + length new)"

lemma logs_refl: "lint_ok s \<Longrightarrow> logs s s"
  by (simp add: logs_def)

lemma logs_trans: "logs s1 s2 \<Longrightarrow> logs s2 s3 \<Longrightarrow> logs s1 s3"
  by (fastforce simp: logs_def)

lemma only_reports_logs: "only_reports s0 s \<Longrightarrow> logs s0 s"
  by (auto simp: only_reports_def logs_def same_options_def)

lemma logs_write [simp]: "logs s0 s \<Longrightarrow> logs s0 (write_stderr msg s)"
  by (auto simp: logs_def write_stderr_def lint_ok_def)

lemma same_options_write [simp]: "same_options s0 (write_stderr msg s) \<longleftrightarrow> same_options s0 s"
  by (simp add: same_options_def write_stderr_def)

lemma split_without_separator: "l \<in> set (py_split_on d s) \<Longrightarrow> d \<notin> set l"
  by (induction s arbitrary: l) (auto split: list.splits if_splits)

lemma strip_returns_within: "\<forall>l \<in> set ls. x \<notin> set l \<Longrightarrow> \<forall>l \<in> set (fst (strip_returns n ls)). x \<notin> set l"
proof (induction ls arbitrary: n)
  case (Cons a ls)
  have "x \<notin> set (rstrip_char carriage_return a)"
    using set_mono_prefix [OF rstrip_char_prefix, of carriage_return a] Cons.prems by auto
  with Cons show ?case by (simp split: prod.split) (metis fst_conv)
qed simp

lemma file_lines_break_free: "break_free (fst (strip_returns n (py_split_on newline content)))"
  using strip_returns_within [of "py_split_on newline content" newline n] split_without_separator [of _ newline content]
  by (simp add: break_free_def)

lemma report_returns_keeps: "keeps (only_reports s0) (report_returns filename ns)"
  unfolding report_returns_def by (intro keeps_rfold reports.error_keeps) (simp_all)

lemma check_content_outcome:
  assumes "world_ok w" "lint_ok s"
  shows "outcome (raised_at (verbose_level (cpplint_state s))) (\<lambda>s'. logs s s' \<and> same_options s s') (check_content w filename [] content s)"
proof -
  let ?E = "raised_at (verbose_level (cpplint_state s))"
  obtain ls lf crlf where strip: "strip_returns 0 (py_split_on newline content) = (ls, lf, crlf)" by (metis prod_cases3)
  then have "break_free ls" using file_lines_break_free [of 0 content] by simp
  from file_data_outcome [OF assms(1) this assms(2)] have
    data: "outcome ?E (only_reports s) (ProcessFileData w filename ext ls Error [] s)" for ext by simp
  have "outcome ?E (only_reports s) (rbind (ProcessFileData w filename ext ls Error [] s)
      (whenever c (report_returns filename crlf)))" for ext c
    by (rule outcome_bind [OF data]) (intro lands_outcome lands_whenever keeps_lands [OF report_returns_keeps])
  then have checked: "outcome ?E (\<lambda>s'. logs s s' \<and> same_options s s') (rbind (ProcessFileData w filename ext ls Error [] s)
      (whenever c (report_returns filename crlf)))" for ext c
    by (rule outcome_mono) (auto simp: only_reports_logs only_reports_def)
  have "logs s (write_stderr msg s) \<and> same_options s (write_stderr msg s)" for msg
    using logs_refl [OF assms(2)] by (simp add: same_options_def write_stderr_def [of msg s] logs_write [unfolded write_stderr_def])
  with checked show ?thesis unfolding check_content_def strip by (simp add: Let_def)
qed

lemma ProcessFile_outcome:
  assumes "world_ok w" "lint_ok s"
  shows "case ProcessFile w filename vlevel [] s of
     Inl e \<Rightarrow> e \<in> raised_at vlevel \<or> unsigned_filter e
   | Inr s' \<Rightarrow> logs s s' \<and> filters (cpplint_state s') = filters (cpplint_state s) \<and> verbose_level (cpplint_state s') = vlevel"
proof -
  let ?s0 = "g_BackupFilters (snd (g_SetVerboseLevel vlevel s))"
  let ?goal = "\<lambda>s'. logs s s' \<and> filters (cpplint_state s') = filters (cpplint_state s) \<and> verbose_level (cpplint_state s') = vlevel"
  let ?like = "\<lambda>s1. logs s s1 \<and> filters_backup (cpplint_state s1) = filters (cpplint_state s) \<and> verbose_level (cpplint_state s1) = vlevel"
  have restored: "?goal (g_RestoreFilters s1)" if "?like s1" for s1
    using that by (auto simp: g_RestoreFilters_def RestoreFilters_def logs_def lint_ok_def state_ok_def counts_ok_def)
  have written: "?like (write_stderr msg s1)" if "?like s1" for msg s1
    using that by (simp) (simp add: write_stderr_def)
  note config = ProcessConfigOverrides_cases [of ?s0 w filename]
  show ?thesis
  proof (cases "ProcessConfigOverrides w filename ?s0")
    case (Inl e)
    with config show ?thesis by (simp add: ProcessFile_def)
  next
    case (Inr x)
    obtain go_on s1 where x: "x = (go_on, s1)" by fastforce
    from config [unfolded Inr x sum.case prod.case] obtain l r s2 new where
      s2: "options_after ?s0 l r s2" "s1 = with_filters s2 (filters (cpplint_state ?s0) @ new)"
      and ok: "filters_ok (filters (cpplint_state ?s0)) \<longrightarrow> filters_ok (filters (cpplint_state s1))" by blast
    have s0: "lint_ok ?s0" "filters (cpplint_state ?s0) = filters (cpplint_state s)" "filters_backup (cpplint_state ?s0) = filters (cpplint_state s)"
      "verbose_level (cpplint_state ?s0) = vlevel"
      using assms(2) by (simp_all add: g_BackupFilters_def BackupFilters_def g_SetVerboseLevel_def SetVerboseLevel_def lint_ok_def
          state_ok_def counts_ok_def)
    from assms(2) have "filters_ok (filters (cpplint_state s))" by (simp add: lint_ok_def state_ok_def)
    with ok s0 have "filters_ok (filters (cpplint_state s1))" by simp
    then have like: "?like s1"
      using s2 s0 by (auto simp: options_after_def with_filters_def logs_def lint_ok_def state_ok_def counts_ok_def prefix_def
          g_BackupFilters_def BackupFilters_def g_SetVerboseLevel_def SetVerboseLevel_def)
    show ?thesis
    proof (cases go_on)
      case False
      with Inr x restored [OF like] show ?thesis by (simp add: ProcessFile_def)
    next
      case True
      show ?thesis
      proof (cases "w_read w filename")
        case None
        with True Inr x restored [OF written [OF like]] show ?thesis by (simp add: ProcessFile_def)
      next
        case (Some content)
        from like have "lint_ok s1" by (simp add: logs_def)
        from check_content_outcome [OF assms(1) this, of filename content]
        have "outcome (raised_at vlevel) ?like (check_content w filename [] content s1)"
          using like by (auto elim!: outcome_mono simp: same_options_def intro: logs_trans)
        then have "outcome (raised_at vlevel) ?goal (rbind (check_content w filename [] content s1)
            (\<lambda>s. Inr (g_RestoreFilters (write_stderr (''Done processing '' @ filename @ [newline]) s))))"
          by (rule outcome_bind) (simp only: outcome_simps restored [OF written])
        then have "outcome (raised_at vlevel) ?goal (ProcessFile w filename vlevel [] s)"
          using True Inr x Some by (simp add: ProcessFile_def)
        then show ?thesis by (auto simp: outcome_def split: sum.splits)
      qed
    qed
  qed
qed

subsection \<open>What the arguments do\<close>

definition output_formats :: "string set" where
  "output_formats = {''emacs'', ''vs7'', ''eclipse''}"

definition counting_styles :: "string set" where
  "counting_styles = {''total'', ''toplevel'', ''detailed''}"

definition category_list :: string where
  "category_list = concat (map (\<lambda>cat. ''  '' @ cat @ [newline]) ERROR_CATEGORIES)"

text \<open>The program ends with the number 0 after the list of categories, and with a message or the number 1 after the usage.\<close>

definition usage_exit :: "lint \<Rightarrow> lint \<Rightarrow> exit_status \<Rightarrow> bool" where
  "usage_exit s s' c \<longleftrightarrow>
     (c = Exit_Code 0 \<and> stderr s' = stderr s @ [category_list]) \<or> (c \<noteq> Exit_Code 0 \<and> stderr s' = stderr s @ [USAGE])"

definition parsed :: "arguments \<times> lint \<Rightarrow> (arguments \<times> lint) finish \<Rightarrow> bool" where
  "parsed p m \<longleftrightarrow> (case m of
     Returned (a', s') \<Rightarrow> cpplint_state s' = cpplint_state (snd p) \<and> stderr s' = stderr (snd p) \<and>
       arg_output_format a' \<in> insert (arg_output_format (fst p)) output_formats \<and>
       arg_counting_style a' \<in> insert (arg_counting_style (fst p)) counting_styles
   | Exited s' c \<Rightarrow> usage_exit (snd p) s' c
   | Raised e \<Rightarrow> e = ValueError ''invalid literal for int() with base 10'')"

lemma parsed_usage [simp]: "parsed (a, s) (PrintUsage message s)" "parsed (a, s) (PrintCategories s)"
  by (auto simp: parsed_def usage_exit_def PrintUsage_def PrintCategories_def category_list_def write_stderr_def split: option.split)

lemma parsed_same [simp]:
  "parsed (a, s) (Returned (a, s))"
  "parsed (a, s) (Returned (a\<lparr>arg_verbosity := n\<rparr>, s))"
  "parsed (a, s) (Returned (a\<lparr>arg_filters := val\<rparr>, s))"
  "val \<in> output_formats \<Longrightarrow> parsed (a, s) (Returned (a\<lparr>arg_output_format := val\<rparr>, s))"
  "val \<in> counting_styles \<Longrightarrow> parsed (a, s) (Returned (a\<lparr>arg_counting_style := val\<rparr>, s))"
  "parsed (a, s) (Returned (a, s\<lparr>root := r\<rparr>))"
  "parsed (a, s) (Returned (a, s\<lparr>line_length := n\<rparr>))"
  "parsed (a, s) (Returned (a, s\<lparr>valid_extensions := es\<rparr>))"
  "parsed (a, s) (Raised (ValueError ''invalid literal for int() with base 10''))"
  by (simp_all add: parsed_def)

lemma parsed_if: "(c \<Longrightarrow> parsed p m) \<Longrightarrow> (\<not> c \<Longrightarrow> parsed p m') \<Longrightarrow> parsed p (if c then m else m')"
  by simp

lemma parsed_option: "parsed p m \<Longrightarrow> (\<And>x. parsed p (f x)) \<Longrightarrow> parsed p (case v of None \<Rightarrow> m | Some x \<Rightarrow> f x)"
  by (cases v) simp_all

lemma one_option_parsed: "parsed (a, s) (one_option (name, val) (a, s))"
proof -
  have "\<not> val \<notin> set [''emacs'', ''vs7'', ''eclipse''] \<Longrightarrow> val \<in> output_formats"
    "\<not> val \<notin> set [''total'', ''toplevel'', ''detailed''] \<Longrightarrow> val \<in> counting_styles"
    by (simp_all add: output_formats_def counting_styles_def)
  then show ?thesis
    unfolding one_option_def prod.case by (intro parsed_if parsed_option parsed_usage parsed_same)
qed

lemma all_options_parsed: "parsed (a, s) (all_options opts (a, s))"
proof (induction opts arbitrary: a s)
  case (Cons x opts)
  have step: "parsed (a, s) (one_option x (a, s))" using one_option_parsed by (cases x) simp
  show ?case
  proof (cases "one_option x (a, s)")
    case (Returned p)
    then obtain a' s' where p: "one_option x (a, s) = Returned (a', s')" by (cases p) simp
    with step Cons.IH [of a' s'] show ?thesis
      by (auto simp: parsed_def usage_exit_def split: finish.split)
  next
    case (Exited s' c)
    with step show ?thesis by (simp add: parsed_def)
  next
    case (Raised e)
    with step show ?thesis by (simp add: parsed_def)
  qed
qed simp

lemma g_SetFilters_cases:
  "case g_SetFilters f s of
     Inl e \<Rightarrow> unsigned_filter e
   | Inr s' \<Rightarrow> s' = with_filters s (DEFAULT_FILTERS @ filter_pieces f) \<and> filters_ok (filters (cpplint_state s'))"
proof -
  let ?s = "with_filters s DEFAULT_FILTERS"
  have "g_SetFilters f s = g_AddFilters f ?s"
    by (simp add: g_SetFilters_def g_AddFilters_def SetFilters_def with_filters_def)
  moreover have "with_filters ?s fs = with_filters s fs" "filters (cpplint_state ?s) = DEFAULT_FILTERS" for fs
    by (simp_all add: with_filters_def)
  ultimately show ?thesis using g_AddFilters_cases [where f = f and s = ?s] by (cases "g_AddFilters f ?s") simp_all
qed

definition arguments_set :: "lint \<Rightarrow> lint \<Rightarrow> bool" where
  "arguments_set s s' \<longleftrightarrow> stderr s' = stderr s \<and>
     (\<exists>v out f style. out \<in> insert (output_format (cpplint_state s)) output_formats \<and> style \<in> insert [] counting_styles \<and>
        filters_ok (DEFAULT_FILTERS @ filter_pieces f) \<and>
        cpplint_state s' = (cpplint_state s)\<lparr>verbose_level := v, output_format := out,
          filters := DEFAULT_FILTERS @ filter_pieces f, counting := style\<rparr>)"

lemma ParseArguments_cases:
  "case ParseArguments args s of
     Returned (filenames, s') \<Rightarrow> filenames \<noteq> [] \<and> arguments_set s s'
   | Exited s' c \<Rightarrow> usage_exit s s' c
   | Raised e \<Rightarrow> e = ValueError ''invalid literal for int() with base 10'' \<or> unsigned_filter e"
proof (cases "getopt long_options args")
  case None
  have "usage_exit s (write_stderr USAGE s) (Exit_Message m)" for m by (simp add: usage_exit_def write_stderr_def)
  with None show ?thesis by (simp add: ParseArguments_def PrintUsage_def)
next
  case (Some x)
  obtain opts filenames where x: "x = (opts, filenames)" by fastforce
  let ?a = "\<lparr>arg_verbosity = verbose_level (cpplint_state s), arg_output_format = output_format (cpplint_state s),
              arg_filters = [], arg_counting_style = []\<rparr>"
  have options: "parsed (?a, s) (all_options opts (?a, s))" by (rule all_options_parsed)
  show ?thesis
  proof (cases "all_options opts (?a, s)")
    case (Returned p)
    obtain a s1 where p: "p = (a, s1)" by fastforce
    with options Returned have s1: "cpplint_state s1 = cpplint_state s" "stderr s1 = stderr s"
      "arg_output_format a \<in> insert (output_format (cpplint_state s)) output_formats"
      "arg_counting_style a \<in> insert [] counting_styles" by (simp_all add: parsed_def)
    have usage: "usage_exit s (write_stderr USAGE s1) (Exit_Message m)" for m using s1 by (simp add: usage_exit_def write_stderr_def)
    let ?s2 = "snd (g_SetVerboseLevel (arg_verbosity a) (g_SetOutputFormat (arg_output_format a) s1))"
    note set_filters = g_SetFilters_cases [where f = "arg_filters a" and s = ?s2]
    show ?thesis
    proof (cases "filenames = []")
      case True
      with Some x Returned p usage show ?thesis by (simp add: ParseArguments_def PrintUsage_def)
    next
      case False
      show ?thesis
      proof (cases "g_SetFilters (arg_filters a) ?s2")
        case (Inl e)
        with set_filters False Some x Returned p show ?thesis by (simp add: ParseArguments_def unless_raised_def)
      next
        case (Inr s3)
        note s3 = set_filters [unfolded Inr sum.case]
        have "arguments_set s (g_SetCountingStyle (arg_counting_style a) s3)"
          unfolding arguments_set_def
        proof (intro conjI exI)
          show "filters_ok (DEFAULT_FILTERS @ filter_pieces (arg_filters a))" using s3 by (auto simp: with_filters_def)
        qed (use s1 s3 in \<open>auto simp: with_filters_def g_SetCountingStyle_def SetCountingStyle_def g_SetVerboseLevel_def SetVerboseLevel_def
            g_SetOutputFormat_def SetOutputFormat_def\<close>)
        with False Some x Returned p Inr show ?thesis by (simp add: ParseArguments_def unless_raised_def)
      qed
    qed
  next
    case (Exited s' c)
    with options Some x show ?thesis by (simp add: ParseArguments_def parsed_def)
  next
    case (Raised e)
    with options Some x show ?thesis by (simp add: ParseArguments_def parsed_def)
  qed
qed

lemma process_files_outcome:
  assumes "world_ok w" "lint_ok s"
  shows "outcome {e. e = IndexError \<or> (\<exists>m. e = ValueError m)} (logs s) (process_files w filenames s)"
proof -
  have "outcome {e. e = IndexError \<or> (\<exists>m. e = ValueError m)} (logs s) (ProcessFile w f v [] s1)" if "logs s s1" for f v s1
  proof -
    have "lint_ok s1" using that by (simp add: logs_def)
    from ProcessFile_outcome [OF assms(1) this, where filename = f and vlevel = v] that show ?thesis
      by (auto simp: outcome_def raised_at_def unsigned_filter_def intro: logs_trans split: sum.splits if_splits)
  qed
  then show ?thesis unfolding process_files_def by (intro outcome_rfold logs_refl assms(2)) blast
qed

subsection \<open>Properties\<close>


text \<open>A directory with a configuration file inside of another one.\<close>

definition nested_world :: world where
  "nested_world = quiet_world\<lparr>w_config := \<lambda>p.
     if p = ''/w/a/CPPLINT.cfg'' then Config_Lines [''filter=-build'' @ [newline], ''linelength = 100'']
     else if p = ''/w/CPPLINT.cfg'' then Config_Lines [''filter=+build  # all'' @ [newline], ''linelength=80'', ''set noparent'']
     else No_Config\<rparr>"



lemma nested_world_ok: "world_ok nested_world"
  using quiet_world_ok by (simp add: world_ok_def nested_world_def)


lemma distinct_single: "distinct xs \<Longrightarrow> set xs = {a} \<Longrightarrow> xs = [a]"
proof (cases xs)
  case (Cons b ys)
  assume "distinct xs" "set xs = {a}"
  with Cons have "b = a" "set ys \<subseteq> {a}" "a \<notin> set ys" by auto
  then show ?thesis using Cons by (cases ys) auto
qed simp

lemma filter_single:
  assumes "z \<in> set xs" "distinct xs" "P z" "\<forall>x \<in> set xs. P x \<longrightarrow> x = z"
  shows "filter P xs = [z]"
proof -
  have "set (filter P xs) = {z}" unfolding set_filter using assms(1,3,4) by blast
  with assms(2) show ?thesis by (intro distinct_single) simp_all
qed

lemma long_has_args_unique:
  assumes "name @ ''='' \<in> set long_options" "prefix given name" "\<forall>x \<in> set long_options. prefix given x \<longrightarrow> x = name @ ''=''"
  shows "long_has_args given long_options = Some (True, name)"
proof -
  have "distinct long_options" by code_simp
  moreover have "prefix given (name @ ''='')" using assms(2) by (rule prefix_prefix)
  ultimately have "filter (prefix given) long_options = [name @ ''='']" using assms(1,3) by (intro filter_single)
  moreover have "given \<noteq> name @ ''=''" using assms(2) prefix_length_le by fastforce
  ultimately show ?thesis by (simp add: long_has_args_def py_endswith_def Let_def)
qed

lemma long_option_plain: "name @ ''='' \<in> set long_options \<Longrightarrow> CHR ''='' \<notin> set name"
proof -
  have "list_all (\<lambda>x. CHR ''='' \<notin> set (butlast x)) long_options" by code_simp
  then show "name @ ''='' \<in> set long_options \<Longrightarrow> CHR ''='' \<notin> set name" by (fastforce simp: list_all_iff)
qed

text \<open>
  Options that are written \<open>--given=value\<close>, with a name cut down to any prefix that only one of the program's options
  has, are read back as written in full, in order and with any values, and everything from the first word that is no
  option on is a file name.
\<close>

lemma getopt_abbreviated:
  assumes "\<forall>(given, name, val) \<in> set opts. name @ ''='' \<in> set long_options \<and> prefix given name \<and>
      (\<forall>x \<in> set long_options. prefix given x \<longrightarrow> x = name @ ''='')"
    and "filenames = [] \<or> \<not> py_startswith (hd filenames) ''-'' \<or> hd filenames = ''-''"
  shows "getopt long_options (map (\<lambda>(given, name, val). ''--'' @ given @ ''='' @ val) opts @ filenames) =
     Some (map (\<lambda>(given, name, val). (''--'' @ name, val)) opts, filenames)"
  using assms(1)
proof (induction opts)
  case Nil
  show ?case using assms(2) by (cases filenames) simp_all
next
  case (Cons x opts)
  obtain given name val where x: "x = (given, name, val)" by (cases x)
  with Cons.prems have x_ok: "name @ ''='' \<in> set long_options" "prefix given name"
    "\<forall>x \<in> set long_options. prefix given x \<longrightarrow> x = name @ ''=''" by auto
  have "CHR ''='' \<notin> set given" using long_option_plain [OF x_ok(1)] set_mono_prefix [OF x_ok(2)] by auto
  then have "takeWhile (\<lambda>c. c \<noteq> CHR ''='') (given @ ''='' @ val) = given" "dropWhile (\<lambda>c. c \<noteq> CHR ''='') (given @ ''='' @ val) = ''='' @ val"
    by (auto simp: takeWhile_append dropWhile_append)
  then have "do_longs long_options (given @ ''='' @ val) args = Some ((''--'' @ name, val), args)" for args
    using long_has_args_unique [OF x_ok] by (simp add: do_longs_def Let_def)
  with Cons x show ?case by (simp add: py_startswith_def)
qed

lemma digit_char_value: "d < 10 \<Longrightarrow> char_between CHR ''0'' CHR ''9'' (digit_char d) \<and> ord (digit_char d) = 48 + d"
  by (simp add: digit_char_def char_between_def ord_def)

lemma nat_str_value:
  "nat_str n \<noteq> [] \<and> list_all (char_between CHR ''0'' CHR ''9'') (nat_str n) \<and> fold (\<lambda>c n. n * 10 + (ord c - 48)) (nat_str n) 0 = n"
proof (induction n rule: nat_str.induct)
  case (1 n)
  show ?case
  proof (cases "n < 10")
    case True
    then show ?thesis using digit_char_value [of n] by (simp add: nat_str.simps [of n])
  next
    case False
    with 1 show ?thesis using digit_char_value [of "n mod 10"] by (simp add: nat_str.simps [of n])
  qed
qed

lemma strip_plain: "\<forall>c \<in> set s. \<not> ascii_space c \<Longrightarrow> bytes_strip s = s"
proof -
  assume s: "\<forall>c \<in> set s. \<not> ascii_space c"
  have "dropWhile ascii_space s = s" using s by (cases s) auto
  moreover have "dropWhile ascii_space (rev s) = rev s" using s by (cases s rule: rev_cases) auto
  ultimately show ?thesis by (simp add: bytes_strip_def)
qed

lemma digit_facts: "char_between CHR ''0'' CHR ''9'' c \<Longrightarrow> \<not> ascii_space c \<and> c \<noteq> CHR ''-'' \<and> c \<noteq> CHR ''+''"
  by (auto simp: char_between_def ascii_space_def ord_def)

lemma py_int_str: "py_int (int_str i) = Some i"
proof -
  have digits: "digits_value (nat_str n) = Some (int n)" for n using nat_str_value [of n] by (simp add: digits_value_def)
  have plain: "\<forall>c \<in> set (nat_str n). \<not> ascii_space c" for n using nat_str_value [of n] digit_facts by (auto simp: list_all_iff)
  obtain c cs where c: "nat_str (nat i) = c # cs" "char_between CHR ''0'' CHR ''9'' c"
    using nat_str_value [of "nat i"] by (cases "nat_str (nat i)") auto
  show ?thesis
  proof (cases "i < 0")
    case True
    then have "bytes_strip (int_str i) = int_str i" using plain by (intro strip_plain) (auto simp: int_str_def ascii_space_def)
    with True digits show ?thesis by (simp add: py_int_def int_str_def)
  next
    case False
    then have "bytes_strip (int_str i) = int_str i" using plain by (intro strip_plain) (auto simp: int_str_def)
    with False c digits [of "nat i"] digit_facts [OF c(2)] show ?thesis by (simp add: py_int_def int_str_def)
  qed
qed

lemma g_SetFilters_signed:
  assumes "list_all signed_filter (filter_pieces f)"
  shows "g_SetFilters f s = Inr (with_filters s (DEFAULT_FILTERS @ filter_pieces f))"
proof -
  have "SetFilters f (cpplint_state s) = Inr ((cpplint_state s)\<lparr>filters := DEFAULT_FILTERS @ filter_pieces f\<rparr>)"
    using assms filters_ok_default by (simp add: SetFilters_def AddFilters_Inr_iff filters_ok_def)
  then show ?thesis by (simp add: g_SetFilters_def with_filters_def)
qed

text \<open>The options that take a value, as they are written.\<close>

definition written_options :: "string \<Rightarrow> int \<Rightarrow> string \<Rightarrow> string \<Rightarrow> string \<Rightarrow> int \<Rightarrow> string \<Rightarrow> (string \<times> string) list" where
  "written_options out v fs style r n es =
     [(''output'', out), (''verbose'', int_str v), (''filter'', fs), (''counting'', style), (''root'', r),
      (''linelength'', int_str n), (''extensions'', es)]"

text \<open>
  C10: a documented output format and counting style, any verbosity and line length written in
  decimal, a list of filters that all carry a sign, a root and extensions, written as options with their full names and
  followed by file names, are all that \<open>ParseArguments\<close> changes, and it returns the file names as they are.
\<close>

theorem parse_arguments_roundtrip:
  assumes "out \<in> {''emacs'', ''vs7'', ''eclipse''}" and "style \<in> {''total'', ''toplevel'', ''detailed''}"
    and "fs \<noteq> []" and "list_all signed_filter (filter_pieces fs)"
    and "filenames \<noteq> []" and "\<not> py_startswith (hd filenames) ''-''"
  shows "ParseArguments (map (\<lambda>(name, val). ''--'' @ name @ ''='' @ val) (written_options out v fs style r n es) @ filenames) s =
     Returned (filenames,
       s\<lparr>root := Some r, line_length := n, valid_extensions := set (py_split_on CHR '','' es),
         cpplint_state := (cpplint_state s)\<lparr>verbose_level := v, output_format := out,
           filters := DEFAULT_FILTERS @ filter_pieces fs, counting := style\<rparr>\<rparr>)"
proof -
  let ?os = "written_options out v fs style r n es"
  have "list_all (\<lambda>name. name @ ''='' \<in> set long_options \<and> (\<forall>x \<in> set long_options. prefix name x \<longrightarrow> x = name @ ''=''))
      [''output'', ''verbose'', ''filter'', ''counting'', ''root'', ''linelength'', ''extensions'']" by code_simp
  then have "\<forall>(given, name, val) \<in> set (map (\<lambda>(name, val). (name, name, val)) ?os). name @ ''='' \<in> set long_options \<and> prefix given name \<and>
      (\<forall>x \<in> set long_options. prefix given x \<longrightarrow> x = name @ ''='')" by (simp add: written_options_def)
  from getopt_abbreviated [OF this, of filenames] assms(6) have
    read: "getopt long_options (map (\<lambda>(name, val). ''--'' @ name @ ''='' @ val) ?os @ filenames) =
       Some (map (\<lambda>(name, val). (''--'' @ name, val)) ?os, filenames)" by (simp add: comp_def split_def)
  have format: "one_option (''--output'', out) (a, s) = Returned (a\<lparr>arg_output_format := out\<rparr>, s)" for a s
    using assms(1) by (auto simp: one_option_def)
  have style: "one_option (''--counting'', style) (a, s) = Returned (a\<lparr>arg_counting_style := style\<rparr>, s)" for a s
    using assms(2) by (auto simp: one_option_def)
  have other: "one_option (''--verbose'', int_str v) (a, s) = Returned (a\<lparr>arg_verbosity := v\<rparr>, s)"
    "one_option (''--filter'', fs) (a, s) = Returned (a\<lparr>arg_filters := fs\<rparr>, s)"
    "one_option (''--root'', r) (a, s) = Returned (a, s\<lparr>root := Some r\<rparr>)"
    "one_option (''--linelength'', int_str n) (a, s) = Returned (a, s\<lparr>line_length := n\<rparr>)"
    "one_option (''--extensions'', es) (a, s) = Returned (a, s\<lparr>valid_extensions := set (py_split_on CHR '','' es)\<rparr>)" for a s
    using assms(3) by (simp_all add: one_option_def py_int_str)
  have options: "all_options (map (\<lambda>(name, val). (''--'' @ name, val)) ?os) (a, s) =
      Returned (a\<lparr>arg_output_format := out, arg_verbosity := v, arg_filters := fs, arg_counting_style := style\<rparr>,
        s\<lparr>root := Some r, line_length := n, valid_extensions := set (py_split_on CHR '','' es)\<rparr>)" for a
    by (simp add: written_options_def format style other)
  show ?thesis
    unfolding ParseArguments_def read option.case prod.case options fbind_simps
    using assms(5) by (simp add: g_SetFilters_signed [OF assms(4)] unless_raised_def with_filters_def g_SetCountingStyle_def
        SetCountingStyle_def g_SetVerboseLevel_def SetVerboseLevel_def g_SetOutputFormat_def SetOutputFormat_def)
qed

theorem parse_arguments_roundtrip_witness:
  "\<exists>s'. ParseArguments [''--output=vs7'', ''--verbose=-3'', ''--filter=-build,+legal'', ''--counting=total'', ''--root=src'',
       ''--linelength=120'', ''--extensions=hpp,cpp'', ''a.cpp''] lint_init = Returned ([''a.cpp''], s') \<and>
     verbose_level (cpplint_state s') = - 3 \<and> line_length s' = 120 \<and> valid_extensions s' = {''hpp'', ''cpp''}"
proof -
  have numbers: "int_str (- 3) = ''-3''" "int_str 120 = ''120''" "list_all signed_filter (filter_pieces ''-build,+legal'') = True"
    "py_split_on CHR '','' ''hpp,cpp'' = [''hpp'', ''cpp'']" by code_simp+
  from parse_arguments_roundtrip [of "''vs7''" "''total''" "''-build,+legal''" "[''a.cpp'']" "- 3" "''src''" 120 "''hpp,cpp''" lint_init]
  show ?thesis by (simp add: written_options_def numbers py_startswith_def)
qed


lemma PrintErrorCounts_last:
  "last (stderr (PrintErrorCounts items s)) = ''Total errors found: '' @ nat_str (error_count (cpplint_state s)) @ [newline]"
  "cpplint_state (PrintErrorCounts items s) = cpplint_state s"
  by (simp_all add: PrintErrorCounts_def Let_def)

lemma arguments_set_ok:
  assumes "lint_ok s" "arguments_set s s'"
  shows "lint_ok (s'\<lparr>cpplint_state := ResetErrorCounts (cpplint_state s')\<rparr>)"
  using assms by (auto simp: arguments_set_def lint_ok_def state_ok_def counts_ok_def ResetErrorCounts_def)



end
