(* ===== verification/Spec2Isabelle.thy ===== *)
theory Spec2Isabelle
  imports Expressions File_Info Include_State Function_State Nesting_Laws File_Checks Header_Guard Check_Macros Constructs Spacing Braces Style Casts References Language Include_Use Late_Checks Line_Breaks Whole_File Driver
begin

text \<open>
  A model of \<^verbatim>\<open>src/cpplint.py\<close>, the style checker that this repository runs over its C++ sources,
  and theorems about it.  The program reads a file, cleanses its lines (raw strings, comments, string
  literals), keeps four states while it walks over the lines (the nesting of blocks, the includes, the
  current function, and the global state with filters, counters and suppressions), and calls a long
  list of checks, which report through the function \<open>error\<close> they are given.

  \<^bold>\<open>Conventions.\<close>  A Python string is a HOL \<open>string\<close>, one \<open>char\<close> for one code point below 256.  Python's
  exceptions are values: a computation has type \<open>'a res = py_error + 'a\<close>, and \<open>rbind\<close> runs one after the
  other.  A check is an \<open>action\<close>, a function from the global state \<open>lint\<close> to \<open>lint res\<close>; the function
  \<open>error\<close> is an argument of it.  An index out of range is \<open>Inl IndexError\<close>.  Regular expressions are
  values of the datatype \<open>rx\<close>, run by a backtracking matcher that lists all matches in the order in
  which Python tries them.  Loops are structural recursion where they can be, otherwise \<open>function\<close> with a
  proof of termination; the one loop that may not end is a \<open>partial_function\<close>, with the outcome \<open>Hangs\<close>.
  There is no fuel.

  \<^bold>\<open>Theories.\<close>
  \<^item> \<open>Py_Prelude\<close>: exceptions, indexing, string methods; \<open>keeps\<close> and \<open>lands\<close>, with which the proofs that a
    check returns and preserves an invariant are composed.
  \<^item> \<open>Py_Regex\<close>: the matcher, \<open>Match\<close>, \<open>Search\<close>, \<open>ReplaceAll\<close>, and the lemmas about the layout of matches.
  \<^item> \<open>Lint_Tables\<close>: the tables and patterns at the top of the module.
  \<^item> \<open>Lint_State\<close>: \<open>_CppLintState\<close>, the suppressions, \<open>_ShouldPrintError\<close> and \<open>Error\<close>.  The locale
    \<open>error_handler\<close> states what a check may rely on in the function it reports to; it is interpreted for
    \<open>Error\<close> with two invariants (\<open>sink\<close>, \<open>logged\<close>).
  \<^item> \<open>Cleansing\<close>: \<open>CleansedLines\<close> and what it is made with.
  \<^item> \<open>Expressions\<close>: \<open>CloseExpression\<close> and \<open>ReverseCloseExpression\<close>, which match brackets across lines.
  \<^item> \<open>Paths\<close>, \<open>File_Info\<close>: \<open>os.path\<close> on a posix system and the class \<open>FileInfo\<close>; the file system is a parameter.
  \<^item> \<open>Include_State\<close>: \<open>_IncludeState\<close> and the checks of include lines.
  \<^item> \<open>Function_State\<close>: \<open>_FunctionState\<close> and \<open>CheckForFunctionLengths\<close>.
  \<^item> \<open>Nesting\<close>, \<open>Nesting_Laws\<close>: the block classes and \<open>NestingState\<close>; the second theory has the laws of
    the pass over a whole file.
  \<^item> \<open>File_Checks\<close>, \<open>Header_Guard\<close>: checks of a whole file, simple checks of a line, header guards.
  \<^item> \<open>Check_Macros\<close>: comparisons in check macros, alternative tokens.
  \<^item> \<open>Constructs\<close>: non-standard constructs, constructors, spaces around calls.
  \<^item> \<open>Spacing\<close>: comments, blank lines, spaces around operators, brackets and braces, sections of a class.
  \<^item> \<open>Braces\<close>: placement of braces, bodies of conditionals, semicolons after blocks, empty bodies.
  \<^item> \<open>Style\<close>: \<open>CheckStyle\<close>, with the checks of the layout of one line, and the lemma that on the lines of a
    file it returns whatever the line holds.
  \<^item> \<open>Casts\<close>: the checks of casts; the only way in which they raise an exception.
  \<^item> \<open>References\<close>: \<open>CheckForNonConstReference\<close> and the questions about the function around a line; it
    always returns.
  \<^item> \<open>Language\<close>: \<open>_GetTextInside\<close>, \<open>CheckGlobalStatic\<close>, \<open>CheckPrintf\<close>, \<open>CheckLanguage\<close>; what the text inside brackets
    is, and that only the checks of casts can raise.
  \<^item> \<open>Include_Use\<close>: \<open>CheckForIncludeWhatYouUse\<close> with the tables it uses and \<open>FilesBelongToSameModule\<close>; which headers
    it asks for.
  \<^item> \<open>Late_Checks\<close>: redundant \<^verbatim>\<open>virtual\<close>, \<^verbatim>\<open>override\<close> and \<^verbatim>\<open>final\<close>, and the features of newer standards.
  \<^item> \<open>Line_Breaks\<close>: cleansing adds no characters but quotes, so that cleansed lines hold no line break.
  \<^item> \<open>Whole_File\<close>: \<open>ProcessLine\<close> and \<open>ProcessFileData\<close>, with what lies outside of the program in the record \<open>world\<close>.  The
    locale \<open>pass_handler\<close> extends the contract of the sink by what a pass over a file needs; in it the checks' lemmas are
    composed to one about the whole file, and it is interpreted for \<open>Error\<close> with the invariant that only reports are added
    (\<open>reports\<close>).
  \<^item> \<open>Driver\<close>: configuration files, \<open>ProcessFile\<close>, the command line with the library's \<open>getopt\<close>, and \<open>main\<close>, whose outcomes are
    \<open>finish\<close> values: returned, exited with a status, or an exception that nobody caught.

  \<^bold>\<open>How the parts fit together.\<close>  \<open>main\<close> parses the arguments and calls \<open>ProcessFile\<close> for every file; this one climbs through
  the configuration files, reads the file and calls \<open>ProcessFileData\<close>, which cleanses the lines and runs \<open>ProcessLine\<close> on
  each.  A check's lemma says that it keeps any invariant that its sink keeps, on lines that satisfy \<open>lines_ok\<close> or
  \<open>copies_ok\<close>; \<open>CleansedLines_init\<close> establishes these, \<open>Update\<close> keeps the blocks within the file, and so the lemmas compose
  to one about the whole file, at the end of \<open>Whole_File\<close>.  The exceptions that remain come from \<open>CheckCasts\<close>, from
  \<open>CheckForNonStandardConstructs\<close> and from \<open>fs_Check\<close>; their theories say exactly when.  All definitions can be evaluated, by
  simplification and by generated code.

  \<^bold>\<open>Not modelled.\<close>  Reading files and directories and decoding their bytes: their contents are the parameters in \<open>world\<close>,
  which do not change during a run.  Characters above 255, so that no line is wider than it is long and the check for the
  replacement character is proved about code points but finds none in a file of the model.  Writing the log to the
  terminal: the log is a list of what was written.  The parser for patterns that are only known when the program runs
  (\<open>--root\<close> with special characters, \<open>exclude_files\<close>) is a parameter.  After an exception that nobody catches the state is
  not part of the outcome.
\<close>

end
